(* ===== verification/JS_Prelude.thy ===== *)
theory JS_Prelude
  imports Main "HOL-Library.Word"
begin

text \<open>
  Shared ground of the development: how the values of the TypeScript sources are
  represented, the result type of code that throws, safe integers
  (\<^verbatim>\<open>packages/client/src/safe_int.ts\<close>), and the generic lemmas on results and lists
  that the component theories use.

  \<^item> A \<^verbatim>\<open>Uint8Array\<close> is a list of \<open>8 word\<close>.
  \<^item> A JavaScript string is the list of its UTF-16 code units (\<open>ustring\<close>); \<open>lit\<close>
    turns an ASCII literal into one.
  \<^item> A JavaScript number is an integer value or one that is not an integer
    (a fraction, NaN or an infinity), which carries what \<^verbatim>\<open>String(n)\<close> prints.
    Every test the sources make on a number that need not be an integer is
    \<^verbatim>\<open>Number.isSafeInteger\<close>, \<^verbatim>\<open>Number.isInteger\<close> or a comparison guarded by one of them.
    Sums of two safe integers are computed exactly here; the double sum is rounded,
    but rounding is monotone and \<open>2 ^ 53\<close> is a double, so the rounded sum is a safe
    integer exactly when the exact one is, and then they are equal.
  \<^item> \<^verbatim>\<open>unknown\<close> values, as \<^verbatim>\<open>JSON.parse\<close> yields them, are \<open>jsval\<close>.
  \<^item> Code that throws returns a sum; \<open>Inl\<close> carries the error. The text of error
    messages is not modelled.
\<close>

section \<open>Values\<close>

type_synonym byte = "8 word"
type_synonym bytes = "byte list"
type_synonym ustring = "nat list"

definition lit :: "string \<Rightarrow> ustring" where
  "lit s = map of_char s"

datatype jsnum = NInt int | NOther ustring

datatype jsval =
    JUndefined
  | JNull
  | JBool bool
  | JNum jsnum
  | JBigInt int
  | JStr ustring
  | JArr "jsval list"
  | JObj "(ustring \<times> jsval) list"

text \<open>Property access \<^verbatim>\<open>o.k\<close>: a missing property reads as \<^verbatim>\<open>undefined\<close>.\<close>

definition getProp :: "(ustring \<times> jsval) list \<Rightarrow> string \<Rightarrow> jsval" where
  "getProp ob k = (case map_of ob (lit k) of None \<Rightarrow> JUndefined | Some v \<Rightarrow> v)"

section \<open>Results\<close>

named_theorems result_simps \<open>rewriting of results of code that throws\<close>

definition bindE :: "'e + 'a \<Rightarrow> ('a \<Rightarrow> 'e + 'b) \<Rightarrow> 'e + 'b" where
  "bindE m f = (case m of Inl e \<Rightarrow> Inl e | Inr a \<Rightarrow> f a)"

text \<open>\<open>orFail c e\<close> is \<^verbatim>\<open>if (!c) throw e\<close>.\<close>

definition orFail :: "bool \<Rightarrow> 'e \<Rightarrow> 'e + unit" where
  "orFail c e = (if c then Inr () else Inl e)"

fun mapE :: "('a \<Rightarrow> 'e + 'b) \<Rightarrow> 'a list \<Rightarrow> 'e + 'b list" where
  "mapE f [] = Inr []"
| "mapE f (x # xs) = bindE (f x) (\<lambda>y. bindE (mapE f xs) (\<lambda>ys. Inr (y # ys)))"

lemma bindE_Inl [simp]: "bindE (Inl e) f = Inl e"
  by (simp add: bindE_def)

lemma bindE_Inr [simp]: "bindE (Inr a) f = f a"
  by (simp add: bindE_def)

lemma bindE_eq_Inr [result_simps]:
  "bindE m f = Inr b \<longleftrightarrow> (\<exists>a. m = Inr a \<and> f a = Inr b)"
  by (cases m) auto

lemma bindE_eq_Inl [result_simps]:
  "bindE m f = Inl e \<longleftrightarrow> m = Inl e \<or> (\<exists>a. m = Inr a \<and> f a = Inl e)"
  by (cases m) auto

lemma bindE_cong [fundef_cong]:
  "m = m' \<Longrightarrow> (\<And>a. m' = Inr a \<Longrightarrow> f a = g a) \<Longrightarrow> bindE m f = bindE m' g"
  by (cases m') auto

lemma orFail_eq_Inr [simp]: "orFail c e = Inr u \<longleftrightarrow> c"
  by (simp add: orFail_def)

lemma orFail_eq_Inl [simp]: "orFail c e = Inl e' \<longleftrightarrow> \<not> c \<and> e' = e"
  by (auto simp: orFail_def)

lemma orFail_True [simp]: "orFail True e = Inr ()"
  by (simp add: orFail_def)

lemma orFail_False [simp]: "orFail False e = Inl e"
  by (simp add: orFail_def)

lemma mapE_Inr_iff: "mapE f xs = Inr ys \<longleftrightarrow> list_all2 (\<lambda>x y. f x = Inr y) xs ys"
  by (induction xs arbitrary: ys) (auto simp: result_simps list_all2_Cons1)

lemma mapE_length: "mapE f xs = Inr ys \<Longrightarrow> length ys = length xs"
  by (auto simp: mapE_Inr_iff dest: list_all2_lengthD)

lemma mapE_cong [fundef_cong]:
  "xs = ys \<Longrightarrow> (\<And>x. x \<in> set ys \<Longrightarrow> f x = g x) \<Longrightarrow> mapE f xs = mapE g ys"
proof (induction ys arbitrary: xs)
  case Nil
  then show ?case by simp
next
  case (Cons y ys)
  then have "mapE f ys = mapE g ys" by simp
  with Cons.prems show ?case by simp
qed

lemma mapE_append:
  "mapE f (xs @ ys) = bindE (mapE f xs) (\<lambda>as. bindE (mapE f ys) (\<lambda>bs. Inr (as @ bs)))"
proof (induction xs)
  case Nil
  show ?case by (cases "mapE f ys") simp_all
next
  case (Cons x xs)
  then show ?case by (cases "f x"; cases "mapE f xs"; cases "mapE f ys") simp_all
qed

section \<open>Safe integers\<close>

definition MAX_SAFE_INTEGER :: int where
  "MAX_SAFE_INTEGER = 9007199254740991"

definition isSafeInt :: "int \<Rightarrow> bool" where
  "isSafeInt i \<longleftrightarrow> - MAX_SAFE_INTEGER \<le> i \<and> i \<le> MAX_SAFE_INTEGER"

definition isSafeInteger :: "jsnum \<Rightarrow> bool" where
  "isSafeInteger v = (case v of NInt i \<Rightarrow> isSafeInt i | NOther _ \<Rightarrow> False)"

datatype safe_int_error = UnsafeIntegerInput string | UnsafeIntegerOutput string

definition requireSafeIntegerInput :: "string \<Rightarrow> jsnum \<Rightarrow> safe_int_error + int" where
  "requireSafeIntegerInput name v =
     (case v of
        NInt i \<Rightarrow> if isSafeInt i then Inr i else Inl (UnsafeIntegerInput name)
      | NOther _ \<Rightarrow> Inl (UnsafeIntegerInput name))"

definition requireSafeIntegerOutput :: "string \<Rightarrow> jsnum \<Rightarrow> safe_int_error + int" where
  "requireSafeIntegerOutput name v =
     (case v of
        NInt i \<Rightarrow> if isSafeInt i then Inr i else Inl (UnsafeIntegerOutput name)
      | NOther _ \<Rightarrow> Inl (UnsafeIntegerOutput name))"

definition requireOptionalSafeIntegerOutput ::
    "string \<Rightarrow> jsnum option \<Rightarrow> safe_int_error + int option" where
  "requireOptionalSafeIntegerOutput name v =
     (case v of
        None \<Rightarrow> Inr None
      | Some x \<Rightarrow> bindE (requireSafeIntegerOutput name x) (\<lambda>i. Inr (Some i)))"

definition requireSafeIntegerArrayOutput ::
    "string \<Rightarrow> jsnum list \<Rightarrow> safe_int_error + int list" where
  "requireSafeIntegerArrayOutput name values = mapE (requireSafeIntegerOutput name) values"

lemma requireSafeIntegerInput_Inr [result_simps]:
  "requireSafeIntegerInput name v = Inr i \<longleftrightarrow> v = NInt i \<and> isSafeInt i"
  by (auto simp: requireSafeIntegerInput_def split: jsnum.splits)

lemma requireSafeIntegerOutput_Inr [result_simps]:
  "requireSafeIntegerOutput name v = Inr i \<longleftrightarrow> v = NInt i \<and> isSafeInt i"
  by (auto simp: requireSafeIntegerOutput_def split: jsnum.splits)

lemma requireSafeIntegerInput_safe [simp]:
  "isSafeInt i \<Longrightarrow> requireSafeIntegerInput name (NInt i) = Inr i"
  by (simp add: requireSafeIntegerInput_def)

lemma requireSafeIntegerOutput_safe [simp]:
  "isSafeInt i \<Longrightarrow> requireSafeIntegerOutput name (NInt i) = Inr i"
  by (simp add: requireSafeIntegerOutput_def)

lemma isSafeInt_between:
  "isSafeInt a \<Longrightarrow> isSafeInt c \<Longrightarrow> a \<le> b \<Longrightarrow> b \<le> c \<Longrightarrow> isSafeInt b"
  by (auto simp: isSafeInt_def)

lemma isSafeInt_numeral [simp]:
  "isSafeInt 0" "isSafeInt 1"
  "isSafeInt (numeral n) \<longleftrightarrow> numeral n \<le> MAX_SAFE_INTEGER"
  by (auto simp: isSafeInt_def MAX_SAFE_INTEGER_def)

section \<open>Strings\<close>

text \<open>\<^verbatim>\<open>String.prototype.trim\<close>: the white space and line terminators of ECMAScript.\<close>

definition isJsSpace :: "nat \<Rightarrow> bool" where
  "isJsSpace c \<longleftrightarrow>
     (9 \<le> c \<and> c \<le> 13) \<or> c = 32 \<or> c = 160 \<or> c = 5760 \<or> (8192 \<le> c \<and> c \<le> 8202) \<or>
     c = 8232 \<or> c = 8233 \<or> c = 8239 \<or> c = 8287 \<or> c = 12288 \<or> c = 65279"

definition trim :: "ustring \<Rightarrow> ustring" where
  "trim s = rev (dropWhile isJsSpace (rev (dropWhile isJsSpace s)))"

text \<open>
  \<^verbatim>\<open>toLowerCase\<close> as far as the sources depend on it: they apply it to strings that a
  pattern of ASCII letters, digits and \<^verbatim>\<open>-\<close> then accepts or rejects. ASCII letters are
  lowered; the Kelvin sign U+212A is the one other code unit whose lower case is ASCII
  text. Every other unit stays outside ASCII when lowered, so the pattern rejects the
  string whatever it becomes; it is kept as it is here.
\<close>

definition lowerUnit :: "nat \<Rightarrow> nat" where
  "lowerUnit c = (if 65 \<le> c \<and> c \<le> 90 then c + 32 else if c = 8490 then 107 else c)"

definition toLowerCase :: "ustring \<Rightarrow> ustring" where
  "toLowerCase s = map lowerUnit s"

text \<open>Decimal text of a natural number and of an integer, as \<^verbatim>\<open>toString()\<close> gives it.\<close>

fun natDigits :: "nat \<Rightarrow> ustring" where
  "natDigits n = (if n < 10 then [48 + n] else natDigits (n div 10) @ [48 + n mod 10])"

declare natDigits.simps [simp del]

definition bigintToString :: "int \<Rightarrow> ustring" where
  "bigintToString i = (if i < 0 then 45 # natDigits (nat (- i)) else natDigits (nat i))"

definition isDigit :: "nat \<Rightarrow> bool" where
  "isDigit c \<longleftrightarrow> 48 \<le> c \<and> c \<le> 57"

text \<open>The value of a string of digits, as \<^verbatim>\<open>BigInt(text)\<close> reads it.\<close>

definition digitsValue :: "ustring \<Rightarrow> nat" where
  "digitsValue s = foldl (\<lambda>n c. 10 * n + (c - 48)) 0 s"

text \<open>The pattern \<^verbatim>\<open>/^(0|[1-9]\d*)$/\<close>.\<close>

definition isCanonicalDecimal :: "ustring \<Rightarrow> bool" where
  "isCanonicalDecimal s \<longleftrightarrow>
     s = [48] \<or> (s \<noteq> [] \<and> hd s \<noteq> 48 \<and> list_all isDigit s)"

lemma digitsValue_append_one [simp]:
  "digitsValue (s @ [c]) = 10 * digitsValue s + (c - 48)"
  by (simp add: digitsValue_def)

lemma natDigits_not_Nil [simp]: "natDigits n \<noteq> []"
  by (subst natDigits.simps) simp

lemma natDigits_digits: "list_all isDigit (natDigits n)"
proof (induction n rule: natDigits.induct)
  case (1 n)
  show ?case
  proof (cases "n < 10")
    case True
    then show ?thesis by (subst natDigits.simps) (simp add: isDigit_def)
  next
    case False
    have "n mod 10 < 10" by simp
    then have "isDigit (48 + n mod 10)" unfolding isDigit_def by linarith
    with 1 False show ?thesis by (subst natDigits.simps) simp
  qed
qed

lemma digitsValue_natDigits [simp]: "digitsValue (natDigits n) = n"
proof (induction n rule: natDigits.induct)
  case (1 n)
  show ?case
  proof (cases "n < 10")
    case True
    then show ?thesis by (subst natDigits.simps) (simp add: digitsValue_def)
  next
    case False
    then have "natDigits n = natDigits (n div 10) @ [48 + n mod 10]"
      by (subst natDigits.simps) simp
    with 1 False show ?thesis by simp
  qed
qed

lemma natDigits_inject [simp]: "natDigits m = natDigits n \<longleftrightarrow> m = n"
  by (metis digitsValue_natDigits)

lemma natDigits_hd: "0 < n \<Longrightarrow> hd (natDigits n) \<noteq> 48"
proof (induction n rule: natDigits.induct)
  case (1 n)
  show ?case
  proof (cases "n < 10")
    case True
    with 1 show ?thesis by (subst natDigits.simps) simp
  next
    case False
    with 1 show ?thesis by (subst natDigits.simps) simp
  qed
qed

lemma natDigits_canonical [simp]: "isCanonicalDecimal (natDigits n)"
proof (cases "n = 0")
  case True
  then show ?thesis by (simp add: isCanonicalDecimal_def natDigits.simps)
next
  case False
  then show ?thesis
    by (simp add: isCanonicalDecimal_def natDigits_digits natDigits_hd)
qed

text \<open>Canonical decimals are exactly the texts that \<^verbatim>\<open>toString\<close> prints.\<close>

lemma natDigits_digitsValue:
  assumes "isCanonicalDecimal s"
  shows "natDigits (digitsValue s) = s"
proof -
  have digits: "natDigits (digitsValue s) = s \<and> 0 < digitsValue s"
    if "s \<noteq> []" "hd s \<noteq> 48" "list_all isDigit s" for s
    using that
  proof (induction s rule: rev_induct)
    case Nil
    then show ?case by simp
  next
    case (snoc c s)
    then have c: "48 \<le> c" "c \<le> 57" by (simp_all add: isDigit_def)
    show ?case
    proof (cases "s = []")
      case True
      with snoc.prems c show ?thesis
        by (subst natDigits.simps) (simp add: digitsValue_def)
    next
      case False
      with snoc have ih: "natDigits (digitsValue s) = s" "0 < digitsValue s" by simp_all
      obtain d where d: "c = 48 + d" "d < 10"
        using c that [of "c - 48"] by simp
      with ih show ?thesis by (subst natDigits.simps) simp
    qed
  qed
  show ?thesis
  proof (cases "s = [48]")
    case True
    then show ?thesis by (simp add: digitsValue_def natDigits.simps)
  next
    case False
    with assms digits show ?thesis by (simp add: isCanonicalDecimal_def)
  qed
qed

lemma trim_length: "length (trim s) \<le> length s"
proof -
  have "length (trim s) \<le> length (dropWhile isJsSpace s)"
    by (simp add: trim_def) (metis length_dropWhile_le length_rev)
  also have "\<dots> \<le> length s" by (rule length_dropWhile_le)
  finally show ?thesis .
qed

lemma trim_hd: "trim s \<noteq> [] \<Longrightarrow> \<not> isJsSpace (hd (trim s))"
proof -
  assume ne: "trim s \<noteq> []"
  let ?t = "dropWhile isJsSpace s"
  obtain zs where zs: "?t = trim s @ zs"
    unfolding trim_def
    by (metis append_take_drop_id dropWhile_eq_drop rev_append rev_rev_ident)
  with ne have "hd ?t = hd (trim s)" and "?t \<noteq> []" by auto
  then show "\<not> isJsSpace (hd (trim s))" by (metis hd_dropWhile)
qed

lemma trim_last: "trim s \<noteq> [] \<Longrightarrow> \<not> isJsSpace (last (trim s))"
  by (simp add: trim_def last_rev hd_dropWhile)

lemma dropWhile_id_hd: "s = [] \<or> \<not> P (hd s) \<Longrightarrow> dropWhile P s = s"
  by (cases s) auto

lemma trim_trim [simp]: "trim (trim s) = trim s"
proof -
  have 1: "dropWhile isJsSpace (trim s) = trim s"
    using trim_hd [of s] by (intro dropWhile_id_hd) auto
  have "dropWhile isJsSpace (rev (trim s)) = rev (trim s)"
    using trim_last [of s] by (intro dropWhile_id_hd) (auto simp: hd_rev)
  then show ?thesis by (simp add: trim_def [of "trim s"] 1)
qed

section \<open>Lists\<close>

text \<open>JavaScript \<^verbatim>\<open>slice(a, b)\<close> with \<open>0 \<le> a\<close> on arrays and strings.\<close>

definition slice :: "nat \<Rightarrow> nat \<Rightarrow> 'a list \<Rightarrow> 'a list" where
  "slice a b xs = take (b - a) (drop a xs)"

lemma dropWhile_plain: "\<forall>u\<in>set s. \<not> P u \<Longrightarrow> dropWhile P s = s"
  by (cases s) simp_all

lemma trim_plain: "list_all (\<lambda>u. \<not> isJsSpace u) s \<Longrightarrow> trim s = s"
  by (simp add: trim_def dropWhile_plain list_all_iff)

lemma natDigits_length: "n < 10 ^ Suc k \<Longrightarrow> length (natDigits n) \<le> Suc k"
proof (induction k arbitrary: n)
  case 0
  then show ?case by (simp add: natDigits.simps [of n])
next
  case (Suc k)
  then have "n div 10 < 10 ^ Suc k"
    by (simp add: less_mult_imp_div_less mult.commute)
  with Suc.IH [of "n div 10"] show ?case
    by (simp add: natDigits.simps [of n])
qed

lemma slice_full [simp]: "slice 0 (length xs) xs = xs"
  by (simp add: slice_def)

lemma slice_0 [simp]: "slice 0 n xs = take n xs"
  by (simp add: slice_def)

lemma length_slice [simp]: "b \<le> length xs \<Longrightarrow> length (slice a b xs) = b - a"
  by (simp add: slice_def)

text \<open>Moving the last \<open>n\<close> elements of a list to the end of another: JavaScript
  \<^verbatim>\<open>splice\<close> from the end and \<^verbatim>\<open>push\<close>.\<close>

lemma drop_append_end [simp]: "drop (length (xs @ ys) - length ys) (xs @ ys) = ys"
  by simp

section \<open>Transition systems\<close>

text \<open>The state machines of the development are relations on states; an invariant of the steps
  that holds initially holds in every reachable state.\<close>

locale transition_system =
  fixes init :: "'s \<Rightarrow> bool" and step :: "'s \<Rightarrow> 's \<Rightarrow> bool" and inv :: "'s \<Rightarrow> bool"
  assumes init_inv: "init s \<Longrightarrow> inv s"
    and step_inv: "inv s \<Longrightarrow> step s s' \<Longrightarrow> inv s'"
begin

lemma steps_inv: "step\<^sup>*\<^sup>* s s' \<Longrightarrow> inv s \<Longrightarrow> inv s'"
  by (induction rule: rtranclp_induct) (auto intro: step_inv)

lemma reachable_inv: "init s \<Longrightarrow> step\<^sup>*\<^sup>* s s' \<Longrightarrow> inv s'"
  by (blast intro: steps_inv init_inv)

end

end
