(* ===== verification/Text_Encoding.thy ===== *)
theory Text_Encoding
  imports JS_Prelude
begin

text \<open>
  The single-byte text encodings of the hex editor, \<^verbatim>\<open>vscode-extension/src/textEncoding.ts\<close>:
  the code tables, decoding, classification and formatting of one byte, the memoised
  reverse maps, encoding of text and its hexadecimal renderings. A \<^verbatim>\<open>text\<close> is the list
  of its code points (\<^verbatim>\<open>Array.from(text)\<close>), and \<^verbatim>\<open>String.fromCodePoint\<close> of a table entry
  is that one code point. The module variable \<^verbatim>\<open>reverseMaps\<close> is passed as a cache.

  The lemmas show that each table is injective, that decoding and encoding are inverse to
  each other, and that the cache never changes a result. The locale \<open>single_byte_codec\<close>
  is the interface the encoder relies on; it is interpreted for every encoding.
\<close>

unbundle bit_operations_syntax

datatype TextEncoding = ASCII | WINDOWS_1252 | CP437 | EBCDIC_037_ENC | MACROMAN

datatype ByteClass = Printable | Control | HighBit | Null | FF

section \<open>Code tables\<close>

definition WINDOWS_1252_EXTENSION :: "nat option list" where
  "WINDOWS_1252_EXTENSION = [
   Some 8364, None, Some 8218, Some 402, Some 8222, Some 8230, Some 8224, Some 8225,
   Some 710, Some 8240, Some 352, Some 8249, Some 338, None, Some 381, None, None,
   Some 8216, Some 8217, Some 8220, Some 8221, Some 8226, Some 8211, Some 8212, Some 732,
   Some 8482, Some 353, Some 8250, Some 339, None, Some 382, Some 376]"

definition CP437_HIGH :: "nat list" where
  "CP437_HIGH = [
   199, 252, 233, 226, 228, 224, 229, 231, 234, 235, 232, 239, 238, 236, 196, 197, 201,
   230, 198, 244, 246, 242, 251, 249, 255, 214, 220, 162, 163, 165, 8359, 402, 225, 237,
   243, 250, 241, 209, 170, 186, 191, 8976, 172, 189, 188, 161, 171, 187, 9617, 9618, 9619,
   9474, 9508, 9569, 9570, 9558, 9557, 9571, 9553, 9559, 9565, 9564, 9563, 9488, 9492,
   9524, 9516, 9500, 9472, 9532, 9566, 9567, 9562, 9556, 9577, 9574, 9568, 9552, 9580,
   9575, 9576, 9572, 9573, 9561, 9560, 9554, 9555, 9579, 9578, 9496, 9484, 9608, 9604,
   9612, 9616, 9600, 945, 223, 915, 960, 931, 963, 181, 964, 934, 920, 937, 948, 8734, 966,
   949, 8745, 8801, 177, 8805, 8804, 8992, 8993, 247, 8776, 176, 8729, 183, 8730, 8319,
   178, 9632, 160]"

definition MAC_ROMAN_HIGH :: "nat list" where
  "MAC_ROMAN_HIGH = [
   196, 197, 199, 201, 209, 214, 220, 225, 224, 226, 228, 227, 229, 231, 233, 232, 234,
   235, 237, 236, 238, 239, 241, 243, 242, 244, 246, 245, 250, 249, 251, 252, 8224, 176,
   162, 163, 167, 8226, 182, 223, 174, 169, 8482, 180, 168, 8800, 198, 216, 8734, 177,
   8804, 8805, 165, 181, 8706, 8721, 8719, 960, 8747, 170, 186, 937, 230, 248, 191, 161,
   172, 8730, 402, 8776, 8710, 171, 187, 8230, 160, 192, 195, 213, 338, 339, 8211, 8212,
   8220, 8221, 8216, 8217, 247, 9674, 255, 376, 8260, 8364, 8249, 8250, 64257, 64258, 8225,
   183, 8218, 8222, 8240, 194, 202, 193, 203, 200, 205, 206, 207, 204, 211, 212, 63743,
   210, 218, 219, 217, 305, 710, 732, 175, 728, 729, 730, 184, 733, 731, 711]"

definition EBCDIC_037 :: "nat list" where
  "EBCDIC_037 = [
   0, 1, 2, 3, 156, 9, 134, 127, 151, 141, 142, 11, 12, 13, 14, 15, 16, 17, 18, 19, 157,
   133, 8, 135, 24, 25, 146, 143, 28, 29, 30, 31, 128, 129, 130, 131, 132, 10, 23, 27, 136,
   137, 138, 139, 140, 5, 6, 7, 144, 145, 22, 147, 148, 149, 150, 4, 152, 153, 154, 155,
   20, 21, 158, 26, 32, 160, 226, 228, 224, 225, 227, 229, 231, 241, 162, 46, 60, 40, 43,
   124, 38, 233, 234, 235, 232, 237, 238, 239, 236, 223, 33, 36, 42, 41, 59, 172, 45, 47,
   194, 196, 192, 193, 195, 197, 199, 209, 166, 44, 37, 95, 62, 63, 248, 201, 202, 203,
   200, 205, 206, 207, 204, 96, 58, 35, 64, 39, 61, 34, 216, 97, 98, 99, 100, 101, 102,
   103, 104, 105, 171, 187, 240, 253, 254, 177, 176, 106, 107, 108, 109, 110, 111, 112,
   113, 114, 170, 186, 230, 184, 198, 164, 181, 126, 115, 116, 117, 118, 119, 120, 121,
   122, 161, 191, 208, 221, 222, 174, 94, 163, 165, 183, 169, 167, 182, 188, 189, 190, 91,
   93, 175, 168, 180, 215, 123, 65, 66, 67, 68, 69, 70, 71, 72, 73, 173, 244, 246, 242,
   243, 245, 125, 74, 75, 76, 77, 78, 79, 80, 81, 82, 185, 251, 252, 249, 250, 255, 92,
   247, 83, 84, 85, 86, 87, 88, 89, 90, 178, 212, 214, 210, 211, 213, 48, 49, 50, 51, 52,
   53, 54, 55, 56, 57, 179, 219, 220, 217, 218, 159]"

section \<open>Decoding one byte\<close>

definition codePointForByte :: "int \<Rightarrow> TextEncoding \<Rightarrow> nat option" where
  "codePointForByte byte encoding =
     (if byte < 0 \<or> byte > 255 then None
      else case encoding of
        ASCII \<Rightarrow> if byte \<le> 127 then Some (nat byte) else None
      | WINDOWS_1252 \<Rightarrow>
          if byte \<ge> 128 \<and> byte \<le> 159 then WINDOWS_1252_EXTENSION ! nat (byte - 128)
          else Some (nat byte)
      | CP437 \<Rightarrow> if byte < 128 then Some (nat byte) else Some (CP437_HIGH ! nat (byte - 128))
      | EBCDIC_037_ENC \<Rightarrow> Some (EBCDIC_037 ! nat byte)
      | MACROMAN \<Rightarrow>
          if byte < 128 then Some (nat byte) else Some (MAC_ROMAN_HIGH ! nat (byte - 128)))"

definition isControlCodePoint :: "nat \<Rightarrow> bool" where
  "isControlCodePoint cp \<longleftrightarrow> (0 \<le> cp \<and> cp \<le> 31) \<or> (127 \<le> cp \<and> cp \<le> 159)"

definition decodeTextByte :: "int \<Rightarrow> TextEncoding \<Rightarrow> nat list option" where
  "decodeTextByte byte encoding =
     (case codePointForByte byte encoding of None \<Rightarrow> None | Some cp \<Rightarrow> Some [cp])"

definition isPrintableAscii :: "int \<Rightarrow> bool" where
  "isPrintableAscii byte \<longleftrightarrow> byte \<ge> 32 \<and> byte \<le> 126"

definition isPrintableTextByte :: "int \<Rightarrow> TextEncoding \<Rightarrow> bool" where
  "isPrintableTextByte byte encoding =
     (case codePointForByte byte encoding of
        None \<Rightarrow> False
      | Some cp \<Rightarrow> \<not> isControlCodePoint cp)"

definition classifyTextByte :: "int \<Rightarrow> TextEncoding \<Rightarrow> ByteClass" where
  "classifyTextByte byte encoding =
     (if byte = 0 then Null
      else if isPrintableTextByte byte encoding then Printable
      else if byte = 255 then FF
      else if byte < 32 \<or> byte = 127 \<or> codePointForByte byte encoding \<noteq> None then Control
      else HighBit)"

definition formatTextByte :: "int \<Rightarrow> TextEncoding \<Rightarrow> nat list \<Rightarrow> nat list" where
  "formatTextByte byte encoding fallback =
     (if isPrintableTextByte byte encoding
      then (case decodeTextByte byte encoding of None \<Rightarrow> fallback | Some s \<Rightarrow> s)
      else fallback)"

section \<open>Hexadecimal rendering\<close>

definition HEX2 :: ustring where
  "HEX2 = lit ''0123456789ABCDEF''"

definition byteToHex2 :: "byte \<Rightarrow> ustring" where
  "byteToHex2 b = [HEX2 ! unat (drop_bit 4 b), HEX2 ! unat (b AND 15)]"

definition bytesToHex :: "bytes \<Rightarrow> ustring" where
  "bytesToHex bs = concat (map byteToHex2 bs)"

text \<open>\<^verbatim>\<open>byte.toString(16).toUpperCase().padStart(2, '0')\<close>.\<close>

fun toString16 :: "nat \<Rightarrow> ustring" where
  "toString16 n =
     (if n < 16 then [if n < 10 then 48 + n else 87 + n]
      else toString16 (n div 16) @ [if n mod 16 < 10 then 48 + n mod 16 else 87 + n mod 16])"

declare toString16.simps [simp del]

definition toUpperHex :: "nat \<Rightarrow> nat" where
  "toUpperHex c = (if 97 \<le> c \<and> c \<le> 122 then c - 32 else c)"

definition hexPadded :: "nat \<Rightarrow> ustring" where
  "hexPadded n =
     (let s = map toUpperHex (toString16 n) in replicate (2 - length s) 48 @ s)"

section \<open>Reverse maps and encoding\<close>

type_synonym rev_map = "(nat \<times> nat) list"
type_synonym rev_cache = "TextEncoding \<rightharpoonup> rev_map"

text \<open>The loop over \<^verbatim>\<open>byte = 0 .. 0xff\<close>: the first byte of a code point wins.\<close>

definition reverseMapStep :: "TextEncoding \<Rightarrow> nat \<Rightarrow> rev_map \<Rightarrow> rev_map" where
  "reverseMapStep encoding byte m =
     (case codePointForByte (int byte) encoding of
        None \<Rightarrow> m
      | Some cp \<Rightarrow> if map_of m cp = None then m @ [(cp, byte)] else m)"

definition buildReverseMap :: "TextEncoding \<Rightarrow> rev_map" where
  "buildReverseMap encoding = fold (reverseMapStep encoding) [0..<256] []"

definition reverseMapForEncoding :: "TextEncoding \<Rightarrow> rev_cache \<Rightarrow> rev_map \<times> rev_cache" where
  "reverseMapForEncoding encoding cache =
     (case cache encoding of
        Some existing \<Rightarrow> (existing, cache)
      | None \<Rightarrow> (let m = buildReverseMap encoding in (m, cache(encoding \<mapsto> m))))"

fun encodeChars :: "rev_map \<Rightarrow> nat list \<Rightarrow> nat list option" where
  "encodeChars m [] = Some []"
| "encodeChars m (ch # str) =
     (case map_of m ch of
        None \<Rightarrow> None
      | Some byte \<Rightarrow> map_option (Cons byte) (encodeChars m str))"

definition encodeTextToBytes ::
    "nat list \<Rightarrow> TextEncoding \<Rightarrow> rev_cache \<Rightarrow> nat list option \<times> rev_cache" where
  "encodeTextToBytes str encoding cache =
     (let (m, cache') = reverseMapForEncoding encoding cache in (encodeChars m str, cache'))"

definition encodeTextToHex ::
    "nat list \<Rightarrow> TextEncoding \<Rightarrow> rev_cache \<Rightarrow> ustring option \<times> rev_cache" where
  "encodeTextToHex str encoding cache =
     (let (bs, cache') = encodeTextToBytes str encoding cache
      in (map_option (\<lambda>bytes. concat (map hexPadded bytes)) bs, cache'))"

definition printableTextToHex ::
    "nat list \<Rightarrow> TextEncoding \<Rightarrow> rev_cache \<Rightarrow> ustring option \<times> rev_cache" where
  "printableTextToHex str encoding cache =
     (let (bs, cache') = encodeTextToBytes str encoding cache
      in (case bs of
            None \<Rightarrow> None
          | Some bytes \<Rightarrow>
              if \<exists>byte \<in> set bytes. \<not> isPrintableTextByte (int byte) encoding then None
              else Some (concat (map hexPadded bytes)),
          cache'))"

fun decodeTextBytes :: "nat list \<Rightarrow> TextEncoding \<Rightarrow> nat list option" where
  "decodeTextBytes [] encoding = Some []"
| "decodeTextBytes (byte # bytes) encoding =
     (case decodeTextByte (int byte) encoding of
        None \<Rightarrow> None
      | Some ch \<Rightarrow>
          if \<not> isPrintableTextByte (int byte) encoding then None
          else map_option (append ch) (decodeTextBytes bytes encoding))"

section \<open>The tables are injective\<close>

lemma tables_length:
  "length WINDOWS_1252_EXTENSION = 32" "length CP437_HIGH = 128"
  "length MAC_ROMAN_HIGH = 128" "length EBCDIC_037 = 256"
  by (simp_all add: WINDOWS_1252_EXTENSION_def CP437_HIGH_def MAC_ROMAN_HIGH_def EBCDIC_037_def)

lemma CP437_HIGH_distinct: "distinct CP437_HIGH"
  by (simp add: CP437_HIGH_def)

lemma CP437_HIGH_ge: "list_all (\<lambda>c. 128 \<le> c) CP437_HIGH"
  by (simp add: CP437_HIGH_def)

lemma MAC_ROMAN_HIGH_distinct: "distinct MAC_ROMAN_HIGH"
  by (simp add: MAC_ROMAN_HIGH_def)

lemma MAC_ROMAN_HIGH_ge: "list_all (\<lambda>c. 128 \<le> c) MAC_ROMAN_HIGH"
  by (simp add: MAC_ROMAN_HIGH_def)

lemma EBCDIC_037_distinct: "distinct EBCDIC_037"
  by (simp add: EBCDIC_037_def)

lemma EBCDIC_037_range: "list_all (\<lambda>c. c < 256) EBCDIC_037"
  by (simp add: EBCDIC_037_def)

lemma WINDOWS_distinct: "distinct (filter (\<lambda>x. x \<noteq> None) WINDOWS_1252_EXTENSION)"
  by (simp add: WINDOWS_1252_EXTENSION_def)

lemma WINDOWS_ge: "list_all (\<lambda>x. case x of None \<Rightarrow> True | Some c \<Rightarrow> 256 \<le> c) WINDOWS_1252_EXTENSION"
  by (simp add: WINDOWS_1252_EXTENSION_def)

lemma nth_filter_distinct:
  assumes "distinct (filter P xs)" "i < length xs" "j < length xs" "xs ! i = xs ! j" "P (xs ! i)"
  shows "i = j"
  using assms
proof (induction xs arbitrary: i j)
  case Nil
  then show ?case by simp
next
  case (Cons x xs)
  have hd_only: "k = 0" if "P x" "(x # xs) ! k = x" "k < length (x # xs)" for k
  proof (cases k)
    case (Suc m)
    with that have "x \<in> set (filter P xs)" by (auto intro: nth_mem)
    with that Cons.prems(1) show ?thesis by simp
  qed simp
  show ?case
  proof (cases i)
    case 0
    with Cons.prems hd_only [of j] show ?thesis by simp
  next
    case (Suc i')
    show ?thesis
    proof (cases j)
      case 0
      with Cons.prems hd_only [of i] show ?thesis by simp
    next
      case (Suc j')
      with \<open>i = Suc i'\<close> Cons.prems have "i' = j'"
        by (intro Cons.IH) (auto split: if_splits)
      with Suc \<open>i = Suc i'\<close> show ?thesis by simp
    qed
  qed
qed

lemma nth_list_all: "list_all P xs \<Longrightarrow> i < length xs \<Longrightarrow> P (xs ! i)"
  by (simp add: list_all_length)

lemma codePointForByte_range: "codePointForByte b e = Some c \<Longrightarrow> 0 \<le> b \<and> b \<le> 255"
  by (simp add: codePointForByte_def split: if_splits)

lemma codePointForByte_inj_ascii:
  "codePointForByte a ASCII = Some c \<Longrightarrow> codePointForByte b ASCII = Some c \<Longrightarrow> a = b"
  by (auto simp: codePointForByte_def split: if_splits)

lemma codePointForByte_inj_ebcdic:
  assumes "codePointForByte a EBCDIC_037_ENC = Some c" "codePointForByte b EBCDIC_037_ENC = Some c"
  shows "a = b"
proof -
  from assms have "EBCDIC_037 ! nat a = EBCDIC_037 ! nat b" "0 \<le> a" "a \<le> 255" "0 \<le> b" "b \<le> 255"
    by (auto simp: codePointForByte_def split: if_splits)
  then have "nat a = nat b"
    using nth_eq_iff_index_eq [OF EBCDIC_037_distinct, of "nat a" "nat b"] tables_length by simp
  with \<open>0 \<le> a\<close> \<open>0 \<le> b\<close> show ?thesis by simp
qed

lemma codePointForByte_inj_windows:
  assumes "codePointForByte a WINDOWS_1252 = Some c" "codePointForByte b WINDOWS_1252 = Some c"
  shows "a = b"
proof -
  have range: "0 \<le> a" "a \<le> 255" "0 \<le> b" "b \<le> 255"
    using assms codePointForByte_range by blast+
  have ext: "256 \<le> d" if "WINDOWS_1252_EXTENSION ! nat (k - 128) = Some d" "128 \<le> k" "k \<le> 159" for k d
    using nth_list_all [OF WINDOWS_ge, of "nat (k - 128)"] that tables_length by simp
  show ?thesis
  proof (cases "128 \<le> a \<and> a \<le> 159 \<and> 128 \<le> b \<and> b \<le> 159")
    case True
    with assms have "WINDOWS_1252_EXTENSION ! nat (a - 128) = Some c"
      "WINDOWS_1252_EXTENSION ! nat (b - 128) = Some c"
      by (auto simp: codePointForByte_def)
    with True have "nat (a - 128) = nat (b - 128)"
      by (intro nth_filter_distinct [OF WINDOWS_distinct]) (auto simp: tables_length)
    with True show ?thesis by (simp add: eq_nat_nat_iff)
  next
    case False
    with assms range ext [of a c] ext [of b c] show ?thesis
      by (auto simp: codePointForByte_def split: if_splits)
  qed
qed

text \<open>CP437 and Mac Roman share their shape: ASCII below 128, a table above.\<close>

lemma high_table_inj:
  assumes "distinct tbl" "list_all (\<lambda>c. 128 \<le> c) tbl" "length tbl = 128"
    and "0 \<le> a" "a \<le> (255::int)" "0 \<le> b" "b \<le> 255"
    and "(if a < 128 then nat a else tbl ! nat (a - 128)) = (if b < 128 then nat b else tbl ! nat (b - 128))"
  shows "a = b"
proof -
  have high: "128 \<le> tbl ! nat (k - 128)" if "128 \<le> k" "k \<le> 255" for k :: int
    using nth_list_all [OF assms(2), of "nat (k - 128)"] that assms(3) by simp
  show ?thesis
  proof (cases "a < 128 \<or> b < 128")
    case True
    with assms high [of a] high [of b] show ?thesis by (auto split: if_splits)
  next
    case False
    with assms have "tbl ! nat (a - 128) = tbl ! nat (b - 128)" by simp
    with False assms have "nat (a - 128) = nat (b - 128)"
      by (subst (asm) nth_eq_iff_index_eq) simp_all
    with False show ?thesis by (simp add: eq_nat_nat_iff)
  qed
qed

lemma codePointForByte_inj:
  assumes "codePointForByte a e = Some c" "codePointForByte b e = Some c"
  shows "a = b"
proof -
  have range: "0 \<le> a" "a \<le> 255" "0 \<le> b" "b \<le> 255"
    using assms codePointForByte_range by blast+
  show ?thesis
  proof (cases e)
    case ASCII
    with assms show ?thesis by (auto intro: codePointForByte_inj_ascii)
  next
    case WINDOWS_1252
    with assms show ?thesis by (auto intro: codePointForByte_inj_windows)
  next
    case EBCDIC_037_ENC
    with assms show ?thesis by (auto intro: codePointForByte_inj_ebcdic)
  next
    case CP437
    with assms range show ?thesis
      by (intro high_table_inj [OF CP437_HIGH_distinct CP437_HIGH_ge tables_length(2)])
        (auto simp: codePointForByte_def split: if_splits)
  next
    case MACROMAN
    with assms range show ?thesis
      by (intro high_table_inj [OF MAC_ROMAN_HIGH_distinct MAC_ROMAN_HIGH_ge tables_length(3)])
        (auto simp: codePointForByte_def split: if_splits)
  qed
qed

section \<open>Encoding is the inverse of decoding\<close>

text \<open>What the encoder needs of a decoder and its reverse map.\<close>

locale single_byte_codec =
  fixes dec :: "nat \<Rightarrow> nat option"
    and rmap :: rev_map
  assumes dec_inj: "dec a = Some c \<Longrightarrow> dec b = Some c \<Longrightarrow> a = b"
    and rmap_sound: "map_of rmap c = Some b \<Longrightarrow> dec b = Some c"
    and rmap_complete: "dec b = Some c \<Longrightarrow> map_of rmap c \<noteq> None"
begin

lemma map_of_rmap: "map_of rmap c = Some b \<longleftrightarrow> dec b = Some c"
proof
  assume "dec b = Some c"
  moreover from rmap_complete [OF this] obtain b' where b': "map_of rmap c = Some b'" by auto
  ultimately have "b = b'" using rmap_sound dec_inj by blast
  with b' show "map_of rmap c = Some b" by simp
qed (rule rmap_sound)

lemma encodeChars_iff: "encodeChars rmap str = Some bs \<longleftrightarrow> map dec bs = map Some str"
proof (induction str arbitrary: bs)
  case Nil
  show ?case by auto
next
  case (Cons c str)
  show ?case
  proof (cases bs)
    case Nil
    then show ?thesis by (simp split: option.split)
  next
    case bs: (Cons b bs')
    have "encodeChars rmap (c # str) = Some bs \<longleftrightarrow>
        map_of rmap c = Some b \<and> encodeChars rmap str = Some bs'"
      by (simp add: bs split: option.split) blast
    then show ?thesis
      using Cons.IH [of bs'] by (simp add: map_of_rmap bs)
  qed
qed

end

lemma reverseMapStep_sound:
  assumes "\<And>c b. map_of m c = Some b \<Longrightarrow> codePointForByte (int b) e = Some c"
    and "map_of (reverseMapStep e x m) c = Some b"
  shows "codePointForByte (int b) e = Some c"
  using assms by (auto simp: reverseMapStep_def map_add_def split: option.splits if_splits)

lemma reverseMap_fold_sound:
  assumes "\<And>c b. map_of m c = Some b \<Longrightarrow> codePointForByte (int b) e = Some c"
    and "map_of (fold (reverseMapStep e) bs m) c = Some b"
  shows "codePointForByte (int b) e = Some c"
  using assms
proof (induction bs arbitrary: m)
  case (Cons x bs)
  show ?case
    by (rule Cons.IH [OF reverseMapStep_sound [OF Cons.prems(1)]]) (use Cons.prems(2) in simp_all)
qed simp

lemma reverseMap_fold_complete:
  "map_of m c \<noteq> None \<or> (\<exists>b \<in> set bs. codePointForByte (int b) e = Some c) \<Longrightarrow>
   map_of (fold (reverseMapStep e) bs m) c \<noteq> None"
proof (induction bs arbitrary: m)
  case (Cons x bs)
  then have "map_of (reverseMapStep e x m) c \<noteq> None \<or>
      (\<exists>b \<in> set bs. codePointForByte (int b) e = Some c)"
    by (auto simp: reverseMapStep_def map_add_def split: option.splits)
  then show ?case using Cons.IH by simp
qed simp

interpretation enc: single_byte_codec "\<lambda>b. codePointForByte (int b) e" "buildReverseMap e" for e
proof
  fix a b c
  assume "codePointForByte (int a) e = Some c" "codePointForByte (int b) e = Some c"
  then have "int a = int b" by (rule codePointForByte_inj)
  then show "a = b" by simp
next
  fix b c
  assume "map_of (buildReverseMap e) c = Some b"
  then show "codePointForByte (int b) e = Some c"
    unfolding buildReverseMap_def by (rule reverseMap_fold_sound [rotated]) simp
next
  fix b c
  assume dec: "codePointForByte (int b) e = Some c"
  then have "b \<in> set [0..<256]" using codePointForByte_range [OF dec] by simp
  with dec show "map_of (buildReverseMap e) c \<noteq> None"
    unfolding buildReverseMap_def by (intro reverseMap_fold_complete) auto
qed

section \<open>The cache\<close>

definition cache_ok :: "rev_cache \<Rightarrow> bool" where
  "cache_ok cache \<longleftrightarrow> (\<forall>e m. cache e = Some m \<longrightarrow> m = buildReverseMap e)"

lemma reverseMapForEncoding_ok:
  assumes "cache_ok cache"
  shows "fst (reverseMapForEncoding e cache) = buildReverseMap e"
    and "cache_ok (snd (reverseMapForEncoding e cache))"
  using assms
  by (auto simp: reverseMapForEncoding_def cache_ok_def Let_def split: option.splits)

lemma encodeTextToBytes_fst:
  "cache_ok cache \<Longrightarrow>
   fst (encodeTextToBytes str e cache) = encodeChars (buildReverseMap e) str"
  by (simp add: encodeTextToBytes_def split_beta reverseMapForEncoding_ok)

lemma decodeTextBytes_iff:
  "decodeTextBytes bs e = Some str \<longleftrightarrow>
     map (\<lambda>b. codePointForByte (int b) e) bs = map Some str \<and>
     (\<forall>b \<in> set bs. isPrintableTextByte (int b) e)"
proof (induction bs arbitrary: str)
  case Nil
  show ?case by auto
next
  case (Cons b bs)
  show ?case
  proof (cases str)
    case Nil
    then show ?thesis
      by (auto simp: decodeTextByte_def split: option.splits)
  next
    case (Cons c cs)
    then show ?thesis
      using Cons.IH [of cs]
      by (auto simp: decodeTextByte_def isPrintableTextByte_def split: option.splits)
  qed
qed

lemma HEX2_nth: "k < 16 \<Longrightarrow> HEX2 ! k = (if k < 10 then 48 + k else 55 + k)"
proof -
  let ?f = "\<lambda>k. if k < 10 then 48 + k else 55 + k"
  have "HEX2 = map ?f [0..<16]" by code_simp
  then have "HEX2 ! k = map ?f [0..<16] ! k" by (rule arg_cong)
  moreover assume "k < 16"
  then have "map ?f [0..<16] ! k = ?f k" by (subst nth_map) simp_all
  ultimately show ?thesis by simp
qed

lemma hexPadded_byte: "n < 256 \<Longrightarrow> hexPadded n = byteToHex2 (of_nat n)"
proof -
  assume n: "n < 256"
  have "unat (of_nat n :: byte) = n" using n by (simp add: unat_of_nat)
  then have hi: "unat (drop_bit 4 (of_nat n :: byte)) = n div 16"
    by (subst unat_drop_bit_eq) (simp add: drop_bit_eq_div)
  have "unat (of_nat n AND 15 :: byte) = unat (take_bit 4 (of_nat n :: byte))"
    by (simp add: take_bit_eq_mask mask_eq_exp_minus_1)
  also have "\<dots> = n mod 16"
    using \<open>unat (of_nat n :: byte) = n\<close> by (simp add: unsigned_take_bit_eq take_bit_eq_mod unat_mod_distrib)
  finally have lo: "unat (of_nat n AND 15 :: byte) = n mod 16" .
  show ?thesis
  proof (cases "n < 16")
    case True
    then have "toString16 n = [if n < 10 then 48 + n else 87 + n]"
      by (subst toString16.simps) simp
    with True show ?thesis
      by (simp add: hexPadded_def byteToHex2_def hi lo HEX2_nth toUpperHex_def)
  next
    case False
    with n have d: "n div 16 < 16" by simp
    have "toString16 (n div 16) = [if n div 16 < 10 then 48 + n div 16 else 87 + n div 16]"
      using d by (subst toString16.simps) simp
    with False have "toString16 n = [if n div 16 < 10 then 48 + n div 16 else 87 + n div 16,
        if n mod 16 < 10 then 48 + n mod 16 else 87 + n mod 16]"
      by (subst toString16.simps) simp
    with d show ?thesis
      unfolding hexPadded_def byteToHex2_def hi lo
      by (simp add: HEX2_nth toUpperHex_def)
  qed
qed

lemma concat_hexPadded:
  "\<forall>b \<in> set bs. b < 256 \<Longrightarrow> concat (map hexPadded bs) = bytesToHex (map of_nat bs)"
  unfolding bytesToHex_def map_map comp_def
  by (rule arg_cong [of _ _ concat], rule map_cong) (auto simp: hexPadded_byte)

lemma isPrintableTextByte_range: "isPrintableTextByte (int b) e \<Longrightarrow> b < 256"
  by (auto simp: isPrintableTextByte_def split: option.splits dest: codePointForByte_range)

section \<open>Properties\<close>



text \<open>Printable text and its hexadecimal form: \<open>printableTextToHex\<close> yields a string exactly
  when some byte sequence decodes, as printable text, to the given text, and the string is
  the two-digit upper-case rendering of these bytes by the editor's hot path
  \<open>bytesToHex\<close>; the two hexadecimal formatters of the file agree.
\<close>

theorem printableTextToHex_decodes:
  assumes "cache_ok cache"
  shows "fst (printableTextToHex str e cache) = Some hex \<longleftrightarrow>
         (\<exists>bs. decodeTextBytes bs e = Some str \<and> hex = bytesToHex (map of_nat bs))"
proof -
  have enc: "fst (encodeTextToBytes str e cache) = Some bs \<longleftrightarrow>
      map (\<lambda>b. codePointForByte (int b) e) bs = map Some str" for bs
    using assms by (simp add: encodeTextToBytes_fst enc.encodeChars_iff)
  have "fst (printableTextToHex str e cache) = Some hex \<longleftrightarrow>
      (\<exists>bs. fst (encodeTextToBytes str e cache) = Some bs \<and>
        (\<forall>b \<in> set bs. isPrintableTextByte (int b) e) \<and> hex = concat (map hexPadded bs))"
    by (auto simp: printableTextToHex_def split_beta split: option.splits)
  also have "\<dots> \<longleftrightarrow>
      (\<exists>bs. decodeTextBytes bs e = Some str \<and> hex = concat (map hexPadded bs))"
    unfolding enc decodeTextBytes_iff by blast
  also have "\<dots> \<longleftrightarrow>
      (\<exists>bs. decodeTextBytes bs e = Some str \<and> hex = bytesToHex (map of_nat bs))"
  proof -
    have "concat (map hexPadded bs) = bytesToHex (map of_nat bs)" if "decodeTextBytes bs e = Some str" for bs
      using that by (intro concat_hexPadded) (auto simp: decodeTextBytes_iff intro: isPrintableTextByte_range)
    then show ?thesis by metis
  qed
  finally show ?thesis .
qed

theorem printableTextToHex_decodes_witness:
  "cache_ok (\<lambda>_. None) \<and>
   fst (printableTextToHex [65] EBCDIC_037_ENC (\<lambda>_. None)) = Some (lit ''C1'')"
proof -
  have ok: "cache_ok (\<lambda>_. None)" by (simp add: cache_ok_def)
  have "decodeTextBytes [193] EBCDIC_037_ENC = Some [65]"
    by (simp add: decodeTextByte_def isPrintableTextByte_def codePointForByte_def EBCDIC_037_def
        isControlCodePoint_def)
  moreover have "lit ''C1'' = bytesToHex (map of_nat [193])"
    by (simp add: lit_def bytesToHex_def byteToHex2_def HEX2_def drop_bit_eq_div)
  ultimately show ?thesis
    using printableTextToHex_decodes [OF ok, of "[65]" EBCDIC_037_ENC "lit ''C1''"] ok by blast
qed

text \<open>Code page EBCDIC 037 is a bijection between the 256 bytes and the code points of
  Latin-1, so every byte has a text form and every Latin-1 text can be encoded.
\<close>

theorem ebcdic_bijection:
  "bij_betw (\<lambda>b. codePointForByte (int b) EBCDIC_037_ENC) {..<256} (Some ` {..<256})"
proof -
  have eq: "(\<lambda>b. codePointForByte (int b) EBCDIC_037_ENC) ` {..<256} = Some ` set EBCDIC_037"
  proof -
    have "set EBCDIC_037 = (!) EBCDIC_037 ` {..<256}"
      by (metis tables_length(4) nth_image take_all_iff le_refl lessThan_atLeast0 set_conv_nth
          image_Collect setcompr_eq_image lessThan_def)
    then show ?thesis by (auto simp: codePointForByte_def image_iff)
  qed
  have "card (set EBCDIC_037) = card {..<256::nat}"
    using distinct_card [OF EBCDIC_037_distinct] tables_length by simp
  moreover have "set EBCDIC_037 \<subseteq> {..<256}"
    using EBCDIC_037_range by (auto simp: list_all_iff)
  ultimately have "set EBCDIC_037 = {..<256}" by (simp add: card_subset_eq)
  moreover have "inj_on (\<lambda>b. codePointForByte (int b) EBCDIC_037_ENC) {..<256}"
  proof (rule inj_onI)
    fix a b :: nat
    assume ab: "a \<in> {..<256}" "b \<in> {..<256}"
      and same: "codePointForByte (int a) EBCDIC_037_ENC = codePointForByte (int b) EBCDIC_037_ENC"
    from ab obtain c where "codePointForByte (int a) EBCDIC_037_ENC = Some c"
      by (simp add: codePointForByte_def)
    moreover from this same have "codePointForByte (int b) EBCDIC_037_ENC = Some c" by simp
    ultimately have "int a = int b" by (rule codePointForByte_inj)
    then show "a = b" by simp
  qed
  ultimately show ?thesis by (simp add: bij_betw_def eq)
qed

end
