(* ===== verification/Edit_Script.thy ===== *)
theory Edit_Script
  imports JS_Prelude
begin

text \<open>
  The pure edit computations of \<^verbatim>\<open>packages/client/src/change.ts\<close>: the single trimmed
  replacement of \<^verbatim>\<open>editOptimizer\<close>, \<^verbatim>\<open>removeCommonSuffix\<close>, and the operation list of
  \<^verbatim>\<open>editOperations\<close>, loop by loop. \<open>run_op\<close> and \<open>run_ops\<close> give operations their
  meaning on the bytes of a session, with the refusals of the native service (an empty
  operation, an offset beyond the end).

  The lemmas show that the operations turn the original segment into the edited one
  wherever it lies in the session, that each of them is accepted, and that the optimised
  replacement is trimmed on both sides.
\<close>

section \<open>editOptimizer\<close>

record OptimizedReplacement =
  or_offset :: int
  remove_bytes_count :: nat
  replacement :: bytes

function firstDifference :: "bytes \<Rightarrow> bytes \<Rightarrow> nat \<Rightarrow> nat" where
  "firstDifference original edited i =
     (if i < length original \<and> i < length edited \<and> original ! i = edited ! i
      then firstDifference original edited (Suc i) else i)"
  by pat_completeness auto
termination
  by (relation "measure (\<lambda>(original, edited, i). length original - i)") auto

function lastDifference :: "bytes \<Rightarrow> bytes \<Rightarrow> nat \<Rightarrow> nat \<Rightarrow> nat" where
  "lastDifference original edited first j =
     (if j < length original - first \<and> j < length edited - first \<and>
         original ! (length original - 1 - j) = edited ! (length edited - 1 - j)
      then lastDifference original edited first (Suc j) else j)"
  by pat_completeness auto
termination
  by (relation "measure (\<lambda>(original, edited, first, j). length original - j)") auto

declare firstDifference.simps [simp del] lastDifference.simps [simp del]

definition editOptimizer ::
    "bytes \<Rightarrow> bytes \<Rightarrow> jsnum \<Rightarrow> safe_int_error + OptimizedReplacement list option" where
  "editOptimizer original edited off =
     bindE (requireSafeIntegerInput ''edit offset'' off) (\<lambda>safeOffset.
       let first = firstDifference original edited 0 in
       if first = length original \<and> first = length edited then Inr None
       else
         let last = lastDifference original edited first 0 in
         bindE (requireSafeIntegerOutput ''edit offset'' (NInt (safeOffset + int first))) (\<lambda>start.
           Inr (Some [\<lparr>or_offset = start,
                       remove_bytes_count = length original - first - last,
                       replacement = slice first (length edited - last) edited\<rparr>])))"

section \<open>editOperations\<close>

text \<open>The indices \<^verbatim>\<open>i\<close> and \<^verbatim>\<open>j\<close> of \<^verbatim>\<open>removeCommonSuffix\<close> start at the last element and may
  reach \<open>-1\<close>.\<close>

function commonSuffixLoop :: "bytes \<Rightarrow> bytes \<Rightarrow> int \<Rightarrow> int \<Rightarrow> int \<times> int" where
  "commonSuffixLoop arr1 arr2 i j =
     (if i \<ge> 0 \<and> j \<ge> 0 \<and> arr1 ! nat i = arr2 ! nat j
      then commonSuffixLoop arr1 arr2 (i - 1) (j - 1) else (i, j))"
  by pat_completeness auto
termination
  by (relation "measure (\<lambda>(arr1, arr2, i, j). nat (i + 1))") auto

declare commonSuffixLoop.simps [simp del]

definition removeCommonSuffix :: "bytes \<Rightarrow> bytes \<Rightarrow> bytes \<times> bytes" where
  "removeCommonSuffix arr1 arr2 =
     (let (i, j) = commonSuffixLoop arr1 arr2 (int (length arr1) - 1) (int (length arr2) - 1)
      in (take (nat (i + 1)) arr1, take (nat (j + 1)) arr2))"

definition concatUint8Arrays :: "bytes \<Rightarrow> bytes \<Rightarrow> bytes" where
  "concatUint8Arrays arr1 arr2 = arr1 @ arr2"

datatype EditOperation =
    DeleteOp (op_start: int) (op_length: nat)
  | InsertOp (op_start: int) (op_data: bytes)
  | OverwriteOp (op_start: int) (op_data: bytes)

text \<open>\<^verbatim>\<open>flushOverwriteRun(endExclusive)\<close>: the run, when there is one, becomes an operation.\<close>

definition flushOverwriteRun ::
    "bytes \<Rightarrow> int \<Rightarrow> nat option \<Rightarrow> nat \<Rightarrow> EditOperation list \<Rightarrow> safe_int_error + EditOperation list" where
  "flushOverwriteRun edited off run endExclusive operations =
     (case run of
        None \<Rightarrow> Inr operations
      | Some r \<Rightarrow>
          bindE (requireSafeIntegerOutput ''edit offset'' (NInt (off + int r))) (\<lambda>start.
            Inr (operations @ [OverwriteOp start (slice r endExclusive edited)])))"

function editLoop ::
    "bytes \<Rightarrow> bytes \<Rightarrow> int \<Rightarrow> nat \<Rightarrow> nat option \<Rightarrow> EditOperation list \<Rightarrow>
     safe_int_error + (nat option \<times> EditOperation list)" where
  "editLoop original edited off i run operations =
     (if i < max (length original) (length edited) then
        if i < length original \<and> i < length edited then
          if original ! i \<noteq> edited ! i then
            editLoop original edited off (Suc i)
              (Some (case run of None \<Rightarrow> i | Some r \<Rightarrow> r)) operations
          else
            bindE (flushOverwriteRun edited off run i operations) (\<lambda>operations'.
              editLoop original edited off (Suc i) None operations')
        else if i < length original then
          bindE (flushOverwriteRun edited off run i operations) (\<lambda>operations'.
            bindE (requireSafeIntegerOutput ''edit offset'' (NInt (off + int i))) (\<lambda>start.
              Inr (None, operations' @ [DeleteOp start (length original - i)])))
        else
          bindE (flushOverwriteRun edited off run i operations) (\<lambda>operations'.
            bindE (requireSafeIntegerOutput ''edit offset'' (NInt (off + int i))) (\<lambda>start.
              Inr (None, operations' @ [InsertOp start (drop i edited)])))
      else Inr (run, operations))"
  by pat_completeness auto
termination
  by (relation "measure (\<lambda>(original, edited, off, i, run, operations).
        max (length original) (length edited) - i)") auto

declare editLoop.simps [simp del]

definition editOperations :: "bytes \<Rightarrow> bytes \<Rightarrow> jsnum \<Rightarrow> safe_int_error + EditOperation list" where
  "editOperations original edited off =
     bindE (requireSafeIntegerInput ''edit offset'' off) (\<lambda>safeOffset.
       if original = [] then
         if edited = [] then Inr []
         else bindE (requireSafeIntegerOutput ''edit offset'' (NInt safeOffset)) (\<lambda>start.
                Inr [InsertOp start edited])
       else if edited = [] then
         bindE (requireSafeIntegerOutput ''edit offset'' (NInt safeOffset)) (\<lambda>start.
           Inr [DeleteOp start (length original)])
       else
         let (original', edited') = removeCommonSuffix original edited in
         bindE (editLoop original' edited' safeOffset 0 None []) (\<lambda>(run, operations).
           flushOverwriteRun edited' safeOffset run
             (max (length original') (length edited')) operations))"

section \<open>Meaning of operations on the session's bytes\<close>

definition run_op :: "EditOperation \<Rightarrow> bytes \<Rightarrow> bytes option" where
  "run_op opr c =
     (case opr of
        DeleteOp st n \<Rightarrow>
          if 0 \<le> st \<and> 0 < n \<and> st + int n \<le> int (length c)
          then Some (take (nat st) c @ drop (nat st + n) c) else None
      | InsertOp st d \<Rightarrow>
          if 0 \<le> st \<and> d \<noteq> [] \<and> st \<le> int (length c)
          then Some (take (nat st) c @ d @ drop (nat st) c) else None
      | OverwriteOp st d \<Rightarrow>
          if 0 \<le> st \<and> d \<noteq> [] \<and> st + int (length d) \<le> int (length c)
          then Some (take (nat st) c @ d @ drop (nat st + length d) c) else None)"

fun run_ops :: "EditOperation list \<Rightarrow> bytes \<Rightarrow> bytes option" where
  "run_ops [] c = Some c"
| "run_ops (x # xs) c = (case run_op x c of None \<Rightarrow> None | Some c' \<Rightarrow> run_ops xs c')"

lemma run_ops_append:
  "run_ops (xs @ ys) c = (case run_ops xs c of None \<Rightarrow> None | Some c' \<Rightarrow> run_ops ys c')"
  by (induction xs arbitrary: c) (auto split: option.splits)

section \<open>The common suffix\<close>

lemma drop_nat_Cons:
  assumes "k < int (length xs)" "0 \<le> k"
  shows "drop (nat k) xs = xs ! nat k # drop (nat (k + 1)) xs"
proof -
  have "nat k < length xs" "nat (k + 1) = Suc (nat k)" using assms by linarith+
  then show ?thesis by (simp add: Cons_nth_drop_Suc)
qed

lemma commonSuffixLoop_spec:
  assumes "commonSuffixLoop a b i j = (i', j')" "- 1 \<le> i" "- 1 \<le> j"
    "i < int (length a)" "j < int (length b)"
    "drop (nat (i + 1)) a = drop (nat (j + 1)) b"
  shows "- 1 \<le> i' \<and> i' \<le> i \<and> - 1 \<le> j' \<and> j' \<le> j \<and>
    drop (nat (i' + 1)) a = drop (nat (j' + 1)) b \<and>
    (i' < 0 \<or> j' < 0 \<or> a ! nat i' \<noteq> b ! nat j')"
  using assms
proof (induction a b i j arbitrary: i' j' rule: commonSuffixLoop.induct)
  case (1 a b i j)
  show ?case
  proof (cases "i \<ge> 0 \<and> j \<ge> 0 \<and> a ! nat i = b ! nat j")
    case True
    then have ai: "drop (nat i) a = a ! nat i # drop (nat (i + 1)) a"
      by (intro drop_nat_Cons "1.prems"(4)) simp
    from True have bj: "drop (nat j) b = b ! nat j # drop (nat (j + 1)) b"
      by (intro drop_nat_Cons "1.prems"(5)) simp
    have "commonSuffixLoop a b (i - 1) (j - 1) = (i', j')"
      using "1.prems"(1) True by (simp add: commonSuffixLoop.simps [of a b i j])
    from "1.IH" [OF True this] True "1.prems" ai bj show ?thesis by auto
  next
    case False
    with "1.prems" show ?thesis
      by (auto simp: commonSuffixLoop.simps [of a b i j] split: if_splits)
  qed
qed

text \<open>The two results are what is left of the arguments before one common suffix, and
  nothing more can be removed.\<close>

lemma removeCommonSuffix_spec:
  assumes "removeCommonSuffix a b = (a', b')"
  shows "\<exists>sfx. a = a' @ sfx \<and> b = b' @ sfx"
    and "a' = [] \<or> b' = [] \<or> last a' \<noteq> last b'"
proof -
  obtain i j where ij: "commonSuffixLoop a b (int (length a) - 1) (int (length b) - 1) = (i, j)"
    by fastforce
  with assms have ab: "a' = take (nat (i + 1)) a" "b' = take (nat (j + 1)) b"
    by (simp_all add: removeCommonSuffix_def)
  have spec: "- 1 \<le> i" "i \<le> int (length a) - 1" "- 1 \<le> j" "j \<le> int (length b) - 1"
    "drop (nat (i + 1)) a = drop (nat (j + 1)) b" "i < 0 \<or> j < 0 \<or> a ! nat i \<noteq> b ! nat j"
    using commonSuffixLoop_spec [OF ij] by auto
  show "\<exists>sfx. a = a' @ sfx \<and> b = b' @ sfx"
    using spec(5) ab by (metis append_take_drop_id)
  have last: "last (take (nat (k + 1)) xs) = xs ! nat k"
    if "0 \<le> k" "k \<le> int (length xs) - 1" for k and xs :: bytes
  proof -
    have "nat (k + 1) = Suc (nat k)" using that by simp
    moreover have "nat k < length xs" using that by linarith
    ultimately show ?thesis by (simp add: take_Suc_conv_app_nth)
  qed
  show "a' = [] \<or> b' = [] \<or> last a' \<noteq> last b'"
    using spec last [of i a] last [of j b] by (auto simp: ab)
qed

section \<open>The operation loop\<close>

text \<open>
  Loop invariant: the operations so far have turned the segment into the edited prefix up
  to the run's start (or up to \<open>i\<close> when there is no run) followed by what is left of the
  original.
\<close>

definition loop_at :: "bytes \<Rightarrow> bytes \<Rightarrow> bytes \<Rightarrow> bytes \<Rightarrow> nat \<Rightarrow> bytes" where
  "loop_at pre post original edited k = pre @ take k edited @ drop k original @ post"

lemma loop_at_step:
  "k < length original \<Longrightarrow> k < length edited \<Longrightarrow> original ! k = edited ! k \<Longrightarrow>
   loop_at pre post original edited (Suc k) = loop_at pre post original edited k"
  by (simp add: loop_at_def take_Suc_conv_app_nth Cons_nth_drop_Suc [symmetric])

lemma overwrite_run:
  assumes "r < e" "e \<le> length original" "e \<le> length edited"
  shows "run_op (OverwriteOp (int (length pre) + int r) (slice r e edited))
      (loop_at pre post original edited r) = Some (loop_at pre post original edited e)"
proof -
  let ?c = "loop_at pre post original edited r"
  have len: "length (slice r e edited) = e - r" using assms by simp
  have n: "nat (int (length pre) + int r) = length pre + r" by simp
  have t: "take (length pre + r) ?c = pre @ take r edited"
    using assms by (simp add: loop_at_def)
  have d: "drop (length pre + r + (e - r)) ?c = drop e original @ post"
    using assms by (simp add: loop_at_def)
  have tk: "take r edited @ slice r e edited @ ys = take e edited @ ys" for ys
    using take_add [of r "e - r" edited] assms(1) by (simp add: slice_def drop_take)
  have "length ?c \<ge> length pre + e" using assms by (simp add: loop_at_def)
  then have "int (length pre) + int r + int (e - r) \<le> int (length ?c)" using assms by linarith
  moreover have "slice r e edited \<noteq> []" 
  proof
    assume "slice r e edited = []"
    with len assms(1) show False by simp
  qed
  ultimately show ?thesis
    unfolding run_op_def EditOperation.case n len t d
    by (simp add: len tk loop_at_def [of _ _ _ _ e])
qed

lemma flush_run:
  assumes "flushOverwriteRun edited (int (length pre)) run e ops = Inr ops'"
    and "run_ops ops c = Some (loop_at pre post original edited (case run of None \<Rightarrow> e | Some r \<Rightarrow> r))"
    and "\<And>r. run = Some r \<Longrightarrow> r < e" "e \<le> length original" "e \<le> length edited"
  shows "run_ops ops' c = Some (loop_at pre post original edited e)"
proof (cases run)
  case None
  with assms show ?thesis by (simp add: flushOverwriteRun_def)
next
  case (Some r)
  with assms(1) have "ops' = ops @ [OverwriteOp (int (length pre) + int r) (slice r e edited)]"
    by (auto simp: flushOverwriteRun_def result_simps)
  with Some assms show ?thesis by (simp add: run_ops_append overwrite_run)
qed

definition loop_inv :: "bytes \<Rightarrow> bytes \<Rightarrow> nat \<Rightarrow> nat option \<Rightarrow> bool" where
  "loop_inv original edited i run \<longleftrightarrow>
     i \<le> length original \<and> i \<le> length edited \<and> (\<forall>r. run = Some r \<longrightarrow> r < i)"

text \<open>The five exits of the loop body.\<close>

lemma editLoop_end:
  "max (length original) (length edited) \<le> i \<Longrightarrow>
   editLoop original edited off i run ops = Inr (run, ops)"
  by (auto simp: editLoop.simps [of original edited off i run ops] less_max_iff_disj)

lemma editLoop_differ:
  "i < length original \<Longrightarrow> i < length edited \<Longrightarrow> original ! i \<noteq> edited ! i \<Longrightarrow>
   editLoop original edited off i run ops =
     editLoop original edited off (Suc i) (Some (case run of None \<Rightarrow> i | Some r \<Rightarrow> r)) ops"
  by (auto simp: editLoop.simps [of original edited off i run ops] less_max_iff_disj)

lemma editLoop_same:
  "i < length original \<Longrightarrow> i < length edited \<Longrightarrow> original ! i = edited ! i \<Longrightarrow>
   editLoop original edited off i run ops =
     bindE (flushOverwriteRun edited off run i ops) (\<lambda>ops'. editLoop original edited off (Suc i) None ops')"
  by (auto simp: editLoop.simps [of original edited off i run ops] less_max_iff_disj)

lemma editLoop_delete:
  "i < length original \<Longrightarrow> length edited \<le> i \<Longrightarrow>
   editLoop original edited off i run ops =
     bindE (flushOverwriteRun edited off run i ops) (\<lambda>ops'.
       bindE (requireSafeIntegerOutput ''edit offset'' (NInt (off + int i))) (\<lambda>start.
         Inr (None, ops' @ [DeleteOp start (length original - i)])))"
  by (auto simp: editLoop.simps [of original edited off i run ops] less_max_iff_disj)

lemma editLoop_insert:
  "length original \<le> i \<Longrightarrow> i < length edited \<Longrightarrow>
   editLoop original edited off i run ops =
     bindE (flushOverwriteRun edited off run i ops) (\<lambda>ops'.
       bindE (requireSafeIntegerOutput ''edit offset'' (NInt (off + int i))) (\<lambda>start.
         Inr (None, ops' @ [InsertOp start (drop i edited)])))"
  by (auto simp: editLoop.simps [of original edited off i run ops] less_max_iff_disj)

lemma run_delete_tail:
  "length edited = i \<Longrightarrow> i < length original \<Longrightarrow>
   run_op (DeleteOp (int (length pre) + int i) (length original - i))
     (loop_at pre post original edited i) = Some (pre @ edited @ post)"
  by (simp add: run_op_def loop_at_def nat_add_distrib)

lemma run_insert_tail:
  "length original = i \<Longrightarrow> i < length edited \<Longrightarrow>
   run_op (InsertOp (int (length pre) + int i) (drop i edited))
     (loop_at pre post original edited i) = Some (pre @ edited @ post)"
  by (simp add: run_op_def loop_at_def nat_add_distrib)

text \<open>Induction along the loop, one case per exit of its body.\<close>

lemma editLoop_induct [consumes 1, case_names stop differ same del ins]:
  assumes "loop_inv original edited i run"
    and stop: "\<And>i run ops. loop_inv original edited i run \<Longrightarrow>
      length original = i \<Longrightarrow> length edited = i \<Longrightarrow> P i run ops"
    and differ: "\<And>i run ops. loop_inv original edited i run \<Longrightarrow>
      i < length original \<Longrightarrow> i < length edited \<Longrightarrow> original ! i \<noteq> edited ! i \<Longrightarrow>
      P (Suc i) (Some (case run of None \<Rightarrow> i | Some r \<Rightarrow> r)) ops \<Longrightarrow> P i run ops"
    and same: "\<And>i run ops. loop_inv original edited i run \<Longrightarrow>
      i < length original \<Longrightarrow> i < length edited \<Longrightarrow> original ! i = edited ! i \<Longrightarrow>
      (\<And>ops'. P (Suc i) None ops') \<Longrightarrow> P i run ops"
    and del: "\<And>i run ops. loop_inv original edited i run \<Longrightarrow>
      i < length original \<Longrightarrow> length edited = i \<Longrightarrow> P i run ops"
    and ins: "\<And>i run ops. loop_inv original edited i run \<Longrightarrow>
      length original = i \<Longrightarrow> i < length edited \<Longrightarrow> P i run ops"
  shows "P i run ops"
  using assms(1)
proof (induction "length original - i" arbitrary: i run ops rule: less_induct)
  case less
  have bounds: "i \<le> length original" "i \<le> length edited" and run_lt: "\<And>r. run = Some r \<Longrightarrow> r < i"
    using less.prems by (auto simp: loop_inv_def)
  consider "length original = i" "length edited = i"
    | "i < length original" "i < length edited" "original ! i \<noteq> edited ! i"
    | "i < length original" "i < length edited" "original ! i = edited ! i"
    | "i < length original" "length edited = i"
    | "length original = i" "i < length edited"
    using bounds by linarith
  then show ?case
  proof cases
    case 1 with less.prems show ?thesis by (rule stop)
  next
    case 2
    have "loop_inv original edited (Suc i) (Some (case run of None \<Rightarrow> i | Some r \<Rightarrow> r))"
      using 2 run_lt by (auto simp: loop_inv_def less_SucI split: option.splits)
    with 2 show ?thesis by (intro differ [OF less.prems 2] less.hyps) simp_all
  next
    case 3
    then show ?thesis
      by (intro same [OF less.prems 3] less.hyps) (simp_all add: loop_inv_def)
  next
    case 4 with less.prems show ?thesis by (rule del)
  next
    case 5 with less.prems show ?thesis by (rule ins)
  qed
qed

lemmas editLoop_unfolds = editLoop_end editLoop_differ editLoop_same editLoop_delete editLoop_insert

lemma loop_invD:
  assumes "loop_inv original edited i run"
  shows "\<And>r. run = Some r \<Longrightarrow> r < i" "i \<le> length original" "i \<le> length edited"
  using assms by (auto simp: loop_inv_def)

lemma flush_None [simp]: "flushOverwriteRun edited off None e ops = Inr ops"
  by (simp add: flushOverwriteRun_def)

lemma editLoop_run:
  assumes "loop_inv original edited i run"
    and "editLoop original edited (int (length pre)) i run ops = Inr (run', ops')"
    and "run_ops ops c = Some (loop_at pre post original edited (case run of None \<Rightarrow> i | Some r \<Rightarrow> r))"
    and "flushOverwriteRun edited (int (length pre)) run'
           (max (length original) (length edited)) ops' = Inr ops''"
  shows "run_ops ops'' c = Some (pre @ edited @ post)"
  using assms
proof (induction i run ops rule: editLoop_induct)
  case (stop i run ops)
  then have "flushOverwriteRun edited (int (length pre)) run i ops = Inr ops''"
    by (simp add: editLoop_end)
  from flush_run [OF this stop(5) loop_invD [OF stop(1)]] stop show ?case
    by (simp add: loop_at_def)
next
  case (differ i run ops)
  then show ?case by (simp add: editLoop_differ split: option.splits)
next
  case (same i run ops)
  then obtain ops1
    where ops1: "flushOverwriteRun edited (int (length pre)) run i ops = Inr ops1"
      and rest: "editLoop original edited (int (length pre)) (Suc i) None ops1 = Inr (run', ops')"
    by (auto simp: editLoop_same result_simps)
  from flush_run [OF ops1 same(7) loop_invD [OF same(1)]] same rest show ?case
    by (simp add: loop_at_step)
next
  case (del i run ops)
  then obtain ops1
    where "flushOverwriteRun edited (int (length pre)) run i ops = Inr ops1"
      and "ops'' = ops1 @ [DeleteOp (int (length pre) + int i) (length original - i)]"
    by (auto simp: editLoop_delete result_simps requireSafeIntegerOutput_Inr)
  with flush_run [OF _ del(5) loop_invD [OF del(1)]] del show ?case
    by (simp add: run_ops_append run_delete_tail)
next
  case (ins i run ops)
  then obtain ops1
    where "flushOverwriteRun edited (int (length pre)) run i ops = Inr ops1"
      and "ops'' = ops1 @ [InsertOp (int (length pre) + int i) (drop i edited)]"
    by (auto simp: editLoop_insert result_simps requireSafeIntegerOutput_Inr)
  with flush_run [OF _ ins(5) loop_invD [OF ins(1)]] ins show ?case
    by (simp add: run_ops_append run_insert_tail)
qed

text \<open>At most one operation per byte of the longer segment, and the inserted bytes are
  bytes of the edited segment.\<close>

definition pending :: "nat option \<Rightarrow> nat" where
  "pending run = (if run = None then 0 else 1)"

fun grow :: "EditOperation list \<Rightarrow> nat" where
  "grow [] = 0"
| "grow (InsertOp st d # xs) = length d + grow xs"
| "grow (_ # xs) = grow xs"

lemma grow_append [simp]: "grow (xs @ ys) = grow xs + grow ys"
  by (induction xs rule: grow.induct) simp_all

lemma flush_bounds:
  "flushOverwriteRun edited off run e ops = Inr ops' \<Longrightarrow>
   length ops' = length ops + pending run \<and> grow ops' = grow ops"
  by (auto simp: flushOverwriteRun_def pending_def result_simps split: option.splits)

lemma editLoop_bounds:
  assumes "loop_inv original edited i run"
    and "editLoop original edited off i run ops = Inr (run', ops')"
    and "length ops + pending run \<le> i"
  shows "length ops' + pending run' \<le> max (length original) (length edited) \<and>
         grow ops' \<le> grow ops + length edited"
  using assms
proof (induction i run ops rule: editLoop_induct)
  case (differ i run ops)
  then show ?case by (auto simp: editLoop_differ pending_def split: if_splits)
next
  case (same i run ops)
  then obtain ops1
    where ops1: "flushOverwriteRun edited off run i ops = Inr ops1"
      and rest: "editLoop original edited off (Suc i) None ops1 = Inr (run', ops')"
    by (auto simp: editLoop_same result_simps)
  from same(5) [OF rest] flush_bounds [OF ops1] same(7) show ?case
    by (simp add: pending_def [of None])
qed (auto simp: editLoop_unfolds result_simps pending_def [of None] dest!: flush_bounds)

lemma editOperations_bounds:
  assumes "editOperations original edited off = Inr ops"
  shows "length ops \<le> max (length original) (length edited) \<and> grow ops \<le> length edited"
proof (cases "original = [] \<or> edited = []")
  case True
  with assms show ?thesis
    by (auto simp: editOperations_def result_simps Suc_le_eq split: if_splits)
next
  case False
  obtain o' e' where rcs: "removeCommonSuffix original edited = (o', e')" by fastforce
  from removeCommonSuffix_spec(1) [OF this] obtain sfx
    where sfx: "original = o' @ sfx" "edited = e' @ sfx" by blast
  from assms False rcs obtain k run ops1
    where loop: "editLoop o' e' k 0 None [] = Inr (run, ops1)"
      and fl: "flushOverwriteRun e' k run (max (length o') (length e')) ops1 = Inr ops"
    by (auto simp: editOperations_def result_simps split: if_splits)
  from editLoop_bounds [OF _ loop] flush_bounds [OF fl] sfx show ?thesis
    by (auto simp: loop_inv_def pending_def [of None])
qed

text \<open>Whatever \<^verbatim>\<open>editOperations\<close> returns turns the original segment into the edited one.\<close>

lemma editOperations_run:
  assumes "editOperations original edited (NInt (int (length pre))) = Inr ops"
  shows "run_ops ops (pre @ original @ post) = Some (pre @ edited @ post)"
proof (cases "original = [] \<or> edited = []")
  case True
  with assms show ?thesis
    by (auto simp: editOperations_def result_simps requireSafeIntegerInput_def
        requireSafeIntegerOutput_Inr run_op_def split: if_splits)
next
  case False
  obtain o' e' where rcs: "removeCommonSuffix original edited = (o', e')" by fastforce
  from removeCommonSuffix_spec(1) [OF this] obtain sfx
    where sfx: "original = o' @ sfx" "edited = e' @ sfx" by blast
  from assms False rcs obtain run ops1
    where loop: "editLoop o' e' (int (length pre)) 0 None [] = Inr (run, ops1)"
      and fl: "flushOverwriteRun e' (int (length pre)) run (max (length o') (length e')) ops1 = Inr ops"
    by (auto simp: editOperations_def result_simps requireSafeIntegerInput_def split: if_splits)
  have "run_ops [] (pre @ o' @ sfx @ post) =
      Some (loop_at pre (sfx @ post) o' e' (case None of None \<Rightarrow> 0 | Some r \<Rightarrow> r))"
    by (simp add: loop_at_def)
  from editLoop_run [OF _ loop this fl] sfx show ?thesis by (simp add: loop_inv_def)
qed

text \<open>It returns whenever the segment's end is a safe integer.\<close>

lemma isSafeInt_mono: "isSafeInt b \<Longrightarrow> 0 \<le> a \<Longrightarrow> a \<le> b \<Longrightarrow> isSafeInt a"
  by (simp add: isSafeInt_def)

lemma flushOverwriteRun_returns:
  assumes "isSafeInt (off + int e)" "0 \<le> off" "\<And>r. run = Some r \<Longrightarrow> r < e"
  shows "\<exists>ops'. flushOverwriteRun edited off run e ops = Inr ops'"
  using assms(3) isSafeInt_mono [OF assms(1)] assms(2)
  by (cases run) (auto simp: flushOverwriteRun_def result_simps requireSafeIntegerOutput_Inr)

lemma flush_ok:
  assumes "isSafeInt (off + int (max (length original) (length edited)))" "0 \<le> off"
    and "loop_inv original edited i run"
  shows "\<exists>ops'. flushOverwriteRun edited off run i ops = Inr ops'"
    and "requireSafeIntegerOutput ''edit offset'' (NInt (off + int i)) = Inr (off + int i)"
proof -
  have safe: "isSafeInt (off + int i)"
    by (rule isSafeInt_mono [OF assms(1)]) (use assms(2) loop_invD [OF assms(3)] in auto)
  show "\<exists>ops'. flushOverwriteRun edited off run i ops = Inr ops'"
    by (rule flushOverwriteRun_returns [OF safe assms(2) loop_invD(1) [OF assms(3)]])
  show "requireSafeIntegerOutput ''edit offset'' (NInt (off + int i)) = Inr (off + int i)"
    using safe by (simp add: requireSafeIntegerOutput_def)
qed

lemma editLoop_returns:
  assumes "isSafeInt (off + int (max (length original) (length edited)))" "0 \<le> off"
    and "loop_inv original edited i run"
  shows "\<exists>run' ops'. editLoop original edited off i run ops = Inr (run', ops') \<and>
     (\<forall>r. run' = Some r \<longrightarrow> r < max (length original) (length edited))"
  using assms(3)
proof (induction i run ops rule: editLoop_induct)
  case (same i run ops)
  obtain ops1 where "flushOverwriteRun edited off run i ops = Inr ops1"
    using flush_ok(1) [OF assms(1,2) same(1)] by blast
  with same show ?case by (simp add: editLoop_same)
next
  case (del i run ops)
  obtain ops1 where "flushOverwriteRun edited off run i ops = Inr ops1"
    using flush_ok(1) [OF assms(1,2) del(1)] by blast
  with del show ?case by (simp add: editLoop_delete flush_ok(2) [OF assms(1,2) del(1)])
next
  case (ins i run ops)
  obtain ops1 where "flushOverwriteRun edited off run i ops = Inr ops1"
    using flush_ok(1) [OF assms(1,2) ins(1)] by blast
  with ins show ?case by (simp add: editLoop_insert flush_ok(2) [OF assms(1,2) ins(1)])
qed (auto simp: editLoop_unfolds loop_inv_def)

lemma editOperations_returns:
  assumes "isSafeInt (off + int (max (length original) (length edited)))" "0 \<le> off"
  shows "\<exists>ops. editOperations original edited (NInt off) = Inr ops"
proof (cases "original = [] \<or> edited = []")
  case True
  with isSafeInt_mono [OF assms(1), of off] assms(2) show ?thesis
    by (auto simp: editOperations_def requireSafeIntegerInput_def requireSafeIntegerOutput_def)
next
  case False
  obtain o' e' where rcs: "removeCommonSuffix original edited = (o', e')" by fastforce
  from removeCommonSuffix_spec(1) [OF this] obtain sfx
    where sfx: "original = o' @ sfx" "edited = e' @ sfx" by blast
  have safe: "isSafeInt (off + int (max (length o') (length e')))" "isSafeInt off"
    by (rule isSafeInt_mono [OF assms(1)]; use assms(2) sfx in auto)+
  obtain run ops1 where loop: "editLoop o' e' off 0 None [] = Inr (run, ops1)"
    and run: "\<And>r. run = Some r \<Longrightarrow> r < max (length o') (length e')"
    using editLoop_returns [OF safe(1) assms(2), of 0 None "[]"] by (auto simp: loop_inv_def)
  from flushOverwriteRun_returns [OF safe(1) assms(2) run] loop rcs False safe(2) show ?thesis
    by (auto simp: editOperations_def requireSafeIntegerInput_def)
qed

text \<open>There is nothing to do exactly when the segments are equal.\<close>

lemma editOperations_Nil_iff:
  assumes "editOperations original edited (NInt off) = Inr ops" "0 \<le> off"
  shows "ops = [] \<longleftrightarrow> original = edited"
proof
  assume eq: "original = edited"
  obtain o' e' where rcs: "removeCommonSuffix original edited = (o', e')" by fastforce
  from removeCommonSuffix_spec [OF rcs] eq have "o' = []" "e' = []" by auto
  with assms(1) eq rcs show "ops = []"
    by (auto simp: editOperations_def result_simps editLoop_end split: if_splits)
next
  assume Nil: "ops = []"
  have "off = int (length (replicate (nat off) (0 :: byte)))" using assms(2) by simp
  with assms(1) editOperations_run [of original edited "replicate (nat off) 0" ops "[]"] Nil
  show "original = edited" by simp
qed

section \<open>The optimised replacement\<close>

lemma firstDifference_spec:
  assumes "i \<le> length a" "i \<le> length b" "take i a = take i b"
  shows "firstDifference a b i \<le> length a \<and> firstDifference a b i \<le> length b \<and>
    take (firstDifference a b i) a = take (firstDifference a b i) b \<and>
    (firstDifference a b i = length a \<or> firstDifference a b i = length b \<or>
     a ! firstDifference a b i \<noteq> b ! firstDifference a b i)"
  using assms
proof (induction a b i rule: firstDifference.induct)
  case (1 a b i)
  show ?case
  proof (cases "i < length a \<and> i < length b \<and> a ! i = b ! i")
    case True
    then have "take (Suc i) a = take (Suc i) b"
      using "1.prems" by (simp add: take_Suc_conv_app_nth)
    with "1.IH" [OF True] True show ?thesis by (simp add: firstDifference.simps [of a b i])
  next
    case False
    with "1.prems" show ?thesis by (auto simp: firstDifference.simps [of a b i])
  qed
qed

lemma lastDifference_spec:
  assumes "j \<le> length a - f" "j \<le> length b - f" "drop (length a - j) a = drop (length b - j) b"
  shows "lastDifference a b f j \<le> length a - f \<and> lastDifference a b f j \<le> length b - f \<and>
    drop (length a - lastDifference a b f j) a = drop (length b - lastDifference a b f j) b \<and>
    (lastDifference a b f j = length a - f \<or> lastDifference a b f j = length b - f \<or>
     a ! (length a - 1 - lastDifference a b f j) \<noteq> b ! (length b - 1 - lastDifference a b f j))"
  using assms
proof (induction a b f j rule: lastDifference.induct)
  case (1 a b f j)
  show ?case
  proof (cases "j < length a - f \<and> j < length b - f \<and>
      a ! (length a - 1 - j) = b ! (length b - 1 - j)")
    case True
    have step: "drop (length xs - Suc j) xs = xs ! (length xs - 1 - j) # drop (length xs - j) xs"
      if "j < length xs - f" for xs :: bytes
      using that Cons_nth_drop_Suc [of "length xs - Suc j" xs, symmetric] by (simp add: Suc_diff_Suc)
    from True "1.prems" step [of a] step [of b]
    have "drop (length a - Suc j) a = drop (length b - Suc j) b" by simp
    with "1.IH" [OF True] True show ?thesis by (simp add: lastDifference.simps [of a b f j])
  next
    case False
    with "1.prems" show ?thesis by (auto simp: lastDifference.simps [of a b f j])
  qed
qed

text \<open>The replacement is the difference between the segments: what it removes and what it
  puts in agree on neither the first nor the last byte.\<close>

definition trimmed :: "bytes \<Rightarrow> bytes \<Rightarrow> bool" where
  "trimmed a b \<longleftrightarrow> a \<noteq> b \<and>
     (a \<noteq> [] \<longrightarrow> b \<noteq> [] \<longrightarrow> hd a \<noteq> hd b \<and> last a \<noteq> last b)"

lemma split_at_both:
  assumes "f + l \<le> length xs"
  shows "xs = take f xs @ slice f (length xs - l) xs @ drop (length xs - l) xs"
proof -
  have "slice f (length xs - l) xs @ drop (length xs - l) xs = drop f xs"
    using assms append_take_drop_id [of "length xs - l - f" "drop f xs"]
    by (simp add: slice_def add.commute)
  then show ?thesis by simp
qed

lemma slice_hd_last:
  assumes "f < e" "e \<le> length xs"
  shows "hd (slice f e xs) = xs ! f" "last (slice f e xs) = xs ! (e - 1)"
proof -
  have "slice f e xs \<noteq> []" using assms by (auto simp: slice_def)
  then show "hd (slice f e xs) = xs ! f" "last (slice f e xs) = xs ! (e - 1)"
    using assms by (simp_all add: slice_def hd_conv_nth last_conv_nth)
qed

lemma editOptimizer_Some:
  assumes "editOptimizer original edited (NInt off) = Inr (Some rs)"
  obtains pre mid new post where
    "original = pre @ mid @ post" "edited = pre @ new @ post" "trimmed mid new"
    "rs = [\<lparr>or_offset = off + int (length pre), remove_bytes_count = length mid, replacement = new\<rparr>]"
proof -
  let ?f = "firstDifference original edited 0"
  let ?l = "lastDifference original edited ?f 0"
  have f: "?f \<le> length original" "?f \<le> length edited" "take ?f original = take ?f edited"
    "?f = length original \<or> ?f = length edited \<or> original ! ?f \<noteq> edited ! ?f"
    using firstDifference_spec [of 0 original edited] by auto
  have l: "?l \<le> length original - ?f" "?l \<le> length edited - ?f"
    "drop (length original - ?l) original = drop (length edited - ?l) edited"
    "?l = length original - ?f \<or> ?l = length edited - ?f \<or>
     original ! (length original - 1 - ?l) \<noteq> edited ! (length edited - 1 - ?l)"
    using lastDifference_spec [of 0 original ?f edited] by auto
  have ne: "\<not> (?f = length original \<and> ?f = length edited)" and
    rs: "rs = [\<lparr>or_offset = off + int ?f, remove_bytes_count = length original - ?f - ?l,
               replacement = slice ?f (length edited - ?l) edited\<rparr>]"
    using assms by (auto simp: editOptimizer_def Let_def result_simps requireSafeIntegerInput_def
        requireSafeIntegerOutput_Inr split: if_splits)
  let ?mid = "slice ?f (length original - ?l) original"
  let ?new = "slice ?f (length edited - ?l) edited"
  have lens: "length ?mid = length original - ?f - ?l" "length ?new = length edited - ?f - ?l"
    by simp_all
  have dec: "original = take ?f original @ ?mid @ drop (length original - ?l) original"
    "edited = take ?f original @ ?new @ drop (length original - ?l) original"
    using split_at_both [of ?f ?l original] split_at_both [of ?f ?l edited] f(1-3) l(1-3) by auto
  have differ: "original \<noteq> edited"
    using ne f(4) by metis
  have "trimmed ?mid ?new"
  proof (cases "?mid = [] \<or> ?new = []")
    case True
    have "?mid \<noteq> ?new" using dec differ by metis
    with True show ?thesis by (auto simp: trimmed_def)
  next
    case False
    then have "?f < length original - ?l" "?f < length edited - ?l" by (auto simp: slice_def)
    with f(4) l(4) show ?thesis
      using slice_hd_last [of ?f "length original - ?l" original]
        slice_hd_last [of ?f "length edited - ?l" edited]
      by (auto simp: trimmed_def diff_right_commute)
  qed
  from that [OF dec this] rs f(1) lens show ?thesis by simp
qed

lemma editOptimizer_None_iff:
  assumes "isSafeInt off"
  shows "editOptimizer original edited (NInt off) = Inr None \<longleftrightarrow> original = edited"
proof -
  let ?f = "firstDifference original edited 0"
  have f: "?f \<le> length original" "?f \<le> length edited" "take ?f original = take ?f edited"
    "?f = length original \<or> ?f = length edited \<or> original ! ?f \<noteq> edited ! ?f"
    using firstDifference_spec [of 0 original edited] by auto
  have "editOptimizer original edited (NInt off) = Inr None \<longleftrightarrow>
      ?f = length original \<and> ?f = length edited"
    using assms by (auto simp: editOptimizer_def Let_def result_simps requireSafeIntegerInput_def)
  also have "\<dots> \<longleftrightarrow> original = edited"
  proof
    assume "?f = length original \<and> ?f = length edited"
    with f(3) show "original = edited" by simp
  next
    assume "original = edited"
    with f(4) show "?f = length original \<and> ?f = length edited" by auto
  qed
  finally show ?thesis .
qed

lemma editOptimizer_returns:
  assumes "isSafeInt (off + int (length original))" "0 \<le> off"
  shows "\<exists>res. editOptimizer original edited (NInt off) = Inr res"
proof -
  have "firstDifference original edited 0 \<le> length original"
    using firstDifference_spec [of 0 original edited] by simp
  then have "isSafeInt (off + int (firstDifference original edited 0))" "isSafeInt off"
    by (intro isSafeInt_mono [OF assms(1)]; use assms(2) in simp)+
  then show ?thesis
    by (auto simp: editOptimizer_def Let_def requireSafeIntegerInput_def requireSafeIntegerOutput_def)
qed

section \<open>Properties\<close>

text \<open>C3: \<^verbatim>\<open>editOperations\<close> returns for every pair of segments whose end is a safe integer, and
  its operations, applied in order to a session that holds the original segment at the given
  offset, are all accepted and leave the edited segment there and the surroundings untouched.
  There is at most one operation per byte, and none exactly when the segments are equal.\<close>

theorem editOperations_correct:
  assumes "isSafeInt (int (length pre) + int (max (length original) (length edited)))"
  shows "\<exists>ops. editOperations original edited (NInt (int (length pre))) = Inr ops \<and>
     run_ops ops (pre @ original @ post) = Some (pre @ edited @ post) \<and>
     length ops \<le> max (length original) (length edited) \<and>
     (ops = [] \<longleftrightarrow> original = edited)"
proof -
  obtain ops where ops: "editOperations original edited (NInt (int (length pre))) = Inr ops"
    using editOperations_returns [OF assms] by auto
  with editOperations_run [OF ops] editOperations_bounds [OF ops] editOperations_Nil_iff [OF ops]
  show ?thesis by simp
qed

theorem editOperations_correct_witness:
  "\<exists>ops. editOperations [3, 4, 5, 6, 7] [3, 9, 9, 8] (NInt 2) = Inr ops \<and>
     run_ops ops [1, 2, 3, 4, 5, 6, 7, 7] = Some [1, 2, 3, 9, 9, 8, 7] \<and>
     length ops \<le> 5 \<and> ops \<noteq> []"
  using editOperations_correct [of "[1, 2]" "[3, 4, 5, 6, 7]" "[3, 9, 9, 8]" "[7]"]
  by (auto simp: isSafeInt_def MAX_SAFE_INTEGER_def)

text \<open>\<^verbatim>\<open>editOptimizer\<close> answers \<^verbatim>\<open>null\<close> exactly for equal segments; otherwise it answers one
  replacement, which is the part of the segments between a common prefix and a common suffix,
  and which is trimmed: its removed and inserted bytes differ at the first and at the last
  position, so neither end could be cut further.\<close>

theorem editOptimizer_correct:
  assumes "isSafeInt (off + int (length original))" "0 \<le> off"
  shows "original = edited \<and> editOptimizer original edited (NInt off) = Inr None \<or>
    (\<exists>pre mid new post. original = pre @ mid @ post \<and> edited = pre @ new @ post \<and> trimmed mid new \<and>
       editOptimizer original edited (NInt off) =
         Inr (Some [\<lparr>or_offset = off + int (length pre), remove_bytes_count = length mid,
                     replacement = new\<rparr>]))"
proof -
  have safe: "isSafeInt off" by (rule isSafeInt_mono [OF assms(1)]) (use assms(2) in simp_all)
  obtain res where res: "editOptimizer original edited (NInt off) = Inr res"
    using editOptimizer_returns [OF assms] by blast
  show ?thesis
  proof (cases res)
    case None
    with res editOptimizer_None_iff [OF safe] show ?thesis by simp
  next
    case (Some rs)
    with res editOptimizer_Some [of original edited off rs] show ?thesis by metis
  qed
qed

theorem editOptimizer_correct_witness:
  "\<exists>pre mid new post. [1, 2, 3, 4 :: byte] = pre @ mid @ post \<and>
     [1, 9, 9, 9, 4] = pre @ new @ post \<and> trimmed mid new \<and>
     editOptimizer [1, 2, 3, 4] [1, 9, 9, 9, 4] (NInt 10) =
       Inr (Some [\<lparr>or_offset = 10 + int (length pre), remove_bytes_count = length mid,
                   replacement = new\<rparr>])"
  using editOptimizer_correct [of 10 "[1, 2, 3, 4]" "[1, 9, 9, 9, 4]"]
  by (simp add: isSafeInt_def MAX_SAFE_INTEGER_def)

end
