(* ===== verification/Native_Session.thy ===== *)
theory Native_Session
  imports JS_Prelude
begin

text \<open>
  The editing service as the TypeScript client sees it: the three change functions of
  \<^verbatim>\<open>core/src/lib/edit.cpp\<close>, the transaction and viewport flags of
  \<^verbatim>\<open>core/src/lib/session.cpp\<close>, and the \<^verbatim>\<open>SubmitChange\<close> handler of
  \<^verbatim>\<open>server/cpp/src/editor_service.cpp\<close>. The piece table of the native session is
  represented by the bytes it computes; allocation failures, notifications, snapshots and
  the undo stack are left out. \<open>int64\<close> arguments are integers, with the range checks
  that the code makes written out.
\<close>

record native_session =
  content :: bytes
  num_changes :: int
  changes_paused :: bool
  transaction_open :: bool
  viewports_paused :: bool
  max_change_bytes :: int

definition INT64_MAX :: int where
  "INT64_MAX = 9223372036854775807"

definition file_size :: "native_session \<Rightarrow> int" where
  "file_size s = int (length (content s))"

definition valid_nonnegative_range :: "int \<Rightarrow> int \<Rightarrow> bool" where
  "valid_nonnegative_range off len \<longleftrightarrow> off \<ge> 0 \<and> len \<ge> 0 \<and> off + len \<le> INT64_MAX"

definition next_change_serial :: "native_session \<Rightarrow> int" where
  "next_change_serial s = (if num_changes s < INT64_MAX then num_changes s + 1 else 0)"

definition omega_edit_delete :: "int \<Rightarrow> int \<Rightarrow> native_session \<Rightarrow> int \<times> native_session" where
  "omega_edit_delete off len s =
     (if \<not> valid_nonnegative_range off len then (- 1, s)
      else if len = 0 then (0, s)
      else if next_change_serial s \<le> 0 then (- 1, s)
      else if changes_paused s \<or> off \<ge> file_size s then (0, s)
      else (next_change_serial s,
            s\<lparr>content := take (nat off) (content s) @
                        drop (nat (off + min len (file_size s - off))) (content s),
              num_changes := num_changes s + 1\<rparr>))"

definition omega_edit_insert_bytes :: "int \<Rightarrow> bytes \<Rightarrow> native_session \<Rightarrow> int \<times> native_session" where
  "omega_edit_insert_bytes off bs s =
     (if \<not> valid_nonnegative_range off (int (length bs)) then (- 1, s)
      else if length bs = 0 then (0, s)
      else if file_size s + int (length bs) > INT64_MAX then (- 1, s)
      else if next_change_serial s \<le> 0 then (- 1, s)
      else if \<not> changes_paused s \<and> off \<le> file_size s
      then (next_change_serial s,
            s\<lparr>content := take (nat off) (content s) @ bs @ drop (nat off) (content s),
              num_changes := num_changes s + 1\<rparr>)
      else (0, s))"

definition omega_edit_overwrite_bytes :: "int \<Rightarrow> bytes \<Rightarrow> native_session \<Rightarrow> int \<times> native_session" where
  "omega_edit_overwrite_bytes off bs s =
     (if \<not> valid_nonnegative_range off (int (length bs)) then (- 1, s)
      else if length bs = 0 then (0, s)
      else if next_change_serial s \<le> 0 then (- 1, s)
      else if changes_paused s \<or> off > file_size s then (0, s)
      else (next_change_serial s,
            s\<lparr>content := take (nat off) (content s) @ bs @
                        drop (nat off + length bs) (content s),
              num_changes := num_changes s + 1\<rparr>))"

definition omega_session_begin_transaction :: "native_session \<Rightarrow> int \<times> native_session" where
  "omega_session_begin_transaction s =
     (if transaction_open s then (- 1, s) else (0, s\<lparr>transaction_open := True\<rparr>))"

definition omega_session_end_transaction :: "native_session \<Rightarrow> int \<times> native_session" where
  "omega_session_end_transaction s =
     (if \<not> transaction_open s then (- 1, s) else (0, s\<lparr>transaction_open := False\<rparr>))"

definition omega_session_pause_viewports :: "native_session \<Rightarrow> native_session" where
  "omega_session_pause_viewports s = s\<lparr>viewports_paused := True\<rparr>"

definition omega_session_resume_viewports :: "native_session \<Rightarrow> native_session" where
  "omega_session_resume_viewports s = s\<lparr>viewports_paused := False\<rparr>"

section \<open>The SubmitChange handler\<close>

datatype ChangeKind = UNSPECIFIED | DELETE | INSERT | OVERWRITE | TRANSFORM

record SubmitChangeRequest =
  rq_kind :: ChangeKind
  rq_offset :: int
  rq_length :: int
  rq_data :: "bytes option"

datatype 'r reply = RpcError | RpcEmpty | RpcOk 'r

definition payload_too_large :: "native_session \<Rightarrow> SubmitChangeRequest \<Rightarrow> bool" where
  "payload_too_large s rq \<longleftrightarrow>
     (rq_kind rq = INSERT \<or> rq_kind rq = OVERWRITE) \<and> max_change_bytes s > 0 \<and>
     int (length (case rq_data rq of None \<Rightarrow> [] | Some d \<Rightarrow> d)) > max_change_bytes s"

definition SubmitChange :: "SubmitChangeRequest \<Rightarrow> native_session \<Rightarrow> int reply \<times> native_session" where
  "SubmitChange rq s =
     (if payload_too_large s rq then (RpcError, s)
      else if rq_offset rq < 0 \<or> rq_length rq < 0 then (RpcError, s)
      else
        let d = (case rq_data rq of None \<Rightarrow> [] | Some d \<Rightarrow> d);
            res = (case rq_kind rq of
                     DELETE \<Rightarrow> Some (omega_edit_delete (rq_offset rq) (rq_length rq) s)
                   | INSERT \<Rightarrow> Some (omega_edit_insert_bytes (rq_offset rq) d s)
                   | OVERWRITE \<Rightarrow> Some (omega_edit_overwrite_bytes (rq_offset rq) d s)
                   | _ \<Rightarrow> None)
        in case res of
             None \<Rightarrow> (RpcError, s)
           | Some (serial, s') \<Rightarrow> if serial \<le> 0 then (RpcError, s') else (RpcOk serial, s'))"

section \<open>Transactions and viewport events\<close>

text \<open>The handlers answer OK whatever the core function returned: beginning inside an open
  transaction, and ending when none is open, change nothing.\<close>

definition SessionBeginTransaction :: "native_session \<Rightarrow> unit reply \<times> native_session" where
  "SessionBeginTransaction s = (RpcOk (), snd (omega_session_begin_transaction s))"

definition SessionEndTransaction :: "native_session \<Rightarrow> unit reply \<times> native_session" where
  "SessionEndTransaction s = (RpcOk (), snd (omega_session_end_transaction s))"

definition PauseViewportEvents :: "native_session \<Rightarrow> unit reply \<times> native_session" where
  "PauseViewportEvents s = (RpcOk (), omega_session_pause_viewports s)"

definition ResumeViewportEvents :: "native_session \<Rightarrow> unit reply \<times> native_session" where
  "ResumeViewportEvents s = (RpcOk (), omega_session_resume_viewports s)"

section \<open>What an accepted change does\<close>

text \<open>A session that takes changes and whose sizes stay representable in the client.\<close>

definition editable :: "native_session \<Rightarrow> bool" where
  "editable s \<longleftrightarrow> \<not> changes_paused s \<and> 0 \<le> num_changes s \<and> max_change_bytes s \<le> 0"

lemma INT64_MAX_gt: "MAX_SAFE_INTEGER < INT64_MAX"
  by (simp add: INT64_MAX_def MAX_SAFE_INTEGER_def)

lemma SubmitChange_delete:
  assumes "editable s" "num_changes s < INT64_MAX" "0 \<le> off" "0 < len"
    and "off + len \<le> file_size s" "file_size s \<le> INT64_MAX"
  shows "SubmitChange \<lparr>rq_kind = DELETE, rq_offset = off, rq_length = len, rq_data = None\<rparr> s =
     (RpcOk (num_changes s + 1),
      s\<lparr>content := take (nat off) (content s) @ drop (nat (off + len)) (content s),
        num_changes := num_changes s + 1\<rparr>)"
  using assms
  by (auto simp: SubmitChange_def payload_too_large_def omega_edit_delete_def editable_def
      next_change_serial_def valid_nonnegative_range_def)

lemma SubmitChange_insert:
  assumes "editable s" "num_changes s < INT64_MAX" "0 \<le> off" "bs \<noteq> []"
    and "off \<le> file_size s" "file_size s + int (length bs) \<le> INT64_MAX"
  shows "SubmitChange \<lparr>rq_kind = INSERT, rq_offset = off, rq_length = int (length bs), rq_data = Some bs\<rparr> s =
     (RpcOk (num_changes s + 1),
      s\<lparr>content := take (nat off) (content s) @ bs @ drop (nat off) (content s),
        num_changes := num_changes s + 1\<rparr>)"
  using assms
  by (auto simp: SubmitChange_def payload_too_large_def omega_edit_insert_bytes_def editable_def
      next_change_serial_def valid_nonnegative_range_def)

lemma SubmitChange_overwrite:
  assumes "editable s" "num_changes s < INT64_MAX" "0 \<le> off" "bs \<noteq> []"
    and "off + int (length bs) \<le> file_size s" "file_size s \<le> INT64_MAX"
  shows "SubmitChange \<lparr>rq_kind = OVERWRITE, rq_offset = off, rq_length = int (length bs), rq_data = Some bs\<rparr> s =
     (RpcOk (num_changes s + 1),
      s\<lparr>content := take (nat off) (content s) @ bs @ drop (nat off + length bs) (content s),
        num_changes := num_changes s + 1\<rparr>)"
  using assms
  by (auto simp: SubmitChange_def payload_too_large_def omega_edit_overwrite_bytes_def editable_def
      next_change_serial_def valid_nonnegative_range_def)

end
