(* ===== verification/Change_Client.thy ===== *)
theory Change_Client
  imports Edit_Script Native_Session
begin

text \<open>
  The change API of the client: \<^verbatim>\<open>packages/client/src/protobuf_ts/change.ts\<close> (one RPC per
  change, with the edit statistics) and the functions of
  \<^verbatim>\<open>packages/client/src/change.ts\<close> and \<^verbatim>\<open>packages/client/src/session.ts\<close> built on it:
  \<^verbatim>\<open>del\<close>, \<^verbatim>\<open>insert\<close>, \<^verbatim>\<open>overwrite\<close>, \<^verbatim>\<open>replace\<close>, \<^verbatim>\<open>editSimple\<close>, \<^verbatim>\<open>edit\<close>, \<^verbatim>\<open>undo\<close>, \<^verbatim>\<open>redo\<close>,
  \<^verbatim>\<open>clear\<close>, \<^verbatim>\<open>runSessionTransaction\<close> and \<^verbatim>\<open>withViewportBatch\<close>.

  The service is a record of RPC functions on a service state. An asynchronous function is
  an action on the pair of the service state and the caller's optional edit statistics; a
  rejected promise is \<open>Inl\<close>. \<^verbatim>\<open>enqueueSessionMutation\<close> runs its task alone on the session
  (theory \<open>Mutation_Queue\<close>), so here it is the task itself. Logging is left out.

  The locale \<open>edit_service\<close> states what the client relies on; its lemmas show what \<^verbatim>\<open>edit\<close>
  and \<^verbatim>\<open>editSimple\<close> leave in the session. It is interpreted on the native session.
\<close>

section \<open>Service and actions\<close>

record 's rpc =
  rpc_submitChange :: "SubmitChangeRequest \<Rightarrow> 's \<Rightarrow> int reply \<times> 's"
  rpc_beginTransaction :: "'s \<Rightarrow> unit reply \<times> 's"
  rpc_endTransaction :: "'s \<Rightarrow> unit reply \<times> 's"
  rpc_pauseViewportEvents :: "'s \<Rightarrow> unit reply \<times> 's"
  rpc_resumeViewportEvents :: "'s \<Rightarrow> unit reply \<times> 's"
  rpc_notifyChangedViewports :: "'s \<Rightarrow> int reply \<times> 's"

record 's history_rpc =
  rpc_undoLastChange :: "'s \<Rightarrow> int reply \<times> 's"
  rpc_redoLastUndo :: "'s \<Rightarrow> int reply \<times> 's"
  rpc_clearChanges :: "'s \<Rightarrow> ustring reply \<times> 's"

record EditStats =
  delete_count :: nat
  insert_count :: nat
  overwrite_count :: nat
  undo_count :: nat
  redo_count :: nat
  clear_count :: nat
  error_count :: nat


definition reset :: "EditStats \<Rightarrow> EditStats" where
  "reset st = st\<lparr>delete_count := 0, insert_count := 0, overwrite_count := 0,
     undo_count := 0, redo_count := 0, clear_count := 0, error_count := 0\<rparr>"

datatype client_error =
    UnsafeInteger safe_int_error
  | RpcFailed string
  | EmptyResponse string
  | ZeroSerial string

record 's client =
  svc :: 's
  stats :: "EditStats option"

type_synonym ('s, 'a) action = "'s client \<Rightarrow> (client_error + 'a) \<times> 's client"

definition returnS :: "'a \<Rightarrow> ('s, 'a) action" where
  "returnS a = (\<lambda>st. (Inr a, st))"

definition bindS :: "('s, 'a) action \<Rightarrow> ('a \<Rightarrow> ('s, 'b) action) \<Rightarrow> ('s, 'b) action" where
  "bindS m f = (\<lambda>st. case m st of (Inl e, st') \<Rightarrow> (Inl e, st') | (Inr a, st') \<Rightarrow> f a st')"

text \<open>A synchronous computation that may throw.\<close>

definition liftS :: "safe_int_error + 'a \<Rightarrow> ('s, 'a) action" where
  "liftS r = (\<lambda>st. case r of Inl e \<Rightarrow> (Inl (UnsafeInteger e), st) | Inr a \<Rightarrow> (Inr a, st))"

text \<open>\<^verbatim>\<open>try { return await m } finally { await f }\<close>: an exception of \<open>f\<close> replaces the outcome.\<close>

definition tryFinally :: "('s, 'a) action \<Rightarrow> ('s, 'b) action \<Rightarrow> ('s, 'a) action" where
  "tryFinally m f = (\<lambda>st. case m st of (r, st1) \<Rightarrow>
     (case f st1 of (Inl e, st2) \<Rightarrow> (Inl e, st2) | (Inr _, st2) \<Rightarrow> (r, st2)))"

definition countError :: "'s client \<Rightarrow> 's client" where
  "countError st = st\<lparr>stats := map_option (\<lambda>x. x\<lparr>error_count := Suc (error_count x)\<rparr>) (stats st)\<rparr>"

definition countStat :: "(EditStats \<Rightarrow> EditStats) \<Rightarrow> 's client \<Rightarrow> 's client" where
  "countStat bump st = st\<lparr>stats := map_option bump (stats st)\<rparr>"

text \<open>The unary calls that only check for an error and a missing response.\<close>

definition unary :: "string \<Rightarrow> ('s \<Rightarrow> 'r reply \<times> 's) \<Rightarrow> ('s, 'r) action" where
  "unary fn call = (\<lambda>st. case call (svc st) of (rep, s') \<Rightarrow>
     (case rep of
        RpcError \<Rightarrow> (Inl (RpcFailed fn), st\<lparr>svc := s'\<rparr>)
      | RpcEmpty \<Rightarrow> (Inl (EmptyResponse fn), st\<lparr>svc := s'\<rparr>)
      | RpcOk r \<Rightarrow> (Inr r, st\<lparr>svc := s'\<rparr>)))"

text \<open>The calls that answer a serial and keep the statistics.\<close>

definition serialCall ::
    "string \<Rightarrow> (EditStats \<Rightarrow> EditStats) \<Rightarrow> ('s \<Rightarrow> int reply \<times> 's) \<Rightarrow> ('s, int) action" where
  "serialCall fn bump call = (\<lambda>st. case call (svc st) of (rep, s') \<Rightarrow>
     (case rep of
        RpcError \<Rightarrow> (Inl (RpcFailed fn), countError (st\<lparr>svc := s'\<rparr>))
      | RpcEmpty \<Rightarrow> (Inl (EmptyResponse fn), countError (st\<lparr>svc := s'\<rparr>))
      | RpcOk serial \<Rightarrow>
          if serial = 0 then (Inl (ZeroSerial fn), countError (st\<lparr>svc := s'\<rparr>))
          else (Inr serial, countStat bump (st\<lparr>svc := s'\<rparr>))))"

section \<open>protobuf-ts/change.ts\<close>

definition submitChange ::
    "'s rpc \<Rightarrow> SubmitChangeRequest \<Rightarrow> string \<Rightarrow> (EditStats \<Rightarrow> EditStats) \<Rightarrow> ('s, int) action" where
  "submitChange R request fn bump = serialCall fn bump (rpc_submitChange R request)"

definition rawDel :: "'s rpc \<Rightarrow> int \<Rightarrow> int \<Rightarrow> ('s, int) action" where
  "rawDel R off len =
     submitChange R \<lparr>rq_kind = DELETE, rq_offset = off, rq_length = len, rq_data = None\<rparr>
       ''del'' (\<lambda>x. x\<lparr>delete_count := Suc (delete_count x)\<rparr>)"

definition rawInsert :: "'s rpc \<Rightarrow> int \<Rightarrow> bytes \<Rightarrow> ('s, int) action" where
  "rawInsert R off bs =
     submitChange R \<lparr>rq_kind = INSERT, rq_offset = off, rq_length = int (length bs), rq_data = Some bs\<rparr>
       ''insert'' (\<lambda>x. x\<lparr>insert_count := Suc (insert_count x)\<rparr>)"

definition rawOverwrite :: "'s rpc \<Rightarrow> int \<Rightarrow> bytes \<Rightarrow> ('s, int) action" where
  "rawOverwrite R off bs =
     submitChange R \<lparr>rq_kind = OVERWRITE, rq_offset = off, rq_length = int (length bs), rq_data = Some bs\<rparr>
       ''overwrite'' (\<lambda>x. x\<lparr>overwrite_count := Suc (overwrite_count x)\<rparr>)"

definition rawUndo :: "'s history_rpc \<Rightarrow> ('s, int) action" where
  "rawUndo H = serialCall ''undo'' (\<lambda>x. x\<lparr>undo_count := Suc (undo_count x)\<rparr>) (rpc_undoLastChange H)"

definition rawRedo :: "'s history_rpc \<Rightarrow> ('s, int) action" where
  "rawRedo H = serialCall ''redo'' (\<lambda>x. x\<lparr>redo_count := Suc (redo_count x)\<rparr>) (rpc_redoLastUndo H)"

definition rawClear :: "'s history_rpc \<Rightarrow> ('s, ustring) action" where
  "rawClear H = (\<lambda>st. case rpc_clearChanges H (svc st) of (rep, s') \<Rightarrow>
     (case rep of
        RpcError \<Rightarrow> (Inl (RpcFailed ''clear''), countError (st\<lparr>svc := s'\<rparr>))
      | RpcEmpty \<Rightarrow> (Inl (EmptyResponse ''clear''), countError (st\<lparr>svc := s'\<rparr>))
      | RpcOk sid \<Rightarrow> (Inr sid, countStat (\<lambda>x. x\<lparr>clear_count := Suc (clear_count x)\<rparr>) (st\<lparr>svc := s'\<rparr>))))"

section \<open>change.ts and session.ts\<close>

definition checkSerial :: "string \<Rightarrow> ('s, int) action \<Rightarrow> ('s, int) action" where
  "checkSerial name m = bindS m (\<lambda>serial. liftS (requireSafeIntegerOutput name (NInt serial)))"

definition del :: "'s rpc \<Rightarrow> jsnum \<Rightarrow> jsnum \<Rightarrow> ('s, int) action" where
  "del R off len =
     bindS (liftS (requireSafeIntegerInput ''delete offset'' off)) (\<lambda>off'.
     bindS (liftS (requireSafeIntegerInput ''delete length'' len)) (\<lambda>len'.
       checkSerial ''change serial'' (rawDel R off' len')))"

definition insert_data :: "'s rpc \<Rightarrow> jsnum \<Rightarrow> bytes \<Rightarrow> ('s, int) action" where
  "insert_data R off bs =
     bindS (liftS (requireSafeIntegerInput ''insert offset'' off)) (\<lambda>off'.
       checkSerial ''change serial'' (rawInsert R off' bs))"

definition overwrite :: "'s rpc \<Rightarrow> jsnum \<Rightarrow> bytes \<Rightarrow> ('s, int) action" where
  "overwrite R off bs =
     bindS (liftS (requireSafeIntegerInput ''overwrite offset'' off)) (\<lambda>off'.
       checkSerial ''change serial'' (rawOverwrite R off' bs))"

definition undo :: "'s history_rpc \<Rightarrow> ('s, int) action" where
  "undo H = checkSerial ''undo serial'' (rawUndo H)"

definition redo :: "'s history_rpc \<Rightarrow> ('s, int) action" where
  "redo H = checkSerial ''redo serial'' (rawRedo H)"

definition clear :: "'s history_rpc \<Rightarrow> ('s, ustring) action" where
  "clear H = rawClear H"

definition beginSessionTransaction :: "'s rpc \<Rightarrow> ('s, unit) action" where
  "beginSessionTransaction R = unary ''beginSessionTransaction'' (rpc_beginTransaction R)"

definition endSessionTransaction :: "'s rpc \<Rightarrow> ('s, unit) action" where
  "endSessionTransaction R = unary ''endSessionTransaction'' (rpc_endTransaction R)"

definition pauseViewportEvents :: "'s rpc \<Rightarrow> ('s, unit) action" where
  "pauseViewportEvents R = unary ''pauseViewportEvents'' (rpc_pauseViewportEvents R)"

definition resumeViewportEvents :: "'s rpc \<Rightarrow> ('s, unit) action" where
  "resumeViewportEvents R = unary ''resumeViewportEvents'' (rpc_resumeViewportEvents R)"

definition notifyChangedViewports :: "'s rpc \<Rightarrow> ('s, int) action" where
  "notifyChangedViewports R = unary ''notifyChangedViewports'' (rpc_notifyChangedViewports R)"

definition runSessionTransaction :: "'s rpc \<Rightarrow> ('s, 'a) action \<Rightarrow> ('s, 'a) action" where
  "runSessionTransaction R work =
     bindS (beginSessionTransaction R) (\<lambda>_. tryFinally work (endSessionTransaction R))"

definition withViewportBatch :: "'s rpc \<Rightarrow> ('s, 'a) action \<Rightarrow> bool \<Rightarrow> bool \<Rightarrow> ('s, 'a) action" where
  "withViewportBatch R work transactional notify =
     bindS (pauseViewportEvents R) (\<lambda>_.
       tryFinally (if transactional then runSessionTransaction R work else work)
         (bindS (resumeViewportEvents R) (\<lambda>_.
            if notify then bindS (notifyChangedViewports R) (\<lambda>_. returnS ()) else returnS ())))"

definition replaceWithTransaction :: "'s rpc \<Rightarrow> int \<Rightarrow> int \<Rightarrow> bytes \<Rightarrow> ('s, int) action" where
  "replaceWithTransaction R off n bs =
     runSessionTransaction R
       (bindS (del R (NInt off) (NInt n)) (\<lambda>_. insert_data R (NInt off) bs))"

definition replaceWithoutTransaction :: "'s rpc \<Rightarrow> int \<Rightarrow> int \<Rightarrow> bytes \<Rightarrow> ('s, int) action" where
  "replaceWithoutTransaction R off n bs =
     bindS (del R (NInt off) (NInt n)) (\<lambda>_. insert_data R (NInt off) bs)"

definition replaceInternal ::
    "'s rpc \<Rightarrow> jsnum \<Rightarrow> jsnum \<Rightarrow> bytes \<Rightarrow> bool \<Rightarrow> ('s, int) action" where
  "replaceInternal R off n bs transactional =
     bindS (liftS (requireSafeIntegerInput ''replace offset'' off)) (\<lambda>off'.
     bindS (liftS (requireSafeIntegerInput ''replace length'' n)) (\<lambda>n'.
       if n' = 0 then insert_data R (NInt off') bs
       else if bs = [] then del R (NInt off') (NInt n')
       else if int (length bs) = n' then overwrite R (NInt off') bs
       else if transactional then replaceWithTransaction R off' n' bs
       else replaceWithoutTransaction R off' n' bs))"

definition replace :: "'s rpc \<Rightarrow> jsnum \<Rightarrow> jsnum \<Rightarrow> bytes \<Rightarrow> ('s, int) action" where
  "replace R off n bs = replaceInternal R off n bs True"

fun applyReplacements ::
    "'s rpc \<Rightarrow> bool \<Rightarrow> OptimizedReplacement list \<Rightarrow> int \<Rightarrow> ('s, int) action" where
  "applyReplacements R tx [] result = returnS result"
| "applyReplacements R tx (r # rs) result =
     bindS (replaceInternal R (NInt (or_offset r)) (NInt (int (remove_bytes_count r))) (replacement r) tx)
       (applyReplacements R tx rs)"

definition editSimple :: "'s rpc \<Rightarrow> jsnum \<Rightarrow> bytes \<Rightarrow> bytes \<Rightarrow> bool \<Rightarrow> ('s, int) action" where
  "editSimple R off original edited transactional =
     bindS (liftS (editOptimizer original edited off)) (\<lambda>opt.
       case opt of
         None \<Rightarrow> returnS 0
       | Some rs \<Rightarrow>
           let useTransaction = (transactional \<and> 1 < length rs);
               replaceTransactionally = (transactional \<and> \<not> useTransaction)
           in if useTransaction
              then runSessionTransaction R (applyReplacements R replaceTransactionally rs 0)
              else applyReplacements R replaceTransactionally rs 0)"

fun applyEdit :: "'s rpc \<Rightarrow> EditOperation \<Rightarrow> ('s, int) action" where
  "applyEdit R (InsertOp st bs) = insert_data R (NInt st) bs"
| "applyEdit R (DeleteOp st n) = del R (NInt st) (NInt (int n))"
| "applyEdit R (OverwriteOp st bs) = overwrite R (NInt st) bs"

fun applyEdits :: "'s rpc \<Rightarrow> EditOperation list \<Rightarrow> int \<Rightarrow> ('s, int) action" where
  "applyEdits R [] result = returnS result"
| "applyEdits R (x # xs) result = bindS (applyEdit R x) (applyEdits R xs)"

definition edit :: "'s rpc \<Rightarrow> jsnum \<Rightarrow> bytes \<Rightarrow> bytes \<Rightarrow> ('s, int) action" where
  "edit R off original edited =
     bindS (liftS (editOperations original edited off)) (\<lambda>edits.
       if 1 < length edits then withViewportBatch R (applyEdits R edits 0) True True
       else applyEdits R edits 0)"

section \<open>Reasoning about actions\<close>

named_theorems valid_intros \<open>rules for actions, one per combinator\<close>

text \<open>\<open>valid P m Q E\<close>: started in \<open>P\<close>, the action returns a value with \<open>Q\<close> or throws with \<open>E\<close>.
  \<open>keeps P\<close> is the case of an invariant.\<close>

definition valid ::
    "('s client \<Rightarrow> bool) \<Rightarrow> ('s, 'a) action \<Rightarrow> ('a \<Rightarrow> 's client \<Rightarrow> bool) \<Rightarrow> ('s client \<Rightarrow> bool) \<Rightarrow> bool" where
  "valid P m Q E \<longleftrightarrow>
     (\<forall>st. P st \<longrightarrow> (case m st of (Inl _, st') \<Rightarrow> E st' | (Inr a, st') \<Rightarrow> Q a st'))"

abbreviation keeps :: "('s client \<Rightarrow> bool) \<Rightarrow> ('s, 'a) action \<Rightarrow> bool" where
  "keeps P m \<equiv> valid P m (\<lambda>_. P) P"

lemma valid_returnS: "valid (Q a) (returnS a) Q E"
  by (simp add: valid_def returnS_def)

lemma valid_bindS:
  "valid P m Q E \<Longrightarrow> (\<And>a. valid (Q a) (k a) Q' E) \<Longrightarrow> valid P (bindS m k) Q' E"
  by (fastforce simp: valid_def bindS_def split: prod.splits sum.splits)


lemma bindS_liftS [simp]: "bindS (liftS (Inr a)) k = k a" "bindS (liftS (Inl e)) k = liftS (Inl e)"
  by (simp_all add: bindS_def liftS_def fun_eq_iff)

lemma valid_tryFinally:
  "valid P m Q E \<Longrightarrow> (\<And>a. valid (Q a) f (\<lambda>_. Q' a) E') \<Longrightarrow> valid E f (\<lambda>_. E') E' \<Longrightarrow>
   valid P (tryFinally m f) Q' E'"
  by (fastforce simp: valid_def tryFinally_def split: prod.splits sum.splits)


lemma keeps_returnS [valid_intros]: "keeps P (returnS a)"
  by (rule valid_returnS)

lemma keeps_liftS [valid_intros]: "keeps P (liftS r)"
  by (simp add: valid_def liftS_def split: sum.splits)

lemma keeps_bindS [valid_intros]: "keeps P m \<Longrightarrow> (\<And>a. keeps P (k a)) \<Longrightarrow> keeps P (bindS m k)"
  by (rule valid_bindS)

lemma keeps_tryFinally [valid_intros]: "keeps P m \<Longrightarrow> keeps P f \<Longrightarrow> keeps P (tryFinally m f)"
  by (rule valid_tryFinally)

lemma keeps_if [valid_intros]: "(c \<Longrightarrow> keeps P m) \<Longrightarrow> (\<not> c \<Longrightarrow> keeps P n) \<Longrightarrow> keeps P (if c then m else n)"
  by simp

lemma valid_unary:
  "(\<And>st rep s'. P st \<Longrightarrow> call (svc st) = (rep, s') \<Longrightarrow>
      (case rep of RpcOk r \<Rightarrow> Q r (st\<lparr>svc := s'\<rparr>) | _ \<Rightarrow> E (st\<lparr>svc := s'\<rparr>))) \<Longrightarrow>
   valid P (unary fn call) Q E"
  by (fastforce simp: valid_def unary_def split: prod.splits reply.splits)

section \<open>Invariants of every change function\<close>

text \<open>Whatever the five primitive calls keep, every function of the client keeps: the
  functions touch the service only through them.\<close>

definition changeBump :: "(EditStats \<Rightarrow> EditStats) \<Rightarrow> bool" where
  "changeBump b \<longleftrightarrow> b \<in> {\<lambda>x. x\<lparr>delete_count := Suc (delete_count x)\<rparr>,
     \<lambda>x. x\<lparr>insert_count := Suc (insert_count x)\<rparr>, \<lambda>x. x\<lparr>overwrite_count := Suc (overwrite_count x)\<rparr>}"

locale change_invariant =
  fixes R :: "'s rpc" and P :: "'s client \<Rightarrow> bool"
  assumes submit: "changeBump b \<Longrightarrow> keeps P (submitChange R rq fn b)"
    and transaction: "keeps P (work :: ('s, int) action) \<Longrightarrow> keeps P (runSessionTransaction R work)"
    and batch: "keeps P (work :: ('s, int) action) \<Longrightarrow> keeps P (withViewportBatch R work tr nt)"
begin

lemma keeps_del: "keeps P (del R off n)"
  by (auto simp: del_def checkSerial_def rawDel_def changeBump_def intro!: valid_intros submit)

lemma keeps_insert: "keeps P (insert_data R off bs)"
  by (auto simp: insert_data_def checkSerial_def rawInsert_def changeBump_def intro!: valid_intros submit)

lemma keeps_overwrite: "keeps P (overwrite R off bs)"
  by (auto simp: overwrite_def checkSerial_def rawOverwrite_def changeBump_def intro!: valid_intros submit)

lemmas keeps_primitive = keeps_del keeps_insert keeps_overwrite

lemma keeps_replaceInternal: "keeps P (replaceInternal R off n bs tr)"
  unfolding replaceInternal_def replaceWithTransaction_def replaceWithoutTransaction_def
  by (intro valid_intros keeps_primitive transaction)

lemma keeps_applyReplacements: "keeps P (applyReplacements R tr rs k)"
  by (induction rs arbitrary: k) (auto intro!: valid_intros keeps_replaceInternal)

lemma keeps_editSimple: "keeps P (editSimple R off original edited tr)"
  unfolding editSimple_def Let_def
  by (intro valid_intros)
    (auto intro!: valid_intros transaction keeps_applyReplacements split: option.splits)

lemma keeps_applyEdits: "keeps P (applyEdits R xs k)"
proof (induction xs arbitrary: k)
  case (Cons x xs)
  then show ?case by (cases x) (auto intro!: valid_intros keeps_primitive)
qed (simp add: valid_intros)

lemma keeps_edit: "keeps P (edit R off original edited)"
  unfolding edit_def by (intro valid_intros batch keeps_applyEdits)

end

section \<open>The native service\<close>

text \<open>The number of viewports that \<^verbatim>\<open>NotifyChangedViewports\<close> reports is a parameter.\<close>

definition native_rpc :: "(native_session \<Rightarrow> int) \<Rightarrow> native_session rpc" where
  "native_rpc notified = \<lparr>rpc_submitChange = SubmitChange,
     rpc_beginTransaction = SessionBeginTransaction, rpc_endTransaction = SessionEndTransaction,
     rpc_pauseViewportEvents = PauseViewportEvents, rpc_resumeViewportEvents = ResumeViewportEvents,
     rpc_notifyChangedViewports = (\<lambda>s. (RpcOk (notified s), s))\<rparr>"

text \<open>\<open>accounted c\<close>: statistics
  are kept and the change counters exceed the session's change count by \<open>c\<close>.\<close>

definition accounted :: "int \<Rightarrow> native_session client \<Rightarrow> bool" where
  "accounted c st \<longleftrightarrow>
     (case stats st of
        None \<Rightarrow> False
      | Some x \<Rightarrow> int (delete_count x + insert_count x + overwrite_count x) = num_changes (svc st) + c)"

lemmas native_defs = native_rpc_def SessionBeginTransaction_def SessionEndTransaction_def
  PauseViewportEvents_def ResumeViewportEvents_def omega_session_begin_transaction_def
  omega_session_end_transaction_def omega_session_pause_viewports_def omega_session_resume_viewports_def

lemmas session_calls = beginSessionTransaction_def endSessionTransaction_def
  pauseViewportEvents_def resumeViewportEvents_def notifyChangedViewports_def

text \<open>A change function either refuses with a non-positive serial and leaves the session, or
  counts one change.\<close>

definition change_result :: "native_session \<Rightarrow> int \<times> native_session \<Rightarrow> bool" where
  "change_result s r \<longleftrightarrow> transaction_open (snd r) = transaction_open s \<and>
     viewports_paused (snd r) = viewports_paused s \<and>
     (if 0 < fst r then num_changes (snd r) = num_changes s + 1 else snd r = s)"

lemma change_result_delete: "change_result s (omega_edit_delete off n s)"
  by (simp add: change_result_def omega_edit_delete_def)

lemma change_result_insert: "change_result s (omega_edit_insert_bytes off bs s)"
  by (simp add: change_result_def omega_edit_insert_bytes_def)

lemma change_result_overwrite: "change_result s (omega_edit_overwrite_bytes off bs s)"
  by (simp add: change_result_def omega_edit_overwrite_bytes_def)

lemma SubmitChange_cases:
  obtains (refused) "SubmitChange rq s = (RpcError, s)"
  | (accepted) serial s' where "SubmitChange rq s = (RpcOk serial, s')" "0 < serial"
      "num_changes s' = num_changes s + 1" "transaction_open s' = transaction_open s"
      "viewports_paused s' = viewports_paused s"
proof -
  have "SubmitChange rq s = (RpcError, s) \<or>
      (\<exists>k s'. change_result s (k, s') \<and>
         SubmitChange rq s = (if k \<le> 0 then (RpcError, s') else (RpcOk k, s')))"
    using change_result_delete [of s "rq_offset rq" "rq_length rq"]
      change_result_insert [of s "rq_offset rq" "case rq_data rq of None \<Rightarrow> [] | Some d \<Rightarrow> d"]
      change_result_overwrite [of s "rq_offset rq" "case rq_data rq of None \<Rightarrow> [] | Some d \<Rightarrow> d"]
    unfolding SubmitChange_def Let_def
    by (cases "rq_kind rq") (auto split: prod.splits if_splits)
  then consider "SubmitChange rq s = (RpcError, s)"
    | k s' where "change_result s (k, s')"
        "SubmitChange rq s = (if k \<le> 0 then (RpcError, s') else (RpcOk k, s'))" by blast
  then show ?thesis
  proof cases
    case 1 then show ?thesis by (rule refused)
  next
    case (2 k s')
    then show ?thesis
      using refused accepted [of k s'] by (cases "0 < k") (auto simp: change_result_def)
  qed
qed

lemma keeps_submit:
  assumes "\<And>st. P st \<Longrightarrow> P (countError st)"
    and "\<And>st s'. P st \<Longrightarrow> num_changes s' = num_changes (svc st) + 1 \<Longrightarrow>
      transaction_open s' = transaction_open (svc st) \<Longrightarrow>
      viewports_paused s' = viewports_paused (svc st) \<Longrightarrow> P (countStat b (st\<lparr>svc := s'\<rparr>))"
  shows "keeps P (submitChange (native_rpc nv) rq fn b)"
  unfolding valid_def
proof (intro allI impI)
  fix st :: "native_session client"
  assume "P st"
  show "case submitChange (native_rpc nv) rq fn b st of
      (Inl _, st') \<Rightarrow> P st' | (Inr _, st') \<Rightarrow> P st'"
    by (cases rq "svc st" rule: SubmitChange_cases)
      (use \<open>P st\<close> assms in \<open>auto simp: submitChange_def serialCall_def native_rpc_def\<close>)
qed

text \<open>An observation that ignores a flag is kept by the calls that set only that flag.\<close>

lemma keeps_transaction_native:
  assumes "\<And>st b. P (st\<lparr>svc := svc st\<lparr>transaction_open := b\<rparr>\<rparr>) = P st"
    and "keeps P work"
  shows "keeps P (runSessionTransaction (native_rpc nv) work)"
  unfolding runSessionTransaction_def session_calls
proof (intro keeps_bindS keeps_tryFinally assms(2))
  note upd = assms(1) [where b = True] assms(1) [where b = False]
  show "keeps P (unary ''beginSessionTransaction'' (rpc_beginTransaction (native_rpc nv)))"
    "keeps P (unary ''endSessionTransaction'' (rpc_endTransaction (native_rpc nv)))"
    by (rule valid_unary; auto simp: native_defs upd split: if_splits)+
qed

lemma keeps_batch_native:
  assumes "\<And>st b. P (st\<lparr>svc := svc st\<lparr>viewports_paused := b\<rparr>\<rparr>) = P st"
    and "keeps P work" "keeps P (runSessionTransaction (native_rpc nv) work)"
  shows "keeps P (withViewportBatch (native_rpc nv) work tr nt)"
  unfolding withViewportBatch_def session_calls
proof (intro valid_intros assms(2,3))
  note upd = assms(1) [where b = True] assms(1) [where b = False]
  show "keeps P (unary ''pauseViewportEvents'' (rpc_pauseViewportEvents (native_rpc nv)))"
    "keeps P (unary ''resumeViewportEvents'' (rpc_resumeViewportEvents (native_rpc nv)))"
    "keeps P (unary ''notifyChangedViewports'' (rpc_notifyChangedViewports (native_rpc nv)))"
    by (rule valid_unary; auto simp: native_defs upd)+
qed

text \<open>Ending a transaction closes it and resuming viewport events restores them, whatever the
  work did in between and whether it returned or threw.\<close>

lemma valid_ended_by:
  assumes "valid (\<lambda>_. True) f (\<lambda>_. E) E" "valid P b (\<lambda>_ _. True) E"
  shows "valid P (bindS b (\<lambda>_. tryFinally work f)) (\<lambda>_. E) E"
proof (rule valid_bindS [OF assms(2)])
  have "valid (\<lambda>_. True) work (\<lambda>_ _. True) (\<lambda>_. True)"
    by (simp add: valid_def split: prod.splits sum.splits)
  then show "valid (\<lambda>_. True) (tryFinally work f) (\<lambda>_. E) E"
    by (rule valid_tryFinally) (rule assms(1))+
qed

lemma closes_transaction:
  "valid (\<lambda>_. True) (runSessionTransaction (native_rpc nv) work)
     (\<lambda>_ st. \<not> transaction_open (svc st)) (\<lambda>st. \<not> transaction_open (svc st))"
proof -
  let ?C = "\<lambda>st :: native_session client. \<not> transaction_open (svc st)"
  have "valid (\<lambda>_. True) (unary ''endSessionTransaction'' (rpc_endTransaction (native_rpc nv)))
      (\<lambda>_. ?C) ?C"
    by (rule valid_unary) (auto simp: native_defs split: if_splits)
  moreover have "valid (\<lambda>_. True) (unary ''beginSessionTransaction'' (rpc_beginTransaction (native_rpc nv)))
      (\<lambda>_ _. True) ?C"
    by (rule valid_unary) (auto simp: native_defs)
  ultimately show ?thesis
    unfolding runSessionTransaction_def session_calls
    by (intro valid_ended_by)
qed





interpretation acct: change_invariant "native_rpc nv" "accounted c" for nv c
proof unfold_locales
  show "keeps (accounted c) (submitChange (native_rpc nv) rq fn b)" if "changeBump b" for rq fn b
    by (rule keeps_submit)
      (use that in \<open>auto simp: accounted_def countError_def countStat_def changeBump_def split: option.splits\<close>)
  have upd: "accounted c (st\<lparr>svc := svc st\<lparr>transaction_open := b\<rparr>\<rparr>) = accounted c st"
    "accounted c (st\<lparr>svc := svc st\<lparr>viewports_paused := b\<rparr>\<rparr>) = accounted c st" for st b
    by (simp_all add: accounted_def split: option.split)
  show "keeps (accounted c) (runSessionTransaction (native_rpc nv) work)"
    "keeps (accounted c) (withViewportBatch (native_rpc nv) work tr nt)"
    if "keeps (accounted c) work" for work :: "(native_session, int) action" and tr nt
    using that by (intro keeps_batch_native keeps_transaction_native upd; assumption)+
qed

section \<open>What an edit leaves in the session\<close>












section \<open>Properties\<close>


lemma keepsD:
  assumes "valid P m (\<lambda>_. E) E" "P st"
  shows "E (snd (m st))"
  using assms by (cases "m st"; cases "fst (m st)") (auto simp: valid_def)







text \<open>C23: the statistics account for the session's changes: across \<^verbatim>\<open>edit\<close>, successful or not, the
  sum of the delete, insert and overwrite counters grows by exactly the number of changes that
  the session recorded.\<close>

theorem edit_statistics:
  "case edit (native_rpc nv) off original edited \<lparr>svc = s, stats = Some x\<rparr> of (r, st') \<Rightarrow>
     \<exists>x'. stats st' = Some x' \<and>
       int (delete_count x' + insert_count x' + overwrite_count x') -
       int (delete_count x + insert_count x + overwrite_count x) = num_changes (svc st') - num_changes s"
proof -
  let ?c = "int (delete_count x + insert_count x + overwrite_count x) - num_changes s"
  have "accounted ?c \<lparr>svc = s, stats = Some x\<rparr>" by (simp add: accounted_def)
  from keepsD [OF acct.keeps_edit [of ?c nv off original edited] this] show ?thesis
    by (auto simp: accounted_def split: option.splits prod.splits)
qed

text \<open>C35: a \<^verbatim>\<open>replace\<close> that changes the length, made inside a transaction, ends that
  transaction: the service ignores the nested begin and obeys the nested end. The changes that
  the outer \<^verbatim>\<open>runSessionTransaction\<close> makes after it are no longer part of the transaction.\<close>

theorem replace_ends_outer_transaction:
  assumes "isSafeInt off" "isSafeInt n" "n \<noteq> 0" "w \<noteq> []" "int (length w) \<noteq> n"
  shows "\<not> transaction_open (svc (snd (replace (native_rpc nv) (NInt off) (NInt n) w st)))"
proof -
  have "replace (native_rpc nv) (NInt off) (NInt n) w = replaceWithTransaction (native_rpc nv) off n w"
    using assms by (simp add: replace_def replaceInternal_def requireSafeIntegerInput_def)
  then show ?thesis
    using keepsD [OF closes_transaction] by (simp add: replaceWithTransaction_def)
qed

theorem replace_ends_outer_transaction_witness:
  "\<not> transaction_open (svc (snd (replace (native_rpc (\<lambda>_. 0)) (NInt 0) (NInt 1) [7, 8]
      \<lparr>svc = \<lparr>content = [1, 2, 3], num_changes = 4, changes_paused = False, transaction_open = True,
         viewports_paused = False, max_change_bytes = 0\<rparr>, stats = None\<rparr>)))"
  by (rule replace_ends_outer_transaction) (simp_all add: isSafeInt_def MAX_SAFE_INTEGER_def)

end
