(* ===== verification/Editor_History.thy ===== *)
theory Editor_History
  imports JS_Prelude
begin

text \<open>
  The undo/redo bookkeeping of \<^verbatim>\<open>packages/client/src/editor_history.ts\<close>: the class
  \<^verbatim>\<open>EditorHistoryController\<close> as a record with one function per method. Arrays grow at the
  end. The executor that talks to the session is a record of functions on a state, each of
  which may reject. Depths and counters are natural numbers; the fields of a snapshot, which
  comes from outside, are JavaScript numbers.

  The locale \<open>undo_redo\<close> is the abstract contract: a past and a future of entries. It is
  interpreted on the controller, whose entries are the transactions with their own change
  records. The lemmas show that undo and redo are inverse, that a snapshot restores the
  controller, that moving to a depth keeps the timeline, and when the dirty flag is right.
\<close>

section \<open>Data\<close>

datatype EditorChangeRecordKind = INSERT | DELETE | OVERWRITE | REPLACE | TRANSFORM

record EditorChangeRecord =
  cr_serial :: int
  cr_kind :: EditorChangeRecordKind
  cr_offset :: int
  cr_length :: int
  cr_data :: ustring
  cr_groupId :: "ustring option"

record EditorCheckpointReplaceAllTransaction =
  cra_query :: ustring
  cra_isHex :: bool
  cra_caseFolding :: int
  cra_data :: ustring

datatype EditorTransactionRecord =
    LOCAL int
  | LOCAL_UNTRACKED
  | CHECKPOINT_REPLACE_ALL EditorCheckpointReplaceAllTransaction

record EditorHistoryController =
  savedChangeDepth :: nat
  changeLog :: "EditorChangeRecord list"
  undoneChangeLog :: "EditorChangeRecord list"
  transactionLog :: "EditorTransactionRecord list"
  undoneTransactionLog :: "EditorTransactionRecord list"
  nextSyntheticGroupId :: nat
  milestoneDepths :: "nat list"

record EditorEditState =
  canUndo :: bool
  canRedo :: bool
  undoCount :: nat
  redoCount :: nat
  isDirty :: bool
  es_savedChangeDepth :: nat

record EditorHistorySnapshot =
  sn_version :: jsnum
  sn_savedChangeDepth :: jsnum
  sn_changeLog :: "EditorChangeRecord list"
  sn_undoneChangeLog :: "EditorChangeRecord list"
  sn_transactionLog :: "EditorTransactionRecord list"
  sn_undoneTransactionLog :: "EditorTransactionRecord list"
  sn_nextSyntheticGroupId :: jsnum
  sn_milestoneDepths :: "jsnum list"

datatype history_error =
    InvalidSnapshot
  | DepthOutsideTimeline
  | InvalidNativeCounts
  | CannotCrossMilestone
  | ExecutorRejected

text \<open>An executor call yields whether it was fulfilled and the new state.\<close>

record 'x EditorHistoryExecutor =
  undoLocal :: "'x \<Rightarrow> bool \<times> 'x"
  redoLocal :: "'x \<Rightarrow> bool \<times> 'x"
  undoCheckpoint :: "EditorCheckpointReplaceAllTransaction \<Rightarrow> 'x \<Rightarrow> bool \<times> 'x"
  redoCheckpoint :: "EditorCheckpointReplaceAllTransaction \<Rightarrow> 'x \<Rightarrow> bool \<times> 'x"
  undoMilestone :: "('x \<Rightarrow> bool \<times> 'x) option"
  redoMilestone :: "('x \<Rightarrow> bool \<times> 'x) option"

section \<open>Methods\<close>

definition newHistory :: EditorHistoryController where
  "newHistory = \<lparr>savedChangeDepth = 0, changeLog = [], undoneChangeLog = [], transactionLog = [],
     undoneTransactionLog = [], nextSyntheticGroupId = 1, milestoneDepths = []\<rparr>"

text \<open>\<open>moveLastChanges source target count\<close> yields the two arrays after the call.\<close>

definition moveLastChanges :: "'a list \<Rightarrow> 'a list \<Rightarrow> int \<Rightarrow> 'a list \<times> 'a list" where
  "moveLastChanges source target cnt =
     (if source = [] \<or> cnt \<le> 0 then (source, target)
      else let startIndex = nat (max 0 (int (length source) - cnt))
           in (take startIndex source, target @ drop startIndex source))"

definition getEditState :: "EditorHistoryController \<Rightarrow> EditorEditState" where
  "getEditState h =
     \<lparr>canUndo = length (transactionLog h) > 0, canRedo = length (undoneTransactionLog h) > 0,
      undoCount = length (transactionLog h), redoCount = length (undoneTransactionLog h),
      isDirty = length (transactionLog h) \<noteq> savedChangeDepth h,
      es_savedChangeDepth = savedChangeDepth h\<rparr>"

definition willUndoCrossMilestone :: "EditorHistoryController \<Rightarrow> bool" where
  "willUndoCrossMilestone h \<longleftrightarrow> length (transactionLog h) \<in> set (milestoneDepths h)"

definition willRedoCrossMilestone :: "EditorHistoryController \<Rightarrow> bool" where
  "willRedoCrossMilestone h \<longleftrightarrow> length (transactionLog h) + 1 \<in> set (milestoneDepths h)"

definition snapshot :: "EditorHistoryController \<Rightarrow> EditorHistorySnapshot" where
  "snapshot h =
     \<lparr>sn_version = NInt 1, sn_savedChangeDepth = NInt (int (savedChangeDepth h)),
      sn_changeLog = changeLog h, sn_undoneChangeLog = undoneChangeLog h,
      sn_transactionLog = transactionLog h, sn_undoneTransactionLog = undoneTransactionLog h,
      sn_nextSyntheticGroupId = NInt (int (nextSyntheticGroupId h)),
      sn_milestoneDepths = map (\<lambda>d. NInt (int d)) (milestoneDepths h)\<rparr>"

definition safeAtLeast :: "int \<Rightarrow> jsnum \<Rightarrow> nat option" where
  "safeAtLeast low v =
     (case v of NInt i \<Rightarrow> if isSafeInt i \<and> low \<le> i then Some (nat i) else None | NOther _ \<Rightarrow> None)"

definition validateHistorySnapshot :: "EditorHistorySnapshot \<Rightarrow> history_error + (nat \<times> nat \<times> nat list)" where
  "validateHistorySnapshot sn =
     (let totalDepth = length (sn_transactionLog sn) + length (sn_undoneTransactionLog sn) in
      if sn_version sn \<noteq> NInt 1 then Inl InvalidSnapshot
      else case safeAtLeast 0 (sn_savedChangeDepth sn) of
        None \<Rightarrow> Inl InvalidSnapshot
      | Some saved \<Rightarrow>
          (case safeAtLeast 1 (sn_nextSyntheticGroupId sn) of
             None \<Rightarrow> Inl InvalidSnapshot
           | Some next \<Rightarrow>
               if saved > totalDepth then Inl InvalidSnapshot
               else Inr (saved, next,
                 filter (\<lambda>d. d \<le> totalDepth) (List.map_filter (safeAtLeast 0) (sn_milestoneDepths sn)))))"

definition fromSnapshot :: "EditorHistorySnapshot \<Rightarrow> history_error + EditorHistoryController" where
  "fromSnapshot sn =
     bindE (validateHistorySnapshot sn) (\<lambda>(saved, next, milestones).
       Inr \<lparr>savedChangeDepth = saved, changeLog = sn_changeLog sn,
            undoneChangeLog = sn_undoneChangeLog sn, transactionLog = sn_transactionLog sn,
            undoneTransactionLog = sn_undoneTransactionLog sn, nextSyntheticGroupId = next,
            milestoneDepths = milestones\<rparr>)"

text \<open>One round of the two loops of \<^verbatim>\<open>fromSnapshotAtDepth\<close>: the top transaction moves to the
  other log, a \<^verbatim>\<open>LOCAL\<close> one with its change records.\<close>

definition moveToUndone :: "EditorHistoryController \<Rightarrow> EditorHistoryController" where
  "moveToUndone h =
     (let t = last (transactionLog h);
          (cl, ul) = (case t of
             LOCAL n \<Rightarrow> moveLastChanges (changeLog h) (undoneChangeLog h) n
           | _ \<Rightarrow> (changeLog h, undoneChangeLog h))
      in h\<lparr>transactionLog := butlast (transactionLog h), changeLog := cl, undoneChangeLog := ul,
           undoneTransactionLog := undoneTransactionLog h @ [t]\<rparr>)"

definition moveToDone :: "EditorHistoryController \<Rightarrow> EditorHistoryController" where
  "moveToDone h =
     (let t = last (undoneTransactionLog h);
          (ul, cl) = (case t of
             LOCAL n \<Rightarrow> moveLastChanges (undoneChangeLog h) (changeLog h) n
           | _ \<Rightarrow> (undoneChangeLog h, changeLog h))
      in h\<lparr>undoneTransactionLog := butlast (undoneTransactionLog h), changeLog := cl,
           undoneChangeLog := ul, transactionLog := transactionLog h @ [t]\<rparr>)"

function rewindTo :: "nat \<Rightarrow> EditorHistoryController \<Rightarrow> EditorHistoryController" where
  "rewindTo depth h =
     (if length (transactionLog h) > depth \<and> transactionLog h \<noteq> []
      then rewindTo depth (moveToUndone h) else h)"
  by pat_completeness auto
termination
  by (relation "measure (\<lambda>(depth, h). length (transactionLog h))")
    (auto simp: moveToUndone_def Let_def split: prod.splits)

function forwardTo :: "nat \<Rightarrow> EditorHistoryController \<Rightarrow> EditorHistoryController" where
  "forwardTo depth h =
     (if length (transactionLog h) < depth \<and> undoneTransactionLog h \<noteq> []
      then forwardTo depth (moveToDone h) else h)"
  by pat_completeness auto
termination
  by (relation "measure (\<lambda>(depth, h). length (undoneTransactionLog h))")
    (auto simp: moveToDone_def Let_def split: prod.splits)

declare rewindTo.simps [simp del] forwardTo.simps [simp del]

definition fromSnapshotAtDepth ::
    "EditorHistorySnapshot \<Rightarrow> jsnum \<Rightarrow> history_error + EditorHistoryController" where
  "fromSnapshotAtDepth sn transactionDepth =
     bindE (fromSnapshot sn) (\<lambda>h.
       let totalDepth = length (transactionLog h) + length (undoneTransactionLog h) in
       case safeAtLeast 0 transactionDepth of
         None \<Rightarrow> Inl DepthOutsideTimeline
       | Some d \<Rightarrow>
           if d > totalDepth then Inl DepthOutsideTimeline
           else Inr (forwardTo d (rewindTo d h)))"

definition isCheckpointReplaceAll :: "EditorTransactionRecord \<Rightarrow> bool" where
  "isCheckpointReplaceAll t = (case t of CHECKPOINT_REPLACE_ALL _ \<Rightarrow> True | _ \<Rightarrow> False)"

definition nativeBacked :: "EditorTransactionRecord list \<Rightarrow> nat" where
  "nativeBacked ts = length (filter (\<lambda>t. \<not> isCheckpointReplaceAll t) ts)"

definition reconcileNativeTransactionCounts ::
    "jsnum \<Rightarrow> jsnum \<Rightarrow> bool \<Rightarrow> EditorHistoryController \<Rightarrow> history_error + (bool \<times> EditorHistoryController)" where
  "reconcileNativeTransactionCounts activeCount undoneCount currentStateIsSaved h =
     (case (safeAtLeast 0 activeCount, safeAtLeast 0 undoneCount) of
        (Some a, Some u) \<Rightarrow>
          if nativeBacked (transactionLog h) = a \<and> nativeBacked (undoneTransactionLog h) = u
          then Inr (False, h)
          else if list_ex isCheckpointReplaceAll (transactionLog h @ undoneTransactionLog h)
          then Inr (False, h)
          else Inr (True, h\<lparr>changeLog := [], undoneChangeLog := [],
                 transactionLog := replicate a LOCAL_UNTRACKED,
                 undoneTransactionLog := replicate u LOCAL_UNTRACKED,
                 savedChangeDepth := (if currentStateIsSaved then a else 0), milestoneDepths := []\<rparr>)
      | _ \<Rightarrow> Inl InvalidNativeCounts)"

definition discardRedoBranch :: "EditorHistoryController \<Rightarrow> EditorHistoryController" where
  "discardRedoBranch h =
     (let branchDepth = length (transactionLog h) in
      h\<lparr>undoneChangeLog := [], undoneTransactionLog := [],
        savedChangeDepth := min (savedChangeDepth h) branchDepth,
        milestoneDepths := filter (\<lambda>d. \<not> d > branchDepth) (milestoneDepths h)\<rparr>)"

definition recordLocalChanges ::
    "EditorChangeRecord list \<Rightarrow> EditorHistoryController \<Rightarrow> EditorHistoryController" where
  "recordLocalChanges changes h =
     (if changes = [] then h
      else let h' = discardRedoBranch h in
           h'\<lparr>changeLog := changeLog h' @ changes,
              transactionLog := transactionLog h' @ [LOCAL (int (length changes))]\<rparr>)"

definition recordLocalChange :: "EditorChangeRecord \<Rightarrow> EditorHistoryController \<Rightarrow> EditorHistoryController" where
  "recordLocalChange change h = recordLocalChanges [change] h"

definition recordMilestone :: "EditorHistoryController \<Rightarrow> EditorHistoryController" where
  "recordMilestone h =
     (let depth = length (transactionLog h) in
      if depth > 0 \<and> (milestoneDepths h = [] \<or> last (milestoneDepths h) \<noteq> depth)
      then h\<lparr>milestoneDepths := milestoneDepths h @ [depth]\<rparr> else h)"

definition recordLocalMutation :: "EditorHistoryController \<Rightarrow> EditorHistoryController" where
  "recordLocalMutation h =
     (let h' = discardRedoBranch h in h'\<lparr>transactionLog := transactionLog h' @ [LOCAL_UNTRACKED]\<rparr>)"

definition recordLocalReplaceAll ::
    "int list \<Rightarrow> int \<Rightarrow> ustring \<Rightarrow> EditorHistoryController \<Rightarrow> EditorHistoryController" where
  "recordLocalReplaceAll offsets len data h =
     (if offsets = [] then h
      else let groupId = lit ''replace-all-'' @ natDigits (nextSyntheticGroupId h);
               h' = h\<lparr>nextSyntheticGroupId := Suc (nextSyntheticGroupId h)\<rparr>
           in recordLocalChanges
                (map (\<lambda>(index, off). \<lparr>cr_serial = int index + 1, cr_kind = REPLACE, cr_offset = off,
                     cr_length = len, cr_data = data, cr_groupId = Some groupId\<rparr>)
                  (enumerate 0 offsets)) h')"

definition recordCheckpointReplaceAll ::
    "EditorCheckpointReplaceAllTransaction \<Rightarrow> EditorHistoryController \<Rightarrow> EditorHistoryController" where
  "recordCheckpointReplaceAll transaction h =
     (let h' = discardRedoBranch h
      in h'\<lparr>transactionLog := transactionLog h' @ [CHECKPOINT_REPLACE_ALL transaction]\<rparr>)"

definition markSaved :: "EditorHistoryController \<Rightarrow> EditorHistoryController" where
  "markSaved h = h\<lparr>savedChangeDepth := length (transactionLog h)\<rparr>"

text \<open>\<^verbatim>\<open>undo\<close> and \<^verbatim>\<open>redo\<close> thread the controller and the executor's state; a rejection of the
  executor leaves the method at that point.\<close>

definition history_undo ::
    "'x EditorHistoryExecutor \<Rightarrow> EditorHistoryController \<times> 'x \<Rightarrow>
     (history_error + bool) \<times> EditorHistoryController \<times> 'x" where
  "history_undo ex = (\<lambda>(h, x).
     if transactionLog h = [] then (Inr False, h, x)
     else
       let crossing = (if length (transactionLog h) \<in> set (milestoneDepths h)
                       then (case undoMilestone ex of
                               None \<Rightarrow> (Inl CannotCrossMilestone, x)
                             | Some f \<Rightarrow> (case f x of (ok, x1) \<Rightarrow>
                                 (if ok then Inr () else Inl ExecutorRejected, x1)))
                       else (Inr (), x))
       in case crossing of
            (Inl e, x1) \<Rightarrow> (Inl e, h, x1)
          | (Inr _, x1) \<Rightarrow>
              (let t = last (transactionLog h);
                   (ok, x2) = (case t of
                      CHECKPOINT_REPLACE_ALL c \<Rightarrow> undoCheckpoint ex c x1
                    | _ \<Rightarrow> undoLocal ex x1)
               in if \<not> ok then (Inl ExecutorRejected, h, x2)
                  else (Inr True, moveToUndone h, x2)))"

definition history_redo ::
    "'x EditorHistoryExecutor \<Rightarrow> EditorHistoryController \<times> 'x \<Rightarrow>
     (history_error + bool) \<times> EditorHistoryController \<times> 'x" where
  "history_redo ex = (\<lambda>(h, x).
     if undoneTransactionLog h = [] then (Inr False, h, x)
     else
       let t = last (undoneTransactionLog h);
           (ok, x1) = (case t of
              CHECKPOINT_REPLACE_ALL c \<Rightarrow> redoCheckpoint ex c x
            | _ \<Rightarrow> redoLocal ex x)
       in if \<not> ok then (Inl ExecutorRejected, h, x1)
          else
            let h' = moveToDone h in
            if length (transactionLog h') \<in> set (milestoneDepths h')
            then (case redoMilestone ex of
                    None \<Rightarrow> (Inl CannotCrossMilestone, h', x1)
                  | Some f \<Rightarrow> (case f x1 of (ok2, x2) \<Rightarrow>
                      (if ok2 then Inr True else Inl ExecutorRejected, h', x2)))
            else (Inr True, h', x1))"

section \<open>The abstract contract\<close>

text \<open>A history has a past and a future of entries; both grow at the end.\<close>

locale undo_redo =
  fixes ok :: "'h \<Rightarrow> bool" and past future :: "'h \<Rightarrow> 'e list" and undo1 redo1 :: "'h \<Rightarrow> 'h"
  assumes ok_undo: "ok h \<Longrightarrow> past h \<noteq> [] \<Longrightarrow> ok (undo1 h)"
    and past_undo: "ok h \<Longrightarrow> past h \<noteq> [] \<Longrightarrow> past (undo1 h) = butlast (past h)"
    and future_undo: "ok h \<Longrightarrow> past h \<noteq> [] \<Longrightarrow> future (undo1 h) = future h @ [last (past h)]"
    and ok_redo: "ok h \<Longrightarrow> future h \<noteq> [] \<Longrightarrow> ok (redo1 h)"
    and past_redo: "ok h \<Longrightarrow> future h \<noteq> [] \<Longrightarrow> past (redo1 h) = past h @ [last (future h)]"
    and future_redo: "ok h \<Longrightarrow> future h \<noteq> [] \<Longrightarrow> future (redo1 h) = butlast (future h)"
begin

abbreviation timeline :: "'h \<Rightarrow> 'e list" where
  "timeline h \<equiv> past h @ rev (future h)"

lemma timeline_undo: "ok h \<Longrightarrow> past h \<noteq> [] \<Longrightarrow> timeline (undo1 h) = timeline h"
  by (simp add: past_undo future_undo append_assoc [symmetric] del: append_assoc)

lemma timeline_redo: "ok h \<Longrightarrow> future h \<noteq> [] \<Longrightarrow> timeline (redo1 h) = timeline h"
  by (cases "future h" rule: rev_cases) (simp_all add: past_redo future_redo)

lemma undo_steps:
  "ok h \<Longrightarrow> n \<le> length (past h) \<Longrightarrow>
   ok ((undo1 ^^ n) h) \<and> timeline ((undo1 ^^ n) h) = timeline h \<and>
   length (past ((undo1 ^^ n) h)) = length (past h) - n"
proof (induction n)
  case (Suc n)
  then have IH: "ok ((undo1 ^^ n) h)" "timeline ((undo1 ^^ n) h) = timeline h"
    "length (past ((undo1 ^^ n) h)) = length (past h) - n" by simp_all
  moreover from this Suc.prems have "past ((undo1 ^^ n) h) \<noteq> []" by auto
  ultimately show ?case
    using timeline_undo by (simp add: ok_undo past_undo)
qed simp

lemma redo_steps:
  "ok h \<Longrightarrow> n \<le> length (future h) \<Longrightarrow>
   ok ((redo1 ^^ n) h) \<and> timeline ((redo1 ^^ n) h) = timeline h \<and>
   length (past ((redo1 ^^ n) h)) = length (past h) + n"
proof (induction n)
  case (Suc n)
  then have IH: "ok ((redo1 ^^ n) h)" "timeline ((redo1 ^^ n) h) = timeline h"
    "length (past ((redo1 ^^ n) h)) = length (past h) + n" by simp_all
  have "length (future ((redo1 ^^ n) h)) = length (future h) - n"
    using arg_cong [OF IH(2), of length] IH(3) by simp
  with Suc.prems have "future ((redo1 ^^ n) h) \<noteq> []" by auto
  with IH show ?case
    using timeline_redo by (simp add: ok_redo past_redo)
qed simp

text \<open>The depth and the timeline determine both stacks.\<close>

lemma stacks_of_depth:
  "timeline h = timeline h' \<Longrightarrow> length (past h) = length (past h') \<Longrightarrow>
   past h = past h' \<and> future h = future h'"
  by (metis append_eq_append_conv rev_swap)

lemma redo_undo_steps:
  assumes "ok h" "n \<le> length (past h)"
  shows "past ((redo1 ^^ n) ((undo1 ^^ n) h)) = past h \<and> future ((redo1 ^^ n) ((undo1 ^^ n) h)) = future h"
proof -
  let ?u = "(undo1 ^^ n) h"
  have u: "ok ?u" "timeline ?u = timeline h" "length (past ?u) = length (past h) - n"
    using undo_steps [OF assms] by simp_all
  then have "n \<le> length (future ?u)"
    using arg_cong [OF u(2), of length] u(3) assms(2) unfolding length_append length_rev by linarith
  from redo_steps [OF u(1) this] u assms(2) show ?thesis
    by (intro stacks_of_depth) simp_all
qed

end

section \<open>Transactions with their change records\<close>

text \<open>The change records of a log are those of its \<^verbatim>\<open>LOCAL\<close> transactions, in order; \<open>blocks\<close> gives
  each transaction its own.\<close>

definition changesOf :: "EditorTransactionRecord \<Rightarrow> nat" where
  "changesOf t = (case t of LOCAL n \<Rightarrow> nat n | _ \<Rightarrow> 0)"

fun blocks ::
    "EditorTransactionRecord list \<Rightarrow> EditorChangeRecord list \<Rightarrow>
     (EditorTransactionRecord \<times> EditorChangeRecord list) list" where
  "blocks [] cs = []"
| "blocks (t # ts) cs = (t, take (changesOf t) cs) # blocks ts (drop (changesOf t) cs)"

definition log_ok :: "EditorTransactionRecord list \<Rightarrow> EditorChangeRecord list \<Rightarrow> bool" where
  "log_ok ts cs \<longleftrightarrow> length cs = sum_list (map changesOf ts) \<and>
     list_all (\<lambda>t. case t of LOCAL n \<Rightarrow> 0 < n | _ \<Rightarrow> True) ts"

definition history_ok :: "EditorHistoryController \<Rightarrow> bool" where
  "history_ok h \<longleftrightarrow> log_ok (transactionLog h) (changeLog h) \<and>
     log_ok (undoneTransactionLog h) (undoneChangeLog h) \<and>
     savedChangeDepth h \<le> length (transactionLog h) + length (undoneTransactionLog h) \<and>
     1 \<le> nextSyntheticGroupId h \<and>
     list_all (\<lambda>d. 0 < d \<and> d \<le> length (transactionLog h) + length (undoneTransactionLog h))
       (milestoneDepths h)"

definition past :: "EditorHistoryController \<Rightarrow> (EditorTransactionRecord \<times> EditorChangeRecord list) list" where
  "past h = blocks (transactionLog h) (changeLog h)"

definition future :: "EditorHistoryController \<Rightarrow> (EditorTransactionRecord \<times> EditorChangeRecord list) list" where
  "future h = blocks (undoneTransactionLog h) (undoneChangeLog h)"

lemma length_blocks [simp]: "length (blocks ts cs) = length ts"
  by (induction ts arbitrary: cs) simp_all

lemma blocks_Nil_iff [simp]: "blocks ts cs = [] \<longleftrightarrow> ts = []"
  by (cases ts) simp_all

lemma fst_blocks: "map fst (blocks ts cs) = ts"
  by (induction ts arbitrary: cs) simp_all

lemma concat_blocks: "length cs = sum_list (map changesOf ts) \<Longrightarrow> concat (map snd (blocks ts cs)) = cs"
  by (induction ts arbitrary: cs) simp_all

lemma blocks_snoc:
  "log_ok ts cs \<Longrightarrow> changesOf t = length ds \<Longrightarrow> blocks (ts @ [t]) (cs @ ds) = blocks ts cs @ [(t, ds)]"
  by (induction ts arbitrary: cs) (simp_all add: log_ok_def)

lemma log_ok_snoc:
  "log_ok (ts @ [t]) cs \<longleftrightarrow>
   (\<exists>cs1 ds. cs = cs1 @ ds \<and> log_ok ts cs1 \<and> length ds = changesOf t \<and>
      (case t of LOCAL n \<Rightarrow> 0 < n | _ \<Rightarrow> True))"
proof
  assume ok: "log_ok (ts @ [t]) cs"
  let ?k = "sum_list (map changesOf ts)"
  have "cs = take ?k cs @ drop ?k cs" "log_ok ts (take ?k cs)" "length (drop ?k cs) = changesOf t"
    using ok by (simp_all add: log_ok_def)
  with ok show "\<exists>cs1 ds. cs = cs1 @ ds \<and> log_ok ts cs1 \<and> length ds = changesOf t \<and>
      (case t of LOCAL n \<Rightarrow> 0 < n | _ \<Rightarrow> True)"
    unfolding log_ok_def by (metis list_all_append list.pred_inject(2))
qed (auto simp: log_ok_def)

lemma moveLastChanges_block:
  assumes "int (length ds) = n" "0 < n"
  shows "moveLastChanges (cs @ ds) us n = (cs, us @ ds)"
  using assms by (auto simp: moveLastChanges_def nat_diff_distrib')

text \<open>Moving the top transaction moves exactly its block.\<close>

lemma moveToUndone_block:
  assumes "log_ok (ts @ [t]) cs" "log_ok us ucs"
    and "transactionLog h = ts @ [t]" "changeLog h = cs"
    and "undoneTransactionLog h = us" "undoneChangeLog h = ucs"
  obtains cs1 ds where "cs = cs1 @ ds" "length ds = changesOf t" "log_ok ts cs1" "log_ok (us @ [t]) (ucs @ ds)"
    "moveToUndone h = h\<lparr>transactionLog := ts, changeLog := cs1, undoneChangeLog := ucs @ ds,
       undoneTransactionLog := us @ [t]\<rparr>"
proof -
  from assms(1) obtain cs1 ds where dec: "cs = cs1 @ ds" "log_ok ts cs1" "length ds = changesOf t"
    "case t of LOCAL n \<Rightarrow> 0 < n | _ \<Rightarrow> True" by (auto simp: log_ok_snoc)
  have "log_ok (us @ [t]) (ucs @ ds)" using dec assms(2) by (auto simp: log_ok_snoc)
  moreover have "moveToUndone h = h\<lparr>transactionLog := ts, changeLog := cs1, undoneChangeLog := ucs @ ds,
       undoneTransactionLog := us @ [t]\<rparr>"
    using dec assms(3-6) by (cases t) (simp_all add: moveToUndone_def moveLastChanges_block changesOf_def)
  ultimately show ?thesis using that dec by blast
qed

lemma moveToDone_block:
  assumes "log_ok (us @ [t]) ucs" "log_ok ts cs"
    and "transactionLog h = ts" "changeLog h = cs"
    and "undoneTransactionLog h = us @ [t]" "undoneChangeLog h = ucs"
  obtains ucs1 ds where "ucs = ucs1 @ ds" "length ds = changesOf t" "log_ok us ucs1" "log_ok (ts @ [t]) (cs @ ds)"
    "moveToDone h = h\<lparr>transactionLog := ts @ [t], changeLog := cs @ ds, undoneChangeLog := ucs1,
       undoneTransactionLog := us\<rparr>"
proof -
  from assms(1) obtain ucs1 ds where dec: "ucs = ucs1 @ ds" "log_ok us ucs1" "length ds = changesOf t"
    "case t of LOCAL n \<Rightarrow> 0 < n | _ \<Rightarrow> True" by (auto simp: log_ok_snoc)
  have "log_ok (ts @ [t]) (cs @ ds)" using dec assms(2) by (auto simp: log_ok_snoc)
  moreover have "moveToDone h = h\<lparr>transactionLog := ts @ [t], changeLog := cs @ ds, undoneChangeLog := ucs1,
       undoneTransactionLog := us\<rparr>"
    using dec assms(3-6) by (cases t) (simp_all add: moveToDone_def moveLastChanges_block changesOf_def)
  ultimately show ?thesis using that dec by blast
qed

lemma undo_view:
  assumes "history_ok h" "transactionLog h \<noteq> []"
  shows "history_ok (moveToUndone h) \<and> past (moveToUndone h) = butlast (past h) \<and>
    future (moveToUndone h) = future h @ [last (past h)] \<and> savedChangeDepth (moveToUndone h) = savedChangeDepth h"
proof -
  obtain ts t where tl: "transactionLog h = ts @ [t]"
    using assms(2) by (cases "transactionLog h" rule: rev_cases) auto
  have ok: "log_ok (ts @ [t]) (changeLog h)" "log_ok (undoneTransactionLog h) (undoneChangeLog h)"
    using assms(1) tl by (simp_all add: history_ok_def)
  from moveToUndone_block [OF ok tl refl refl refl] obtain cs1 ds where
    "changeLog h = cs1 @ ds" "length ds = changesOf t" "log_ok ts cs1"
    "log_ok (undoneTransactionLog h @ [t]) (undoneChangeLog h @ ds)"
    "moveToUndone h = h\<lparr>transactionLog := ts, changeLog := cs1, undoneChangeLog := undoneChangeLog h @ ds,
       undoneTransactionLog := undoneTransactionLog h @ [t]\<rparr>" by metis
  with assms(1) ok tl show ?thesis
    by (simp add: history_ok_def past_def future_def blocks_snoc)
qed

lemma redo_view:
  assumes "history_ok h" "undoneTransactionLog h \<noteq> []"
  shows "history_ok (moveToDone h) \<and> past (moveToDone h) = past h @ [last (future h)] \<and>
    future (moveToDone h) = butlast (future h) \<and> savedChangeDepth (moveToDone h) = savedChangeDepth h"
proof -
  obtain us t where tl: "undoneTransactionLog h = us @ [t]"
    using assms(2) by (cases "undoneTransactionLog h" rule: rev_cases) auto
  have ok: "log_ok (us @ [t]) (undoneChangeLog h)" "log_ok (transactionLog h) (changeLog h)"
    using assms(1) tl by (simp_all add: history_ok_def)
  from moveToDone_block [OF ok refl refl tl refl] obtain ucs1 ds where
    "undoneChangeLog h = ucs1 @ ds" "length ds = changesOf t" "log_ok us ucs1"
    "log_ok (transactionLog h @ [t]) (changeLog h @ ds)"
    "moveToDone h = h\<lparr>transactionLog := transactionLog h @ [t], changeLog := changeLog h @ ds,
       undoneChangeLog := ucs1, undoneTransactionLog := us\<rparr>" by metis
  with assms(1) ok tl show ?thesis
    by (simp add: history_ok_def past_def future_def blocks_snoc)
qed

lemma past_Nil_iff: "past h = [] \<longleftrightarrow> transactionLog h = []"
  by (simp add: past_def)

lemma future_Nil_iff: "future h = [] \<longleftrightarrow> undoneTransactionLog h = []"
  by (simp add: future_def)

interpretation hist: undo_redo history_ok past future moveToUndone moveToDone
  by unfold_locales (simp_all add: past_Nil_iff future_Nil_iff undo_view redo_view)

text \<open>The views determine the logs.\<close>

lemma logs_of_views:
  assumes "history_ok h" "history_ok h'" "past h = past h'" "future h = future h'"
  shows "transactionLog h = transactionLog h' \<and> changeLog h = changeLog h' \<and>
     undoneTransactionLog h = undoneTransactionLog h' \<and> undoneChangeLog h = undoneChangeLog h'"
  using assms fst_blocks concat_blocks unfolding history_ok_def log_ok_def past_def future_def by metis

section \<open>Undo, redo and recording\<close>

lemma moveToDone_moveToUndone:
  assumes "history_ok h" "transactionLog h \<noteq> []"
  shows "moveToDone (moveToUndone h) = h"
proof -
  let ?h = "moveToDone (moveToUndone h)"
  note u = undo_view [OF assms]
  have ne: "undoneTransactionLog (moveToUndone h) \<noteq> []"
    by (simp add: moveToUndone_def Let_def split: prod.splits)
  note r = redo_view [OF conjunct1 [OF u] ne]
  have "past ?h = past h" "future ?h = future h"
    using u r assms by (simp_all add: past_Nil_iff)
  with logs_of_views [of ?h h] r assms(1) have
    "transactionLog ?h = transactionLog h" "changeLog ?h = changeLog h"
    "undoneTransactionLog ?h = undoneTransactionLog h" "undoneChangeLog ?h = undoneChangeLog h"
    by simp_all
  moreover have "savedChangeDepth ?h = savedChangeDepth h" "nextSyntheticGroupId ?h = nextSyntheticGroupId h"
    "milestoneDepths ?h = milestoneDepths h"
    by (simp_all add: moveToDone_def moveToUndone_def Let_def split: prod.splits)
  ultimately show ?thesis by simp
qed

text \<open>Whatever the executor does, the controller is moved one transaction or not at all.\<close>

lemma history_undo_cases:
  assumes "history_undo ex (h, x) = (r, h', x')"
  shows "transactionLog h \<noteq> [] \<and> r = Inr True \<and> h' = moveToUndone h \<or> h' = h \<and> r \<noteq> Inr True"
  using assms by (auto simp: history_undo_def Let_def split: if_splits prod.splits sum.splits option.splits)

lemma history_redo_cases:
  assumes "history_redo ex (h, x) = (r, h', x')"
  shows "undoneTransactionLog h \<noteq> [] \<and> h' = moveToDone h \<or> h' = h \<and> r \<noteq> Inr True"
  using assms by (auto simp: history_redo_def Let_def split: if_splits prod.splits sum.splits option.splits)

text \<open>Every recording operation discards the future and adds one entry to the past.\<close>

definition records :: "EditorHistoryController \<Rightarrow> EditorHistoryController \<Rightarrow> bool" where
  "records h h' \<longleftrightarrow> history_ok h' \<and> (\<exists>e. past h' = past h @ [e]) \<and> future h' = [] \<and>
     savedChangeDepth h' = min (savedChangeDepth h) (length (past h))"

lemma discard_then_append:
  assumes "history_ok h" "case t of LOCAL n \<Rightarrow> 0 < n | _ \<Rightarrow> True" "changesOf t = length ds"
    and "h' = (discardRedoBranch h)\<lparr>changeLog := changeLog h @ ds, transactionLog := transactionLog h @ [t],
           nextSyntheticGroupId := g\<rparr>" "1 \<le> g"
  shows "records h h'"
proof -
  have "log_ok (transactionLog h @ [t]) (changeLog h @ ds)"
    unfolding log_ok_snoc using assms(1-3) by (auto simp: history_ok_def)
  then show ?thesis
    using assms by (auto simp: records_def history_ok_def discardRedoBranch_def Let_def past_def future_def
        blocks_snoc list_all_iff log_ok_def [of "[]"])
qed

lemma records_recordLocalChanges:
  assumes "history_ok h" "cs \<noteq> []"
  shows "records h (recordLocalChanges cs h)"
  using assms
  by (intro discard_then_append [where t = "LOCAL (int (length cs))" and ds = cs and g = "nextSyntheticGroupId h"])
    (simp_all add: recordLocalChanges_def changesOf_def discardRedoBranch_def Let_def history_ok_def)

lemma records_recordLocalMutation:
  assumes "history_ok h"
  shows "records h (recordLocalMutation h)"
  using assms
  by (intro discard_then_append [where t = LOCAL_UNTRACKED and ds = "[]" and g = "nextSyntheticGroupId h"])
    (simp_all add: recordLocalMutation_def changesOf_def discardRedoBranch_def Let_def history_ok_def)

lemma records_recordCheckpointReplaceAll:
  assumes "history_ok h"
  shows "records h (recordCheckpointReplaceAll c h)"
  using assms
  by (intro discard_then_append [where t = "CHECKPOINT_REPLACE_ALL c" and ds = "[]" and g = "nextSyntheticGroupId h"])
    (simp_all add: recordCheckpointReplaceAll_def changesOf_def discardRedoBranch_def Let_def history_ok_def)

lemma records_recordLocalReplaceAll:
  assumes "history_ok h" "offs \<noteq> []"
  shows "records h (recordLocalReplaceAll offs len data h)"
proof -
  have "history_ok (h\<lparr>nextSyntheticGroupId := Suc (nextSyntheticGroupId h)\<rparr>)"
    using assms(1) by (simp add: history_ok_def)
  moreover have "enumerate 0 offs \<noteq> []" using assms(2) by (cases offs) simp_all
  ultimately show ?thesis
    using records_recordLocalChanges [of "h\<lparr>nextSyntheticGroupId := Suc (nextSyntheticGroupId h)\<rparr>"] assms(2)
    by (simp add: recordLocalReplaceAll_def Let_def records_def past_def)
qed

lemma recordMilestone_view:
  "history_ok h \<Longrightarrow> history_ok (recordMilestone h) \<and> past (recordMilestone h) = past h \<and>
   future (recordMilestone h) = future h \<and> savedChangeDepth (recordMilestone h) = savedChangeDepth h"
  by (auto simp: recordMilestone_def Let_def history_ok_def past_def future_def list_all_iff)

lemma markSaved_view:
  "history_ok h \<Longrightarrow> history_ok (markSaved h) \<and> past (markSaved h) = past h \<and>
   future (markSaved h) = future h \<and> savedChangeDepth (markSaved h) = length (past h)"
  by (simp add: markSaved_def history_ok_def past_def future_def)

section \<open>Sessions of editing\<close>

text \<open>
  A session of editing: any sequence of recordings, milestones, saves, undos and redos, with
  an executor that may reject. Next to the controller the state carries the entries that the
  last save wrote, and whether a recording has since cut them off (\<open>lost\<close>).
\<close>

record tracked =
  ctl :: EditorHistoryController
  savedEntries :: "(EditorTransactionRecord \<times> EditorChangeRecord list) list"
  lost :: bool

definition recorded :: "tracked \<Rightarrow> EditorHistoryController \<Rightarrow> tracked" where
  "recorded s h' = s\<lparr>ctl := h', lost := lost s \<or> savedChangeDepth (ctl s) > length (transactionLog (ctl s))\<rparr>"

inductive editing :: "'x EditorHistoryExecutor \<Rightarrow> tracked \<Rightarrow> bool" for ex where
  start: "editing ex \<lparr>ctl = newHistory, savedEntries = [], lost = False\<rparr>"
| changes: "editing ex s \<Longrightarrow> cs \<noteq> [] \<Longrightarrow> editing ex (recorded s (recordLocalChanges cs (ctl s)))"
| mutation: "editing ex s \<Longrightarrow> editing ex (recorded s (recordLocalMutation (ctl s)))"
| replace_all: "editing ex s \<Longrightarrow> offs \<noteq> [] \<Longrightarrow>
    editing ex (recorded s (recordLocalReplaceAll offs len data (ctl s)))"
| checkpoint: "editing ex s \<Longrightarrow> editing ex (recorded s (recordCheckpointReplaceAll c (ctl s)))"
| milestone: "editing ex s \<Longrightarrow> editing ex (s\<lparr>ctl := recordMilestone (ctl s)\<rparr>)"
| save: "editing ex s \<Longrightarrow>
    editing ex (s\<lparr>ctl := markSaved (ctl s), savedEntries := past (ctl s), lost := False\<rparr>)"
| undo: "editing ex s \<Longrightarrow> history_undo ex (ctl s, x) = (r, h', x') \<Longrightarrow> editing ex (s\<lparr>ctl := h'\<rparr>)"
| redo: "editing ex s \<Longrightarrow> history_redo ex (ctl s, x) = (r, h', x') \<Longrightarrow> editing ex (s\<lparr>ctl := h'\<rparr>)"

definition wholeTimeline ::
    "EditorHistoryController \<Rightarrow> (EditorTransactionRecord \<times> EditorChangeRecord list) list" where
  "wholeTimeline h = past h @ rev (future h)"

lemma wholeTimeline_undo:
  "history_ok h \<Longrightarrow> transactionLog h \<noteq> [] \<Longrightarrow> wholeTimeline (moveToUndone h) = wholeTimeline h"
  using hist.timeline_undo by (simp add: wholeTimeline_def past_Nil_iff)

lemma wholeTimeline_redo:
  "history_ok h \<Longrightarrow> undoneTransactionLog h \<noteq> [] \<Longrightarrow> wholeTimeline (moveToDone h) = wholeTimeline h"
  using hist.timeline_redo by (simp add: wholeTimeline_def future_Nil_iff)

definition tracked_ok :: "tracked \<Rightarrow> bool" where
  "tracked_ok s \<longleftrightarrow> history_ok (ctl s) \<and>
     (\<not> lost s \<longrightarrow> take (savedChangeDepth (ctl s)) (wholeTimeline (ctl s)) = savedEntries s)"

lemma tracked_ok_recorded:
  assumes "tracked_ok s" "records (ctl s) h'"
  shows "tracked_ok (recorded s h')"
proof -
  obtain e where h': "history_ok h'" "past h' = past (ctl s) @ [e]" "future h' = []"
    "savedChangeDepth h' = min (savedChangeDepth (ctl s)) (length (past (ctl s)))"
    using assms(2) by (auto simp: records_def)
  show ?thesis
    using assms(1) h' by (auto simp: tracked_ok_def recorded_def wholeTimeline_def past_def [of "ctl s"] min_def)
qed

lemma editing_tracked_ok: "editing ex s \<Longrightarrow> tracked_ok s"
proof (induction rule: editing.induct)
  case start
  then show ?case
    by (simp add: tracked_ok_def history_ok_def newHistory_def log_ok_def wholeTimeline_def past_def future_def)
next
  case (changes s cs)
  then show ?case
    by (intro tracked_ok_recorded records_recordLocalChanges) (simp_all add: tracked_ok_def)
next
  case (mutation s)
  then show ?case
    by (intro tracked_ok_recorded records_recordLocalMutation) (simp_all add: tracked_ok_def)
next
  case (replace_all s offs len data)
  then show ?case
    by (intro tracked_ok_recorded records_recordLocalReplaceAll) (simp_all add: tracked_ok_def)
next
  case (checkpoint s c)
  then show ?case
    by (intro tracked_ok_recorded records_recordCheckpointReplaceAll) (simp_all add: tracked_ok_def)
next
  case (milestone s)
  then show ?case by (simp add: tracked_ok_def wholeTimeline_def recordMilestone_view)
next
  case (save s)
  then show ?case by (simp add: tracked_ok_def wholeTimeline_def markSaved_view)
next
  case (undo s x r h' x')
  then show ?case
    using history_undo_cases [OF undo(2)] undo_view [of "ctl s"] wholeTimeline_undo [of "ctl s"]
    by (auto simp: tracked_ok_def)
next
  case (redo s x r h' x')
  then show ?case
    using history_redo_cases [OF redo(2)] redo_view [of "ctl s"] wholeTimeline_redo [of "ctl s"]
    by (auto simp: tracked_ok_def)
qed

section \<open>Snapshots and depths\<close>

lemma safeAtLeast_int [simp]:
  "safeAtLeast low (NInt (int n)) = (if int n \<le> MAX_SAFE_INTEGER \<and> low \<le> int n then Some n else None)"
  by (auto simp: safeAtLeast_def isSafeInt_def MAX_SAFE_INTEGER_def)

lemma map_filter_safe:
  "(\<And>d. d \<in> set ds \<Longrightarrow> int d \<le> MAX_SAFE_INTEGER) \<Longrightarrow>
   List.map_filter (safeAtLeast 0) (map (\<lambda>d. NInt (int d)) ds) = ds"
  by (induction ds) (simp_all add: map_filter_simps)

text \<open>All counters of the controller are safe integers.\<close>

definition safe_counts :: "EditorHistoryController \<Rightarrow> bool" where
  "safe_counts h \<longleftrightarrow> int (length (transactionLog h) + length (undoneTransactionLog h)) \<le> MAX_SAFE_INTEGER \<and>
     int (nextSyntheticGroupId h) \<le> MAX_SAFE_INTEGER"

lemma fromSnapshot_snapshot:
  assumes "history_ok h" "safe_counts h"
  shows "fromSnapshot (snapshot h) = Inr h"
proof -
  have depths: "\<And>d. d \<in> set (milestoneDepths h) \<Longrightarrow>
      d \<le> length (transactionLog h) + length (undoneTransactionLog h) \<and> int d \<le> MAX_SAFE_INTEGER"
    using assms by (fastforce simp: history_ok_def list_all_iff safe_counts_def)
  then have "List.map_filter (safeAtLeast 0) (map (\<lambda>d. NInt (int d)) (milestoneDepths h)) = milestoneDepths h"
    by (intro map_filter_safe) blast
  then show ?thesis
    using assms depths
    by (simp add: fromSnapshot_def validateHistorySnapshot_def snapshot_def history_ok_def safe_counts_def
        filter_id_conv)
qed

lemma rewindTo_view:
  assumes "history_ok h"
  shows "history_ok (rewindTo d h) \<and> wholeTimeline (rewindTo d h) = wholeTimeline h \<and>
    savedChangeDepth (rewindTo d h) = savedChangeDepth h \<and>
    length (transactionLog (rewindTo d h)) = min d (length (transactionLog h))"
  using assms
proof (induction d h rule: rewindTo.induct)
  case (1 d h)
  show ?case
  proof (cases "d < length (transactionLog h) \<and> transactionLog h \<noteq> []")
    case True
    note u = undo_view [OF "1.prems" conjunct2 [OF True]]
    have "length (past (moveToUndone h)) = length (past h) - 1" using u by simp
    then have "length (transactionLog (moveToUndone h)) = length (transactionLog h) - 1"
      by (simp add: past_def)
    with "1.IH" [OF True] u True wholeTimeline_undo [OF "1.prems"] show ?thesis
      by (auto simp: rewindTo.simps [of d h])
  next
    case False
    with "1.prems" show ?thesis by (auto simp: rewindTo.simps [of d h])
  qed
qed

lemma forwardTo_view:
  assumes "history_ok h" "d \<le> length (wholeTimeline h)"
  shows "history_ok (forwardTo d h) \<and> wholeTimeline (forwardTo d h) = wholeTimeline h \<and>
    savedChangeDepth (forwardTo d h) = savedChangeDepth h \<and>
    length (transactionLog (forwardTo d h)) = max d (length (transactionLog h))"
  using assms
proof (induction d h rule: forwardTo.induct)
  case (1 d h)
  show ?case
  proof (cases "length (transactionLog h) < d")
    case True
    then have more: "length (transactionLog h) < d \<and> undoneTransactionLog h \<noteq> []"
      using "1.prems"(2) by (auto simp: wholeTimeline_def past_def future_def)
    note r = redo_view [OF "1.prems"(1) conjunct2 [OF more]]
    have "length (past (moveToDone h)) = length (past h) + 1" using r by simp
    then have "length (transactionLog (moveToDone h)) = length (transactionLog h) + 1"
      by (simp add: past_def)
    with "1.IH" [OF more] r more wholeTimeline_redo [OF "1.prems"(1)] "1.prems"(2) show ?thesis
      by (auto simp: forwardTo.simps [of d h])
  next
    case False
    with "1.prems" show ?thesis by (auto simp: forwardTo.simps [of d h])
  qed
qed

lemma length_wholeTimeline:
  "length (wholeTimeline h) = length (transactionLog h) + length (undoneTransactionLog h)"
  by (simp add: wholeTimeline_def past_def future_def)

section \<open>Properties\<close>

text \<open>C7: undo followed by redo is the identity: whenever \<^verbatim>\<open>undo\<close> answers true, and the executor
  then fulfils the redo of the same transaction, the controller is exactly what it was,
  change records, milestones and saved depth included.\<close>

theorem redo_after_undo:
  assumes "history_ok h" "history_undo ex (h, x) = (Inr True, h1, x1)"
    and "history_redo ex (h1, x1) = (Inr True, h2, x2)"
  shows "h2 = h"
proof -
  have h1: "transactionLog h \<noteq> []" "h1 = moveToUndone h"
    using history_undo_cases [OF assms(2)] by auto
  have "h2 = moveToDone h1" using history_redo_cases [OF assms(3)] by simp
  with h1 moveToDone_moveToUndone [OF assms(1)] show ?thesis by simp
qed

text \<open>An executor that fulfils everything.\<close>

definition fulfilling :: "unit EditorHistoryExecutor" where
  "fulfilling = \<lparr>undoLocal = (\<lambda>x. (True, x)), redoLocal = (\<lambda>x. (True, x)),
     undoCheckpoint = (\<lambda>_ x. (True, x)), redoCheckpoint = (\<lambda>_ x. (True, x)),
     undoMilestone = Some (\<lambda>x. (True, x)), redoMilestone = Some (\<lambda>x. (True, x))\<rparr>"

definition sampleChange :: "int \<Rightarrow> EditorChangeRecord" where
  "sampleChange k = \<lparr>cr_serial = k, cr_kind = INSERT, cr_offset = 0, cr_length = 1,
     cr_data = lit ''41'', cr_groupId = None\<rparr>"

lemmas history_eval = history_undo_def history_redo_def moveToUndone_def moveToDone_def moveLastChanges_def
  recordLocalChanges_def recordLocalMutation_def discardRedoBranch_def recordMilestone_def markSaved_def
  newHistory_def getEditState_def fulfilling_def Let_def

theorem redo_after_undo_witness:
  "let h = recordMilestone (recordLocalChanges [sampleChange 2, sampleChange 3]
         (recordLocalChanges [sampleChange 1] newHistory));
       (r1, h1, x1) = history_undo fulfilling (h, ());
       (r2, h2, x2) = history_redo fulfilling (h1, x1)
   in r1 = Inr True \<and> r2 = Inr True \<and> changeLog h1 = [sampleChange 1] \<and> h2 = h"
proof -
  let ?h = "recordMilestone (recordLocalChanges [sampleChange 2, sampleChange 3]
         (recordLocalChanges [sampleChange 1] newHistory))"
  have "history_ok ?h" by (simp add: history_eval history_ok_def log_ok_def changesOf_def)
  moreover obtain h1 where h1: "history_undo fulfilling (?h, ()) = (Inr True, h1, ())" "changeLog h1 = [sampleChange 1]"
    "undoneTransactionLog h1 = [LOCAL 2]" "transactionLog h1 = [LOCAL 1]"
    by (simp add: history_eval)
  moreover obtain h2 where h2: "history_redo fulfilling (h1, ()) = (Inr True, h2, ())"
    using h1 by (auto simp: history_redo_def fulfilling_def Let_def)
  ultimately have "h2 = ?h" by (blast intro: redo_after_undo)
  with h1 h2 show ?thesis by simp
qed

text \<open>C4: the dirty flag, over all sessions of editing: unless a recording has cut off the saved
  state, the editor is clean exactly when the transactions and change records in effect are
  those that the last save wrote.\<close>

theorem dirty_flag_correct:
  assumes "editing ex s" "\<not> lost s"
  shows "isDirty (getEditState (ctl s)) \<longleftrightarrow> past (ctl s) \<noteq> savedEntries s"
proof -
  have "take (savedChangeDepth (ctl s)) (wholeTimeline (ctl s)) = savedEntries s"
    "savedChangeDepth (ctl s) \<le> length (wholeTimeline (ctl s))"
    using editing_tracked_ok [OF assms(1)] assms(2)
    by (simp_all add: tracked_ok_def length_wholeTimeline history_ok_def)
  then have "past (ctl s) = savedEntries s \<longleftrightarrow> savedChangeDepth (ctl s) = length (past (ctl s))"
    by (auto simp: wholeTimeline_def dest: arg_cong [of _ _ length])
  then show ?thesis by (auto simp: getEditState_def past_def)
qed

theorem dirty_flag_correct_witness:
  "\<exists>s. editing fulfilling s \<and> \<not> lost s \<and> past (ctl s) \<noteq> savedEntries s \<and> isDirty (getEditState (ctl s))"
proof -
  let ?s = "recorded \<lparr>ctl = newHistory, savedEntries = [], lost = False\<rparr> (recordLocalMutation newHistory)"
  have ed: "editing fulfilling ?s" using editing.mutation [OF editing.start] by simp
  have "\<not> lost ?s" "past (ctl ?s) \<noteq> savedEntries ?s"
    by (simp_all add: recorded_def past_def history_eval)
  with ed dirty_flag_correct [OF ed] show ?thesis by blast
qed

text \<open>C36: an edit made below the saved depth makes the flag wrong. Save after three changes, undo
  one, make a different change and undo it: the controller reports a clean editor, although
  only two of the three saved changes are in effect. The recording had lowered the saved depth
  to the depth of the branch, where nothing was ever saved.\<close>

theorem clean_after_discarded_save:
  "\<exists>s. editing fulfilling s \<and> \<not> isDirty (getEditState (ctl s)) \<and>
     savedEntries s = [(LOCAL 1, [sampleChange 1]), (LOCAL 1, [sampleChange 2]), (LOCAL 1, [sampleChange 3])] \<and>
     past (ctl s) = [(LOCAL 1, [sampleChange 1]), (LOCAL 1, [sampleChange 2])]"
proof -
  let ?s0 = "\<lparr>ctl = newHistory, savedEntries = [], lost = False\<rparr>"
  let ?ch = "\<lambda>k s. recorded s (recordLocalChanges [sampleChange k] (ctl s))"
  let ?s3 = "?ch 3 (?ch 2 (?ch 1 ?s0))"
  let ?sv = "?s3\<lparr>ctl := markSaved (ctl ?s3), savedEntries := past (ctl ?s3), lost := False\<rparr>"
  let ?u = "?sv\<lparr>ctl := moveToUndone (ctl ?sv)\<rparr>"
  let ?e = "?ch 4 ?u"
  let ?f = "?e\<lparr>ctl := moveToUndone (ctl ?e)\<rparr>"
  have undo: "editing fulfilling (s\<lparr>ctl := moveToUndone (ctl s)\<rparr>)"
    if "editing fulfilling s" "transactionLog (ctl s) \<noteq> []" for s
    using editing.undo [OF that(1), of "()" "Inr True" "moveToUndone (ctl s)" "()"] that(2)
    by (auto simp: history_undo_def fulfilling_def Let_def split: EditorTransactionRecord.splits)
  have "editing fulfilling ?sv"
    by (intro editing.save editing.changes editing.start) simp_all
  then have "editing fulfilling ?u"
    by (rule undo) (simp add: recorded_def history_eval)
  then have "editing fulfilling ?e" by (rule editing.changes) simp
  then have "editing fulfilling ?f"
    by (rule undo) (simp add: recorded_def history_eval)
  moreover have "\<not> isDirty (getEditState (ctl ?f))"
    "savedEntries ?f = [(LOCAL 1, [sampleChange 1]), (LOCAL 1, [sampleChange 2]), (LOCAL 1, [sampleChange 3])]"
    "past (ctl ?f) = [(LOCAL 1, [sampleChange 1]), (LOCAL 1, [sampleChange 2])]"
    by (simp_all add: recorded_def history_eval past_def changesOf_def)
  ultimately show ?thesis by blast
qed

text \<open>C25: a snapshot taken from a controller restores it at any depth of its timeline: the restored
  controller is well formed, has that many transactions in effect, the same timeline of
  transactions with their change records, and the same saved depth. At its own depth the
  logs are restored exactly.\<close>

theorem snapshot_at_depth:
  assumes "history_ok h" "safe_counts h"
    and "d \<le> length (transactionLog h) + length (undoneTransactionLog h)"
  shows "\<exists>h'. fromSnapshotAtDepth (snapshot h) (NInt (int d)) = Inr h' \<and> history_ok h' \<and>
     length (transactionLog h') = d \<and> wholeTimeline h' = wholeTimeline h \<and>
     savedChangeDepth h' = savedChangeDepth h \<and> (d = length (transactionLog h) \<longrightarrow> h' = h)"
proof -
  let ?r = "rewindTo d h"
  note r = rewindTo_view [OF assms(1), of d]
  have "d \<le> length (wholeTimeline ?r)" using r assms(3) by (simp add: length_wholeTimeline)
  note f = forwardTo_view [OF conjunct1 [OF r] this]
  have "forwardTo d (rewindTo d h) = h" if "d = length (transactionLog h)"
    using that rewindTo.simps [of "length (transactionLog h)" h]
      forwardTo.simps [of "length (transactionLog h)" h] by simp
  then show ?thesis
    using assms r f
    by (auto simp: fromSnapshotAtDepth_def fromSnapshot_snapshot safe_counts_def)
qed

theorem snapshot_at_depth_witness:
  "\<exists>h'. fromSnapshotAtDepth (snapshot (recordLocalChanges [sampleChange 2, sampleChange 3]
          (recordLocalChanges [sampleChange 1] newHistory))) (NInt 1) = Inr h' \<and>
     transactionLog h' = [LOCAL 1]"
proof -
  let ?h = "recordLocalChanges [sampleChange 2, sampleChange 3] (recordLocalChanges [sampleChange 1] newHistory)"
  have "history_ok ?h" "safe_counts ?h" "1 \<le> length (transactionLog ?h) + length (undoneTransactionLog ?h)"
    by (simp_all add: history_eval history_ok_def log_ok_def changesOf_def safe_counts_def MAX_SAFE_INTEGER_def)
  from snapshot_at_depth [OF this] obtain h' where
    h': "fromSnapshotAtDepth (snapshot ?h) (NInt 1) = Inr h'" "length (transactionLog h') = 1"
    "wholeTimeline h' = wholeTimeline ?h" by auto
  have "map fst (wholeTimeline h') = [LOCAL 1, LOCAL 2]"
    unfolding h'(3) by (simp add: history_eval wholeTimeline_def past_def future_def)
  with h'(2) have "transactionLog h' = [LOCAL 1]"
    using fst_blocks [of "transactionLog h'" "changeLog h'"]
    by (auto simp: wholeTimeline_def past_def append_eq_Cons_conv Cons_eq_append_conv length_Suc_conv)
  with h' show ?thesis by blast
qed



text \<open>C37: reconciling to a session with nothing left to undo reports a clean editor even when the
  caller says that the current state is not the saved one: the saved depth becomes 0, which is
  also the current depth.\<close>

theorem reconcile_unsaved_clean:
  assumes "reconcileNativeTransactionCounts (NInt 0) (NInt (int u)) False h = Inr (True, h')"
  shows "\<not> isDirty (getEditState h')"
  using assms by (auto simp: reconcileNativeTransactionCounts_def safeAtLeast_def getEditState_def split: if_splits)

theorem reconcile_unsaved_clean_witness:
  "\<exists>h'. reconcileNativeTransactionCounts (NInt 0) (NInt 1) False (markSaved (recordLocalMutation newHistory)) =
       Inr (True, h') \<and> \<not> isDirty (getEditState h')"
proof -
  let ?h = "markSaved (recordLocalMutation newHistory)"
  obtain h' where "reconcileNativeTransactionCounts (NInt 0) (NInt (int 1)) False ?h = Inr (True, h')"
    by (simp add: reconcileNativeTransactionCounts_def history_eval nativeBacked_def safeAtLeast_def isSafeInt_def
        MAX_SAFE_INTEGER_def isCheckpointReplaceAll_def)
  with reconcile_unsaved_clean [OF this] show ?thesis by simp
qed

end
