(* ===== verification/Mutation_Queue.thy ===== *)
theory Mutation_Queue
  imports JS_Prelude
begin

text \<open>
  The per-session queue of mutations, \<^verbatim>\<open>enqueueSessionMutation\<close> in
  \<^verbatim>\<open>packages/client/src/mutation_queue.ts\<close>, as a state machine. Every call that does not run
  in the context of a mutation of the same session gets a ticket. A ticket remembers the tail
  that was current when it was made (\<^verbatim>\<open>priorTail\<close>) and the ticket in whose context it was
  made (\<^verbatim>\<open>activeSessionMutation\<close>). The steps are the points where the code is resumed: the
  call itself, the start of the task once \<^verbatim>\<open>priorTail\<close> has settled, and the \<^verbatim>\<open>finally\<close> block.
  A task may be resumed in any order with the others.

  The lemmas show mutual exclusion and first-come-first-served order per session, that the
  queue never blocks by itself, that no tail is left behind, and the one way in which
  nested calls block each other.
\<close>

datatype phase = Waiting | Running | Done

record mutation =
  m_session :: ustring
  m_prior :: "nat option"
  m_parent :: "nat option"
  m_phase :: phase

record mutation_queue =
  sessionMutationTails :: "ustring \<Rightarrow> nat option"
  mutations :: "mutation list"

definition emptyQueue :: mutation_queue where
  "emptyQueue = \<lparr>sessionMutationTails = (\<lambda>_. None), mutations = []\<rparr>"

definition setPhase :: "nat \<Rightarrow> phase \<Rightarrow> mutation list \<Rightarrow> mutation list" where
  "setPhase t p ms = ms[t := (ms ! t)\<lparr>m_phase := p\<rparr>]"

text \<open>\<^verbatim>\<open>nextTail\<close> of ticket \<open>t\<close> is settled once the prior tail is and \<open>t\<close> has released its signal. A
  promise is made before those chained to it, so the recursion descends.\<close>

fun tailSettled :: "mutation list \<Rightarrow> nat \<Rightarrow> bool" where
  "tailSettled ms t \<longleftrightarrow> m_phase (ms ! t) = Done \<and>
     (case m_prior (ms ! t) of None \<Rightarrow> True | Some p \<Rightarrow> if p < t then tailSettled ms p else False)"

declare tailSettled.simps [simp del]

definition enqueueSessionMutation ::
    "nat option \<Rightarrow> ustring \<Rightarrow> mutation_queue \<Rightarrow> mutation_queue" where
  "enqueueSessionMutation parent sessionId q =
     (if (case parent of None \<Rightarrow> False | Some p \<Rightarrow> m_session (mutations q ! p) = sessionId) then q
      else q\<lparr>mutations := mutations q @
               [\<lparr>m_session = sessionId, m_prior = sessionMutationTails q sessionId,
                 m_parent = parent, m_phase = Waiting\<rparr>],
             sessionMutationTails :=
               (sessionMutationTails q)(sessionId := Some (length (mutations q)))\<rparr>)"

definition mayStart :: "mutation_queue \<Rightarrow> nat \<Rightarrow> bool" where
  "mayStart q t \<longleftrightarrow> t < length (mutations q) \<and> m_phase (mutations q ! t) = Waiting \<and>
     (case m_prior (mutations q ! t) of None \<Rightarrow> True | Some p \<Rightarrow> tailSettled (mutations q) p)"

definition startTask :: "nat \<Rightarrow> mutation_queue \<Rightarrow> mutation_queue" where
  "startTask t q = q\<lparr>mutations := setPhase t Running (mutations q)\<rparr>"

text \<open>The task has settled; it awaited the mutations that it enqueued itself.\<close>

definition mayFinish :: "mutation_queue \<Rightarrow> nat \<Rightarrow> bool" where
  "mayFinish q t \<longleftrightarrow> t < length (mutations q) \<and> m_phase (mutations q ! t) = Running \<and>
     list_all (\<lambda>m. m_parent m = Some t \<longrightarrow> m_phase m = Done) (mutations q)"

definition finishTask :: "nat \<Rightarrow> mutation_queue \<Rightarrow> mutation_queue" where
  "finishTask t q =
     (let sid = m_session (mutations q ! t) in
      q\<lparr>mutations := setPhase t Done (mutations q),
        sessionMutationTails :=
          (if sessionMutationTails q sid = Some t then (sessionMutationTails q)(sid := None)
           else sessionMutationTails q)\<rparr>)"

inductive queue_step :: "mutation_queue \<Rightarrow> mutation_queue \<Rightarrow> bool" where
  enqueue: "(case parent of None \<Rightarrow> True | Some p \<Rightarrow>
      p < length (mutations q) \<and> m_phase (mutations q ! p) = Running) \<Longrightarrow>
    queue_step q (enqueueSessionMutation parent sid q)"
| begin_task: "mayStart q t \<Longrightarrow> queue_step q (startTask t q)"
| end_task: "mayFinish q t \<Longrightarrow> queue_step q (finishTask t q)"

inductive_cases queue_stepE: "queue_step q q'"

section \<open>The invariant\<close>

definition sameSession :: "mutation list \<Rightarrow> nat \<Rightarrow> nat \<Rightarrow> bool" where
  "sameSession ms i j \<longleftrightarrow> m_session (ms ! i) = m_session (ms ! j)"

text \<open>Tasks of a session start in order, one after the other.\<close>

definition in_order :: "mutation list \<Rightarrow> bool" where
  "in_order ms \<longleftrightarrow> (\<forall>j < length ms. \<forall>i < j. sameSession ms i j \<longrightarrow> m_phase (ms ! j) \<noteq> Waiting \<longrightarrow>
     m_phase (ms ! i) = Done)"

text \<open>The prior tail is that of the previous ticket of the session; there is none only if all
  earlier tickets were done.\<close>

definition prior_ok :: "mutation list \<Rightarrow> bool" where
  "prior_ok ms \<longleftrightarrow> (\<forall>j < length ms. \<forall>p. m_prior (ms ! j) = Some p \<longrightarrow>
     p < j \<and> sameSession ms p j \<and> (\<forall>i. p < i \<longrightarrow> i < j \<longrightarrow> \<not> sameSession ms i j))"

definition no_prior_ok :: "mutation list \<Rightarrow> bool" where
  "no_prior_ok ms \<longleftrightarrow> (\<forall>j < length ms. m_prior (ms ! j) = None \<longrightarrow>
     (\<forall>i < j. sameSession ms i j \<longrightarrow> m_phase (ms ! i) = Done))"

text \<open>The tail of a session is its last ticket, and only while that is not done.\<close>

definition tail_ok :: "mutation_queue \<Rightarrow> bool" where
  "tail_ok q \<longleftrightarrow> (\<forall>sid p. sessionMutationTails q sid = Some p \<longrightarrow> p < length (mutations q) \<and>
     m_session (mutations q ! p) = sid \<and> m_phase (mutations q ! p) \<noteq> Done \<and>
     (\<forall>i. p < i \<longrightarrow> i < length (mutations q) \<longrightarrow> m_session (mutations q ! i) \<noteq> sid))"

definition no_tail_ok :: "mutation_queue \<Rightarrow> bool" where
  "no_tail_ok q \<longleftrightarrow> (\<forall>i < length (mutations q).
     sessionMutationTails q (m_session (mutations q ! i)) = None \<longrightarrow> m_phase (mutations q ! i) = Done)"

definition queue_ok :: "mutation_queue \<Rightarrow> bool" where
  "queue_ok q \<longleftrightarrow> in_order (mutations q) \<and> prior_ok (mutations q) \<and> no_prior_ok (mutations q) \<and>
     tail_ok q \<and> no_tail_ok q"

lemma queue_ok_empty: "queue_ok emptyQueue"
  by (simp add: queue_ok_def in_order_def prior_ok_def no_prior_ok_def tail_ok_def no_tail_ok_def emptyQueue_def)

text \<open>Changing the phase of a ticket changes nothing else.\<close>

lemma setPhase_simps [simp]:
  "length (setPhase t p ms) = length ms"
  "t < length ms \<Longrightarrow> m_session (setPhase t p ms ! i) = m_session (ms ! i)"
  "t < length ms \<Longrightarrow> m_prior (setPhase t p ms ! i) = m_prior (ms ! i)"
  "t < length ms \<Longrightarrow> m_parent (setPhase t p ms ! i) = m_parent (ms ! i)"
  "t < length ms \<Longrightarrow> m_phase (setPhase t p ms ! i) = (if i = t then p else m_phase (ms ! i))"
  "t < length ms \<Longrightarrow> sameSession (setPhase t p ms) i j = sameSession ms i j"
  by (auto simp: setPhase_def nth_list_update sameSession_def)

text \<open>All earlier tickets of the session are done once the prior tail is settled.\<close>

lemma earlier_done:
  assumes ok: "queue_ok q" and start: "mayStart q t" and i: "i < t" "sameSession (mutations q) i t"
  shows "m_phase (mutations q ! i) = Done"
proof (cases "m_prior (mutations q ! t)")
  case None
  with ok start i show ?thesis unfolding queue_ok_def no_prior_ok_def mayStart_def by blast
next
  case (Some p)
  have len: "t < length (mutations q)" using start by (simp add: mayStart_def)
  have p: "p < t" "sameSession (mutations q) p t" "\<not> p < i"
    using ok Some len i unfolding queue_ok_def prior_ok_def by blast+
  have settled: "m_phase (mutations q ! p) = Done"
    using start Some by (simp add: mayStart_def tailSettled.simps [of _ p])
  show ?thesis
  proof (cases "i = p")
    case True with settled show ?thesis by simp
  next
    case False
    with p i have "i < p" "sameSession (mutations q) i p" by (auto simp: sameSession_def)
    with ok p len settled show ?thesis unfolding queue_ok_def in_order_def by (metis less_trans phase.distinct(3))
  qed
qed

lemma in_orderD:
  "in_order ms \<Longrightarrow> j < length ms \<Longrightarrow> i < j \<Longrightarrow> sameSession ms i j \<Longrightarrow> m_phase (ms ! j) \<noteq> Waiting \<Longrightarrow>
   m_phase (ms ! i) = Done"
  by (simp add: in_order_def)

lemma queue_ok_start:
  assumes ok: "queue_ok q" and start: "mayStart q t"
  shows "queue_ok (startTask t q)"
proof -
  let ?ms = "mutations q"
  have len: "t < length ?ms" and waiting: "m_phase (?ms ! t) = Waiting"
    using start by (simp_all add: mayStart_def)
  have "in_order (setPhase t Running ?ms)"
    unfolding in_order_def
  proof (intro allI impI)
    fix j i assume a: "j < length (setPhase t Running ?ms)" "i < j" "sameSession (setPhase t Running ?ms) i j"
      "m_phase (setPhase t Running ?ms ! j) \<noteq> Waiting"
    show "m_phase (setPhase t Running ?ms ! i) = Done"
    proof (cases "j = t")
      case True
      with a len earlier_done [OF ok start, of i] show ?thesis by simp
    next
      case False
      with a len have "m_phase (?ms ! i) = Done"
        using ok in_orderD [of ?ms j i] by (simp add: queue_ok_def)
      with len waiting show ?thesis by auto
    qed
  qed
  moreover have "prior_ok (setPhase t Running ?ms)"
    using ok len by (simp add: queue_ok_def prior_ok_def)
  moreover have "no_prior_ok (setPhase t Running ?ms)"
    using ok len waiting unfolding queue_ok_def no_prior_ok_def by force
  moreover have "tail_ok (startTask t q)"
    using ok len by (simp add: queue_ok_def tail_ok_def startTask_def)
  moreover have "no_tail_ok (startTask t q)"
    using ok len waiting by (force simp: queue_ok_def no_tail_ok_def startTask_def)
  ultimately show ?thesis by (simp add: queue_ok_def startTask_def)
qed

lemma queue_ok_finish:
  assumes ok: "queue_ok q" and fin: "mayFinish q t"
  shows "queue_ok (finishTask t q)"
proof -
  let ?ms = "mutations q"
  have len: "t < length ?ms" and running: "m_phase (?ms ! t) = Running"
    using fin by (simp_all add: mayFinish_def)
  have "in_order (setPhase t Done ?ms)"
    using ok len running unfolding queue_ok_def in_order_def by simp
  moreover have "prior_ok (setPhase t Done ?ms)" "no_prior_ok (setPhase t Done ?ms)"
    using ok len by (simp_all add: queue_ok_def prior_ok_def no_prior_ok_def)
  moreover have "tail_ok (finishTask t q)"
    unfolding tail_ok_def
  proof (intro allI impI)
    fix sid p assume "sessionMutationTails (finishTask t q) sid = Some p"
    then have p: "sessionMutationTails q sid = Some p"
      "\<not> (sid = m_session (?ms ! t) \<and> p = t)"
      by (auto simp: finishTask_def Let_def split: if_splits)
    have tl: "p < length ?ms" "m_session (?ms ! p) = sid" "m_phase (?ms ! p) \<noteq> Done"
      "\<forall>i. p < i \<longrightarrow> i < length ?ms \<longrightarrow> m_session (?ms ! i) \<noteq> sid"
      using ok p(1) unfolding queue_ok_def tail_ok_def by blast+
    with p(2) have "p \<noteq> t" by blast
    with tl len show "p < length (mutations (finishTask t q)) \<and> m_session (mutations (finishTask t q) ! p) = sid \<and>
        m_phase (mutations (finishTask t q) ! p) \<noteq> Done \<and>
        (\<forall>i. p < i \<longrightarrow> i < length (mutations (finishTask t q)) \<longrightarrow> m_session (mutations (finishTask t q) ! i) \<noteq> sid)"
      by (simp add: finishTask_def Let_def)
  qed
  moreover have "no_tail_ok (finishTask t q)"
    unfolding no_tail_ok_def
  proof (intro allI impI)
    fix i assume i: "i < length (mutations (finishTask t q))"
      "sessionMutationTails (finishTask t q) (m_session (mutations (finishTask t q) ! i)) = None"
    then have il: "i < length ?ms" by (simp add: finishTask_def Let_def)
    show "m_phase (mutations (finishTask t q) ! i) = Done"
    proof (cases "sessionMutationTails q (m_session (?ms ! i)) = None")
      case True
      with ok il len show ?thesis by (simp add: queue_ok_def no_tail_ok_def finishTask_def Let_def)
    next
      case False
      with i len have same: "m_session (?ms ! i) = m_session (?ms ! t)"
        and last: "sessionMutationTails q (m_session (?ms ! t)) = Some t"
        by (auto simp: finishTask_def Let_def split: if_splits)
      then have "\<not> t < i" using ok il unfolding queue_ok_def tail_ok_def by blast
      with same ok len running in_orderD [of ?ms t i] show ?thesis
        by (cases "i = t") (simp_all add: queue_ok_def finishTask_def Let_def sameSession_def)
    qed
  qed
  ultimately show ?thesis by (simp add: queue_ok_def finishTask_def Let_def)
qed

lemma queue_ok_enqueue:
  assumes ok: "queue_ok q"
  shows "queue_ok (enqueueSessionMutation parent sid q)"
proof (cases "case parent of None \<Rightarrow> False | Some p \<Rightarrow> m_session (mutations q ! p) = sid")
  case True
  with ok show ?thesis by (simp add: enqueueSessionMutation_def)
next
  case False
  let ?ms = "mutations q"
  let ?m = "\<lparr>m_session = sid, m_prior = sessionMutationTails q sid, m_parent = parent, m_phase = Waiting\<rparr>"
  have q': "enqueueSessionMutation parent sid q = q\<lparr>mutations := ?ms @ [?m],
      sessionMutationTails := (sessionMutationTails q)(sid := Some (length ?ms))\<rparr>"
    using False by (simp add: enqueueSessionMutation_def)
  have "in_order (?ms @ [?m])"
    using ok by (auto simp: queue_ok_def in_order_def sameSession_def nth_append less_Suc_eq)
  moreover have "prior_ok (?ms @ [?m])"
    using ok by (auto simp: queue_ok_def prior_ok_def tail_ok_def sameSession_def nth_append less_Suc_eq)
  moreover have "no_prior_ok (?ms @ [?m])"
    using ok by (auto simp: queue_ok_def no_prior_ok_def no_tail_ok_def sameSession_def nth_append less_Suc_eq)
  moreover have "tail_ok (enqueueSessionMutation parent sid q)"
    using ok unfolding q' queue_ok_def tail_ok_def by (auto simp: nth_append less_Suc_eq)
  moreover have "no_tail_ok (enqueueSessionMutation parent sid q)"
    using ok unfolding q' queue_ok_def no_tail_ok_def by (auto simp: nth_append less_Suc_eq split: if_splits)
  ultimately show ?thesis by (simp add: queue_ok_def q')
qed

interpretation mq: transition_system "\<lambda>q. q = emptyQueue" queue_step queue_ok
  by unfold_locales
    (auto simp: queue_ok_empty elim!: queue_stepE intro: queue_ok_enqueue queue_ok_start queue_ok_finish)

section \<open>Progress\<close>

text \<open>When all earlier tickets of a session are done, its prior tail is settled.\<close>

lemma tailSettled_all_done:
  assumes "prior_ok ms" "p < length ms" "m_phase (ms ! p) = Done"
    and "\<And>i. i < p \<Longrightarrow> sameSession ms i p \<Longrightarrow> m_phase (ms ! i) = Done"
  shows "tailSettled ms p"
  using assms(2-)
proof (induction p rule: less_induct)
  case (less p)
  show ?case
  proof (cases "m_prior (ms ! p)")
    case None
    with less.prems show ?thesis by (simp add: tailSettled.simps [of ms p])
  next
    case (Some p')
    then have p': "p' < p" "sameSession ms p' p" using assms(1) less.prems(1) by (auto simp: prior_ok_def)
    have "tailSettled ms p'"
      by (rule less.IH [OF p'(1)]) (use p' less.prems in \<open>auto simp: sameSession_def\<close>)
    with Some p' less.prems(2) show ?thesis by (simp add: tailSettled.simps [of ms p])
  qed
qed

lemma first_unfinished_may_start:
  assumes ok: "queue_ok q" and k: "k < length (mutations q)" "m_phase (mutations q ! k) = Waiting"
    and first: "\<And>i. i < k \<Longrightarrow> sameSession (mutations q) i k \<Longrightarrow> m_phase (mutations q ! i) = Done"
  shows "mayStart q k"
proof (cases "m_prior (mutations q ! k)")
  case None
  with k show ?thesis by (simp add: mayStart_def)
next
  case (Some p)
  then have p: "p < k" "sameSession (mutations q) p k" using ok k by (auto simp: queue_ok_def prior_ok_def)
  have "tailSettled (mutations q) p"
    by (rule tailSettled_all_done) (use ok k p first in \<open>auto simp: queue_ok_def sameSession_def\<close>)
  with Some k show ?thesis by (simp add: mayStart_def)
qed

section \<open>Properties\<close>

text \<open>C2: mutual exclusion in order of arrival: in every reachable state, when a mutation of a
  session has started, all mutations of that session that were enqueued before it are done.
  In particular no two run at the same time.\<close>

theorem mutations_serialized:
  assumes "queue_step\<^sup>*\<^sup>* emptyQueue q" "j < length (mutations q)" "i < j"
    and "m_session (mutations q ! i) = m_session (mutations q ! j)" "m_phase (mutations q ! j) \<noteq> Waiting"
  shows "m_phase (mutations q ! i) = Done"
  using mq.reachable_inv [OF refl assms(1)] assms(2-) in_orderD
  by (simp add: queue_ok_def sameSession_def)

lemmas queue_eval = enqueueSessionMutation_def emptyQueue_def mayStart_def startTask_def mayFinish_def
  finishTask_def setPhase_def Let_def tailSettled.simps

lemma one_started:
  "queue_step\<^sup>*\<^sup>* emptyQueue (startTask 0 (enqueueSessionMutation None sid emptyQueue))"
proof -
  have "queue_step\<^sup>*\<^sup>* emptyQueue (enqueueSessionMutation None sid emptyQueue)"
    by (rule r_into_rtranclp, rule queue_step.enqueue) simp
  then show ?thesis
    by (rule rtranclp.rtrancl_into_rtrancl) (rule queue_step.begin_task, simp add: queue_eval)
qed

definition twoQueued :: mutation_queue where
  "twoQueued = startTask 1 (finishTask 0 (startTask 0
     (enqueueSessionMutation None [1] (enqueueSessionMutation None [1] emptyQueue))))"

theorem mutations_serialized_witness:
  "queue_step\<^sup>*\<^sup>* emptyQueue twoQueued \<and> m_phase (mutations twoQueued ! 1) = Running \<and>
   m_phase (mutations twoQueued ! 0) = Done"
proof -
  let ?q2 = "enqueueSessionMutation None [1] (enqueueSessionMutation None [1] emptyQueue)"
  have "queue_step\<^sup>*\<^sup>* emptyQueue ?q2"
    by (rule rtranclp.rtrancl_into_rtrancl [OF rtranclp.rtrancl_into_rtrancl [OF rtranclp.rtrancl_refl]];
        rule queue_step.enqueue; simp)
  then have "queue_step\<^sup>*\<^sup>* emptyQueue (startTask 0 ?q2)"
    by (rule rtranclp.rtrancl_into_rtrancl)
      (rule queue_step.begin_task, simp add: queue_eval)
  then have "queue_step\<^sup>*\<^sup>* emptyQueue (finishTask 0 (startTask 0 ?q2))"
    by (rule rtranclp.rtrancl_into_rtrancl)
      (rule queue_step.end_task, simp add: queue_eval)
  then have reach: "queue_step\<^sup>*\<^sup>* emptyQueue twoQueued"
    unfolding twoQueued_def
    by (rule rtranclp.rtrancl_into_rtrancl)
      (rule queue_step.begin_task, simp add: queue_eval)
  have "length (mutations twoQueued) = 2" "m_session (mutations twoQueued ! 0) = m_session (mutations twoQueued ! 1)"
    "m_phase (mutations twoQueued ! 1) = Running"
    by (simp_all add: twoQueued_def queue_eval)
  with reach mutations_serialized [OF reach, of 1 0] show ?thesis by simp
qed

text \<open>C8: the queue does not block by itself: in every reachable state, for every mutation that is
  not done, some mutation of the same session, enqueued no later, is running or may start.\<close>

theorem queue_progress:
  assumes "queue_step\<^sup>*\<^sup>* emptyQueue q" "t < length (mutations q)" "m_phase (mutations q ! t) \<noteq> Done"
  shows "\<exists>k \<le> t. m_session (mutations q ! k) = m_session (mutations q ! t) \<and>
     (m_phase (mutations q ! k) = Running \<or> mayStart q k)"
proof -
  let ?P = "\<lambda>k. sameSession (mutations q) k t \<and> m_phase (mutations q ! k) \<noteq> Done"
  define k where "k = (LEAST k. ?P k)"
  have "?P t" using assms(3) by (simp add: sameSession_def)
  then have k: "?P k" "k \<le> t" unfolding k_def by (rule LeastI, rule Least_le)
  have first: "m_phase (mutations q ! i) = Done" if "i < k" "sameSession (mutations q) i k" for i
    using not_less_Least [of i ?P] that k(1) by (auto simp: k_def sameSession_def)
  have "m_phase (mutations q ! k) = Running \<or> mayStart q k"
    using first_unfinished_may_start [OF mq.reachable_inv [OF refl assms(1)] _ _ first] k assms(2)
    by (cases "m_phase (mutations q ! k)") auto
  with k show ?thesis by (auto simp: sameSession_def)
qed

theorem queue_progress_witness:
  "\<exists>k \<le> 0. m_session (mutations (enqueueSessionMutation None [1] emptyQueue) ! k) = [1] \<and>
     (m_phase (mutations (enqueueSessionMutation None [1] emptyQueue) ! k) = Running \<or>
      mayStart (enqueueSessionMutation None [1] emptyQueue) k)"
proof -
  have "queue_step\<^sup>*\<^sup>* emptyQueue (enqueueSessionMutation None [1] emptyQueue)"
    by (rule r_into_rtranclp, rule queue_step.enqueue) simp
  from queue_progress [OF this, of 0] show ?thesis
    by (simp add: enqueueSessionMutation_def emptyQueue_def)
qed

text \<open>C27: nothing is left behind: in every reachable state in which all mutations are done the map of
  tails is empty.\<close>

theorem no_tail_left:
  assumes "queue_step\<^sup>*\<^sup>* emptyQueue q" "list_all (\<lambda>m. m_phase m = Done) (mutations q)"
  shows "sessionMutationTails q = (\<lambda>_. None)"
proof
  fix sid
  show "sessionMutationTails q sid = None"
    using mq.reachable_inv [OF refl assms(1)] assms(2)
    by (cases "sessionMutationTails q sid") (auto simp: queue_ok_def tail_ok_def list_all_length)
qed

theorem no_tail_left_witness:
  "sessionMutationTails (finishTask 0 (startTask 0 (enqueueSessionMutation None [1] emptyQueue))) = (\<lambda>_. None)"
proof -
  note one_started [of "[1]"]
  then have "queue_step\<^sup>*\<^sup>* emptyQueue (finishTask 0 (startTask 0 (enqueueSessionMutation None [1] emptyQueue)))"
    by (rule rtranclp.rtrancl_into_rtrancl)
      (rule queue_step.end_task, simp add: queue_eval)
  then show ?thesis
    by (rule no_tail_left)
      (simp add: queue_eval)
qed

text \<open>A call nested across two sessions back into the first.\<close>

definition nestedAcross :: "ustring \<Rightarrow> ustring \<Rightarrow> mutation_queue" where
  "nestedAcross A B = enqueueSessionMutation (Some 1) A (startTask 1 (enqueueSessionMutation (Some 0) B
     (startTask 0 (enqueueSessionMutation None A emptyQueue))))"

definition stuck :: "mutation_queue \<Rightarrow> bool" where
  "stuck q \<longleftrightarrow> length (mutations q) \<ge> 3 \<and>
     m_phase (mutations q ! 0) = Running \<and> m_phase (mutations q ! 1) = Running \<and>
     m_phase (mutations q ! 2) = Waiting \<and> m_prior (mutations q ! 2) = Some 0 \<and>
     m_parent (mutations q ! 1) = Some 0 \<and> m_parent (mutations q ! 2) = Some 1"

lemma stuck_step:
  assumes "stuck q" "queue_step q q'"
  shows "stuck q'"
  using assms(2)
proof cases
  case (enqueue parent sid)
  with assms(1) show ?thesis by (auto simp: stuck_def enqueueSessionMutation_def nth_append)
next
  case (begin_task t)
  then have "t < length (mutations q)" "m_phase (mutations q ! t) = Waiting"
    "\<not> (t = 2 \<and> stuck q)"
    by (auto simp: mayStart_def stuck_def tailSettled.simps [of _ 0])
  with assms(1) have "t \<noteq> 0" "t \<noteq> 1" "t \<noteq> 2" "t < length (mutations q)"
    unfolding stuck_def by (metis phase.distinct(1))+
  with assms(1) begin_task(1) show ?thesis by (simp add: stuck_def startTask_def)
next
  case (end_task t)
  then have t: "t < length (mutations q)" "m_phase (mutations q ! t) = Running"
    and children: "\<And>i. i < length (mutations q) \<Longrightarrow> m_parent (mutations q ! i) = Some t \<Longrightarrow>
      m_phase (mutations q ! i) = Done"
    by (auto simp: mayFinish_def list_all_length)
  have "t \<noteq> 0" using children [of 1] assms(1) by (auto simp: stuck_def)
  moreover have "t \<noteq> 1" using children [of 2] assms(1) by (auto simp: stuck_def)
  moreover have "t \<noteq> 2" using t assms(1) by (auto simp: stuck_def)
  moreover note t(1)
  ultimately show ?thesis using assms(1) end_task(1) by (simp add: stuck_def finishTask_def Let_def)
qed

interpretation blocked: transition_system stuck queue_step stuck
  by unfold_locales (blast intro: stuck_step)+

text \<open>C38: only the innermost session counts as the context of a nested call. A mutation of \<open>A\<close> that
  awaits a mutation of \<open>B\<close> that awaits another mutation of \<open>A\<close> is stuck for ever: in every
  continuation the innermost one has not started.\<close>

theorem nested_across_sessions_stuck:
  assumes "A \<noteq> B" "queue_step\<^sup>*\<^sup>* (nestedAcross A B) q"
  shows "m_phase (mutations q ! 2) = Waiting \<and> m_phase (mutations q ! 0) = Running"
proof -
  have "stuck (nestedAcross A B)"
    using assms(1) by (simp add: stuck_def nestedAcross_def queue_eval)
  from blocked.reachable_inv [OF this assms(2)] show ?thesis by (simp add: stuck_def)
qed

theorem nested_across_sessions_stuck_witness:
  "queue_step\<^sup>*\<^sup>* emptyQueue (nestedAcross [1] [2]) \<and> m_phase (mutations (nestedAcross [1] [2]) ! 2) = Waiting"
proof -
  note one_started [of "[1]"]
  then have "queue_step\<^sup>*\<^sup>* emptyQueue
      (enqueueSessionMutation (Some 0) [2] (startTask 0 (enqueueSessionMutation None [1] emptyQueue)))"
    by (rule rtranclp.rtrancl_into_rtrancl) (rule queue_step.enqueue, simp add: queue_eval)
  then have "queue_step\<^sup>*\<^sup>* emptyQueue (startTask 1
      (enqueueSessionMutation (Some 0) [2] (startTask 0 (enqueueSessionMutation None [1] emptyQueue))))"
    by (rule rtranclp.rtrancl_into_rtrancl) (rule queue_step.begin_task, simp add: queue_eval)
  then have "queue_step\<^sup>*\<^sup>* emptyQueue (nestedAcross [1] [2])"
    unfolding nestedAcross_def
    by (rule rtranclp.rtrancl_into_rtrancl) (rule queue_step.enqueue, simp add: queue_eval)
  moreover have "m_phase (mutations (nestedAcross [1] [2]) ! 2) = Waiting"
    using nested_across_sessions_stuck [of "[1]" "[2]" "nestedAcross [1] [2]"] by simp
  ultimately show ?thesis by simp
qed

end
