(* ===== verification/Session_Model.thy ===== *)
theory Session_Model
  imports JS_Prelude
begin

text \<open>
  The session model of the editor, \<^verbatim>\<open>packages/client/src/editor_session_model.ts\<close>: file size,
  change count and a version counter that advances with every session event that changes the
  content, and the callers that wait for the version to pass a minimum. A waiter's promise and
  timer are part of the state; a promise settles once and later settlements have no effect.

  The lemmas show that no waiter is lost: every pending promise has its waiter and an armed
  timer, waiters are exactly those whose version has not come, and settled promises hold no
  timer; and that enough events resolve every waiter.
\<close>

datatype SessionEventKind =
    UNSPECIFIED | CREATE | EDIT | UNDO | CLEAR | TRANSFORM | CREATE_CHECKPOINT | DESTROY_CHECKPOINT
  | SAVE | CHANGES_PAUSED | CHANGES_RESUMED | CREATE_VIEWPORT | DESTROY_VIEWPORT
  | TRANSACTION_STARTED | TRANSACTION_ENDED | TRANSFORM_STARTED | TRANSFORM_PROGRESS
  | TRANSFORM_COMPLETED | TRANSFORM_FAILED | RESTORE_CHECKPOINT

datatype settlement = Pending | Resolved | Rejected

record SessionSyncWaiter =
  w_id :: nat
  minimumVersion :: int

record EditorSessionModel =
  sessionId :: ustring
  viewportId :: ustring
  fileSize :: int
  changeCount :: int
  syncVersion :: nat
  waiters :: "SessionSyncWaiter list"
  promises :: "settlement list"
  timers :: "nat list"

record EditorSessionStateSnapshot =
  snap_sessionId :: ustring
  snap_viewportId :: ustring
  snap_fileSize :: int
  snap_changeCount :: int
  snap_syncVersion :: nat

definition newSessionModel :: "ustring \<Rightarrow> ustring \<Rightarrow> int \<Rightarrow> int option \<Rightarrow> EditorSessionModel" where
  "newSessionModel sid vid sz cc =
     \<lparr>sessionId = sid, viewportId = vid, fileSize = sz,
      changeCount = (case cc of None \<Rightarrow> 0 | Some n \<Rightarrow> n), syncVersion = 0,
      waiters = [], promises = [], timers = []\<rparr>"

definition getSnapshot :: "EditorSessionModel \<Rightarrow> EditorSessionStateSnapshot" where
  "getSnapshot m = \<lparr>snap_sessionId = sessionId m, snap_viewportId = viewportId m,
     snap_fileSize = fileSize m, snap_changeCount = changeCount m, snap_syncVersion = syncVersion m\<rparr>"

definition updateViewportId :: "ustring \<Rightarrow> EditorSessionModel \<Rightarrow> EditorSessionModel" where
  "updateViewportId vid m = m\<lparr>viewportId := vid\<rparr>"

text \<open>Settling a promise: only the first settlement counts.\<close>

definition settle :: "settlement \<Rightarrow> nat \<Rightarrow> settlement list \<Rightarrow> settlement list" where
  "settle out i ps = (if ps ! i = Pending then ps[i := out] else ps)"

text \<open>The \<^verbatim>\<open>resolve\<close> and \<^verbatim>\<open>reject\<close> of a waiter remove it and settle its promise.\<close>

definition settleWaiter :: "settlement \<Rightarrow> nat \<Rightarrow> EditorSessionModel \<Rightarrow> EditorSessionModel" where
  "settleWaiter out i m =
     m\<lparr>waiters := filter (\<lambda>w. w_id w \<noteq> i) (waiters m), promises := settle out i (promises m)\<rparr>"

definition clearTimer :: "nat \<Rightarrow> EditorSessionModel \<Rightarrow> EditorSessionModel" where
  "clearTimer i m = m\<lparr>timers := filter (\<lambda>t. t \<noteq> i) (timers m)\<rparr>"

fun resolveLoop ::
    "SessionSyncWaiter list \<Rightarrow> SessionSyncWaiter list \<Rightarrow> EditorSessionModel \<Rightarrow> EditorSessionModel" where
  "resolveLoop [] remaining m = m\<lparr>waiters := remaining\<rparr>"
| "resolveLoop (w # ws) remaining m =
     (if int (syncVersion m) > minimumVersion w
      then resolveLoop ws remaining (settleWaiter Resolved (w_id w) (clearTimer (w_id w) m))
      else resolveLoop ws (remaining @ [w]) m)"

definition resolveSyncWaiters :: "EditorSessionModel \<Rightarrow> EditorSessionModel" where
  "resolveSyncWaiters m = resolveLoop (waiters m) [] m"

definition applySessionStateUpdate :: "int \<Rightarrow> int \<Rightarrow> EditorSessionModel \<Rightarrow> EditorSessionModel" where
  "applySessionStateUpdate nextFileSize nextChangeCount m =
     resolveSyncWaiters (m\<lparr>fileSize := nextFileSize, changeCount := nextChangeCount,
       syncVersion := syncVersion m + 1\<rparr>)"

definition trackSessionEvent ::
    "SessionEventKind \<Rightarrow> int \<Rightarrow> int \<Rightarrow> EditorSessionModel \<Rightarrow> bool \<times> EditorSessionModel" where
  "trackSessionEvent kind sz cc m =
     (if kind \<noteq> EDIT \<and> kind \<noteq> UNDO \<and> kind \<noteq> CLEAR \<and> kind \<noteq> TRANSFORM \<and>
         kind \<noteq> CREATE_CHECKPOINT \<and> kind \<noteq> RESTORE_CHECKPOINT
      then (False, m)
      else (True, applySessionStateUpdate sz cc m))"

text \<open>\<^verbatim>\<open>waitForSync\<close> returns at once (\<open>None\<close>) or gives the promise that it awaits.\<close>

definition waitForSync :: "int \<Rightarrow> EditorSessionModel \<Rightarrow> nat option \<times> EditorSessionModel" where
  "waitForSync minimum m =
     (if int (syncVersion m) > minimum then (None, m)
      else let i = length (promises m) in
           (Some i, m\<lparr>waiters := waiters m @ [\<lparr>w_id = i, minimumVersion = minimum\<rparr>],
                      promises := promises m @ [Pending], timers := timers m @ [i]\<rparr>))"

text \<open>An armed timer fires: the timer is gone and the waiter is rejected.\<close>

definition timeoutFires :: "nat \<Rightarrow> EditorSessionModel \<Rightarrow> EditorSessionModel" where
  "timeoutFires i m = settleWaiter Rejected i (clearTimer i m)"

fun rejectLoop :: "SessionSyncWaiter list \<Rightarrow> EditorSessionModel \<Rightarrow> EditorSessionModel" where
  "rejectLoop [] m = m"
| "rejectLoop (w # ws) m = rejectLoop ws (settleWaiter Rejected (w_id w) (clearTimer (w_id w) m))"

definition rejectSyncWaiters :: "EditorSessionModel \<Rightarrow> EditorSessionModel" where
  "rejectSyncWaiters m = rejectLoop (waiters m) (m\<lparr>waiters := []\<rparr>)"

definition dispose :: "EditorSessionModel \<Rightarrow> EditorSessionModel" where
  "dispose m = rejectSyncWaiters m"

inductive model_step :: "EditorSessionModel \<Rightarrow> EditorSessionModel \<Rightarrow> bool" where
  event: "model_step m (snd (trackSessionEvent kind sz cc m))"
| update: "model_step m (applySessionStateUpdate sz cc m)"
| viewport: "model_step m (updateViewportId vid m)"
| wait: "model_step m (snd (waitForSync minimum m))"
| timeout: "i \<in> set (timers m) \<Longrightarrow> model_step m (timeoutFires i m)"
| reject: "model_step m (rejectSyncWaiters m)"

inductive_cases model_stepE: "model_step m m'"

section \<open>The invariant\<close>

text \<open>Waiters, pending promises and armed timers are the same set, and a waiter's version has not
  come yet.\<close>

definition pendingIds :: "settlement list \<Rightarrow> nat set" where
  "pendingIds ps = {i. i < length ps \<and> ps ! i = Pending}"

definition model_ok :: "EditorSessionModel \<Rightarrow> bool" where
  "model_ok m \<longleftrightarrow> distinct (map w_id (waiters m)) \<and>
     w_id ` set (waiters m) = pendingIds (promises m) \<and> set (timers m) = pendingIds (promises m) \<and>
     (\<forall>w \<in> set (waiters m). int (syncVersion m) \<le> minimumVersion w)"

lemma settle_nth:
  "i < length ps \<Longrightarrow> settle out k ps ! i = (if i = k \<and> ps ! i = Pending then out else ps ! i)"
  by (auto simp: settle_def nth_list_update)

lemma length_settle [simp]: "length (settle out k ps) = length ps"
  by (simp add: settle_def)

lemma pendingIds_settle: "out \<noteq> Pending \<Longrightarrow> pendingIds (settle out k ps) = pendingIds ps - {k}"
  by (auto simp: pendingIds_def settle_nth split: if_splits)

lemma pendingIds_append: "pendingIds (ps @ [Pending]) = insert (length ps) (pendingIds ps)"
  by (auto simp: pendingIds_def nth_append less_Suc_eq)

text \<open>Identifiers are unique, so removing waiters removes exactly their identifiers.\<close>

lemma ids_filter:
  assumes "distinct (map w_id ws)"
  shows "w_id ` {w \<in> set ws. \<not> P w} = w_id ` set ws - w_id ` {w \<in> set ws. P w}"
  using assms by (auto simp: distinct_map inj_on_def)

text \<open>The loop resolves the waiters that it finds due and keeps the others in order.\<close>

lemma resolveLoop_spec:
  "syncVersion (resolveLoop ws rm m) = syncVersion m \<and>
   waiters (resolveLoop ws rm m) = rm @ filter (\<lambda>w. \<not> int (syncVersion m) > minimumVersion w) ws \<and>
   pendingIds (promises (resolveLoop ws rm m)) =
     pendingIds (promises m) - w_id ` {w \<in> set ws. int (syncVersion m) > minimumVersion w} \<and>
   set (timers (resolveLoop ws rm m)) =
     set (timers m) - w_id ` {w \<in> set ws. int (syncVersion m) > minimumVersion w} \<and>
   length (promises (resolveLoop ws rm m)) = length (promises m) \<and>
   (\<forall>i < length (promises m). promises (resolveLoop ws rm m) ! i =
      (if promises m ! i = Pending \<and> i \<in> w_id ` {w \<in> set ws. int (syncVersion m) > minimumVersion w}
       then Resolved else promises m ! i))"
proof (induction ws rm m rule: resolveLoop.induct)
  case (2 w ws rm m)
  show ?case
  proof (cases "int (syncVersion m) > minimumVersion w")
    case True
    have "{x \<in> set (w # ws). int (syncVersion m) > minimumVersion x} =
        insert w {x \<in> set ws. int (syncVersion m) > minimumVersion x}" using True by auto
    with "2.IH"(1) [OF True] True show ?thesis
      by (simp add: settleWaiter_def clearTimer_def settle_nth pendingIds_settle) blast
  next
    case False
    then have "{x \<in> set (w # ws). int (syncVersion m) > minimumVersion x} =
        {x \<in> set ws. int (syncVersion m) > minimumVersion x}" by auto
    with "2.IH"(2) False show ?thesis by simp
  qed
qed simp

lemma rejectLoop_spec:
  "waiters m = [] \<Longrightarrow> syncVersion (rejectLoop ws m) = syncVersion m \<and> waiters (rejectLoop ws m) = [] \<and>
   pendingIds (promises (rejectLoop ws m)) = pendingIds (promises m) - w_id ` set ws \<and>
   set (timers (rejectLoop ws m)) = set (timers m) - w_id ` set ws"
proof (induction ws arbitrary: m)
  case (Cons w ws)
  from Cons.IH [of "settleWaiter Rejected (w_id w) (clearTimer (w_id w) m)"] Cons.prems show ?case
    by (auto simp: settleWaiter_def clearTimer_def pendingIds_settle)
qed simp

lemma model_ok_apply:
  assumes "model_ok m"
  shows "model_ok (applySessionStateUpdate sz cc m)"
proof -
  let ?m = "m\<lparr>fileSize := sz, changeCount := cc, syncVersion := syncVersion m + 1\<rparr>"
  have "applySessionStateUpdate sz cc m = resolveLoop (waiters m) [] ?m"
    by (simp add: applySessionStateUpdate_def resolveSyncWaiters_def)
  with assms resolveLoop_spec [of "waiters m" "[]" ?m]
    ids_filter [of "waiters m" "\<lambda>w. int (syncVersion m + 1) > minimumVersion w"]
  show ?thesis by (simp add: model_ok_def distinct_map_filter)
qed

lemma model_ok_wait:
  assumes "model_ok m"
  shows "model_ok (snd (waitForSync minimum m))"
proof -
  have "length (promises m) \<notin> pendingIds (promises m)" by (simp add: pendingIds_def)
  with assms show ?thesis
    by (auto simp: model_ok_def waitForSync_def Let_def pendingIds_append)
qed

lemma model_ok_timeout:
  assumes "model_ok m"
  shows "model_ok (timeoutFires i m)"
  using assms ids_filter [of "waiters m" "\<lambda>w. w_id w = i"]
  by (auto simp: model_ok_def timeoutFires_def settleWaiter_def clearTimer_def distinct_map_filter pendingIds_settle)

lemma model_ok_reject:
  assumes "model_ok m"
  shows "model_ok (rejectSyncWaiters m)"
  using assms rejectLoop_spec [of "m\<lparr>waiters := []\<rparr>" "waiters m"]
  by (simp add: model_ok_def rejectSyncWaiters_def)

lemma model_ok_step: "model_ok m \<Longrightarrow> model_step m m' \<Longrightarrow> model_ok m'"
proof (erule model_stepE)
  fix kind sz cc assume "model_ok m" "m' = snd (trackSessionEvent kind sz cc m)"
  then show ?thesis by (simp add: trackSessionEvent_def model_ok_apply)
next
  fix vid assume "model_ok m" "m' = updateViewportId vid m"
  then show ?thesis by (simp add: updateViewportId_def model_ok_def)
qed (auto intro: model_ok_apply model_ok_wait model_ok_timeout model_ok_reject)

lemma model_ok_new: "model_ok (newSessionModel sid vid sz cc)"
  by (simp add: newSessionModel_def model_ok_def pendingIds_def)

interpretation sm: transition_system "\<lambda>m. \<exists>sid vid sz cc. m = newSessionModel sid vid sz cc" model_step model_ok
  by unfold_locales (auto simp: model_ok_new intro: model_ok_step)

section \<open>Properties\<close>

text \<open>C9: no waiter is lost and none leaks: in every reachable state the promises that are pending
  are exactly those of the listed waiters and exactly those with an armed timer, and the
  version that a listed waiter waits for has not been reached.\<close>

theorem waiters_accounted:
  assumes "model_step\<^sup>*\<^sup>* (newSessionModel sid vid sz cc) m"
  shows "w_id ` set (waiters m) = {i. i < length (promises m) \<and> promises m ! i = Pending} \<and>
     set (timers m) = {i. i < length (promises m) \<and> promises m ! i = Pending} \<and>
     (\<forall>w \<in> set (waiters m). int (syncVersion m) \<le> minimumVersion w)"
  using sm.reachable_inv [OF _ assms] by (auto simp: model_ok_def pendingIds_def)

theorem waiters_accounted_witness:
  "w_id ` set (waiters (snd (waitForSync 2 (newSessionModel [1] [2] 10 None)))) = {0}"
proof -
  have "model_step\<^sup>*\<^sup>* (newSessionModel [1] [2] 10 None) (snd (waitForSync 2 (newSessionModel [1] [2] 10 None)))"
    by (rule r_into_rtranclp, rule model_step.wait)
  from waiters_accounted [OF this] show ?thesis
    by (auto simp: waitForSync_def newSessionModel_def Let_def)
qed

lemma apply_spec:
  fixes m sz cc
  defines "m1 \<equiv> applySessionStateUpdate sz cc m"
  shows "syncVersion m1 = syncVersion m + 1" "length (promises m1) = length (promises m)"
    "waiters m1 = filter (\<lambda>w. \<not> int (syncVersion m + 1) > minimumVersion w) (waiters m)"
    "i < length (promises m) \<Longrightarrow> promises m1 ! i =
      (if promises m ! i = Pending \<and> i \<in> w_id ` {w \<in> set (waiters m). int (syncVersion m + 1) > minimumVersion w}
       then Resolved else promises m ! i)"
  unfolding m1_def applySessionStateUpdate_def resolveSyncWaiters_def
  using resolveLoop_spec [of "waiters m" "[]" "m\<lparr>fileSize := sz, changeCount := cc, syncVersion := syncVersion m + 1\<rparr>"]
  by simp_all

lemma settled_stays:
  assumes "i < length (promises m)" "promises m ! i \<noteq> Pending"
  shows "promises (fold (\<lambda>(sz, cc). applySessionStateUpdate sz cc) us m) ! i = promises m ! i"
  using assms by (induction us arbitrary: m) (simp_all add: apply_spec split: prod.splits)

lemma applies_waiter:
  assumes "model_ok m" "w \<in> set (waiters m)"
  shows "promises (fold (\<lambda>(sz, cc). applySessionStateUpdate sz cc) us m) ! w_id w =
    (if int (syncVersion m) + int (length us) > minimumVersion w then Resolved else Pending)"
  using assms
proof (induction us arbitrary: m)
  case Nil
  then show ?case by (force simp: model_ok_def pendingIds_def)
next
  case (Cons u us)
  obtain sz cc where u: "u = (sz, cc)" by fastforce
  let ?m = "applySessionStateUpdate sz cc m"
  have id: "w_id w < length (promises m)" "promises m ! w_id w = Pending"
    using Cons.prems by (force simp: model_ok_def pendingIds_def)+
  show ?case
  proof (cases "int (syncVersion m + 1) > minimumVersion w")
    case True
    then have "promises ?m ! w_id w = Resolved"
      using apply_spec(4) [OF id(1)] id(2) Cons.prems(2) by auto
    with True settled_stays [of "w_id w" ?m us] id(1) show ?thesis by (simp add: u apply_spec)
  next
    case False
    with Cons.prems(2) have "w \<in> set (waiters ?m)" by (simp add: apply_spec)
    from Cons.IH [OF model_ok_apply [OF Cons.prems(1)] this] show ?thesis by (simp add: u apply_spec)
  qed
qed

text \<open>C28: enough updates resolve a waiter: a caller that waits for the version to pass a minimum is
  resolved by as many content updates as the version lacks, whatever sizes and counts they
  carry, and is still pending after fewer.\<close>

theorem updates_resolve_waiter:
  assumes "model_step\<^sup>*\<^sup>* (newSessionModel sid vid sz cc) m" "waitForSync minimum m = (Some i, m')"
  shows "promises (fold (\<lambda>(sz, cc). applySessionStateUpdate sz cc) us m') ! i =
    (if int (syncVersion m) + int (length us) > minimum then Resolved else Pending)"
proof -
  have "model_ok m" using sm.reachable_inv [OF _ assms(1)] by auto
  with model_ok_wait [OF this, of minimum] assms(2) have "model_ok m'" by simp
  moreover have "\<lparr>w_id = i, minimumVersion = minimum\<rparr> \<in> set (waiters m')" "syncVersion m' = syncVersion m"
    using assms(2) by (auto simp: waitForSync_def Let_def split: if_splits)
  ultimately show ?thesis using applies_waiter [of m' "\<lparr>w_id = i, minimumVersion = minimum\<rparr>" us] by simp
qed

theorem updates_resolve_waiter_witness:
  "promises (fold (\<lambda>(sz, cc). applySessionStateUpdate sz cc) [(11, 1), (12, 2)]
     (snd (waitForSync 1 (newSessionModel [1] [2] 10 None)))) ! 0 = Resolved"
proof -
  obtain m' where m': "waitForSync 1 (newSessionModel [1] [2] 10 None) = (Some 0, m')"
    by (simp add: waitForSync_def newSessionModel_def)
  from updates_resolve_waiter [OF rtranclp.rtrancl_refl m', of "[(11, 1), (12, 2)]"] m' show ?thesis
    by (simp add: newSessionModel_def)
qed

end
