(* ===== verification/JS_Text.thy ===== *)
theory JS_Text
  imports JS_Prelude
begin

text \<open>
  The conversions between JavaScript strings and bytes that the sources use: \<^verbatim>\<open>Buffer.from\<close> with
  the encodings \<^verbatim>\<open>utf8\<close> and \<^verbatim>\<open>hex\<close>, and the code points of a string. A lone surrogate
  encodes as U+FFFD; hexadecimal input is read up to the first pair that is not two digits.
\<close>

definition isHighSurrogate :: "nat \<Rightarrow> bool" where
  "isHighSurrogate u \<longleftrightarrow> 55296 \<le> u \<and> u \<le> 56319"

definition isLowSurrogate :: "nat \<Rightarrow> bool" where
  "isLowSurrogate u \<longleftrightarrow> 56320 \<le> u \<and> u \<le> 57343"

fun codePoints :: "ustring \<Rightarrow> nat list" where
  "codePoints [] = []"
| "codePoints [u] = [if isHighSurrogate u \<or> isLowSurrogate u then 65533 else u]"
| "codePoints (u # v # us) =
     (if isHighSurrogate u \<and> isLowSurrogate v
      then (65536 + (u - 55296) * 1024 + (v - 56320)) # codePoints us
      else (if isHighSurrogate u \<or> isLowSurrogate u then 65533 else u) # codePoints (v # us))"

definition encodeCodePoint :: "nat \<Rightarrow> bytes" where
  "encodeCodePoint c =
     (if c < 128 then [of_nat c]
      else if c < 2048 then [of_nat (192 + c div 64), of_nat (128 + c mod 64)]
      else if c < 65536
      then [of_nat (224 + c div 4096), of_nat (128 + c div 64 mod 64), of_nat (128 + c mod 64)]
      else [of_nat (240 + c div 262144), of_nat (128 + c div 4096 mod 64),
            of_nat (128 + c div 64 mod 64), of_nat (128 + c mod 64)])"

definition utf8Encode :: "ustring \<Rightarrow> bytes" where
  "utf8Encode s = concat (map encodeCodePoint (codePoints s))"

definition hexDigitValue :: "nat \<Rightarrow> nat option" where
  "hexDigitValue u =
     (if 48 \<le> u \<and> u \<le> 57 then Some (u - 48)
      else if 65 \<le> u \<and> u \<le> 70 then Some (u - 55)
      else if 97 \<le> u \<and> u \<le> 102 then Some (u - 87)
      else None)"

fun bufferFromHex :: "ustring \<Rightarrow> bytes" where
  "bufferFromHex (u # v # us) =
     (case (hexDigitValue u, hexDigitValue v) of
        (Some a, Some b) \<Rightarrow> of_nat (16 * a + b) # bufferFromHex us
      | _ \<Rightarrow> [])"
| "bufferFromHex _ = []"

end
