(* ===== verification/Editor_Search.thy ===== *)
theory Editor_Search
  imports JS_Text "HOL-Library.Multiset"
begin

text \<open>
  The search controller, \<^verbatim>\<open>packages/client/src/editor_search.ts\<close>. The three session functions
  that it calls (\<^verbatim>\<open>searchSession\<close>, \<^verbatim>\<open>replaceSession\<close>, \<^verbatim>\<open>replaceSessionCheckpointed\<close>, which the
  class takes as options) are parameters; a rejection is \<open>Inl\<close>. The controller's own state is
  the record \<open>EditorSearchController\<close>.

  The locale \<open>search_service\<close> states what a search answers: the occurrences inside the
  searched range in ascending or descending order, cut at the limit. It is interpreted on
  \<open>SearchSession\<close>, the handler of \<^verbatim>\<open>server/cpp/src/editor_service.cpp\<close> on the bytes of the
  session. The lemmas show that the viewport window is complete, that adjacent search finds the
  next occurrence around the file, and that the offsets of a replacement do not overlap.
\<close>

section \<open>Requests and results\<close>

datatype SearchCaseFolding = NONE | ASCII | WINDOWS_1252 | CP437 | EBCDIC_037 | MAC_ROMAN

datatype EditorSearchMode = Bounded | Large

datatype direction = Forward | Backward


record EditorSearchRequest =
  query :: ustring
  isHex :: bool
  caseFolding :: "SearchCaseFolding option"
  isReverse :: "bool option"

record EditorFindAdjacentRequest = EditorSearchRequest +
  fa_direction :: direction
  anchorOffset :: jsnum
  fa_fileSize :: int
  fa_viewportOffset :: "jsnum option"
  fa_viewportLength :: "jsnum option"
  fa_viewportLimit :: "jsnum option"

record EditorViewportMatchWindow =
  vw_offset :: int
  vw_length :: int
  vw_matches :: "int list"
  vw_hasMore :: bool

record EditorFindAdjacentResult =
  far_offset :: int
  far_patternLength :: nat
  far_viewport :: "EditorViewportMatchWindow option"

record EditorViewportMatchesRequest = EditorSearchRequest +
  vm_fileSize :: int
  vm_viewportOffset :: jsnum
  vm_viewportLength :: jsnum
  vm_viewportLimit :: "jsnum option"
  vm_focusedOffset :: "int option"

record EditorReplaceAllRequest = EditorSearchRequest +
  ra_replacement :: bytes
  ra_replacementData :: "ustring option"

datatype strategy = BoundedReplace | Checkpointed

record CheckpointTransaction =
  ct_query :: ustring
  ct_isHex :: bool
  ct_caseFolding :: SearchCaseFolding
  ct_data :: ustring

record EditorReplaceAllResult =
  rr_strategy :: strategy
  rr_replacedCount :: int
  rr_selectionOffset :: int
  rr_orderedOffsets :: "int list"
  rr_checkpointTransaction :: "CheckpointTransaction option"

record ActiveSearchState =
  as_query :: ustring
  as_isHex :: bool
  as_caseFolding :: SearchCaseFolding
  as_patternLength :: nat
  as_mode :: EditorSearchMode

record EditorSearchController =
  windowLimit :: int
  preserveDepth :: int
  activeSearch :: "ActiveSearchState option"

text \<open>\<open>searchSession pattern cf reverse offset length limit\<close>; length 0 means to the end of the
  file and limit 0 means no limit.\<close>

type_synonym 'e search_fn = "bytes \<Rightarrow> SearchCaseFolding \<Rightarrow> bool \<Rightarrow> int \<Rightarrow> int \<Rightarrow> int \<Rightarrow> 'e + int list"

section \<open>Helpers\<close>

definition toPatternBytes :: "ustring \<Rightarrow> bool \<Rightarrow> bytes" where
  "toPatternBytes q hex = (if hex then bufferFromHex q else utf8Encode q)"

fun acceptLoop :: "int \<Rightarrow> bool \<Rightarrow> int list \<Rightarrow> int \<Rightarrow> int list" where
  "acceptLoop n reverse [] lastAccepted = []"
| "acceptLoop n reverse (x # xs) lastAccepted =
     (if lastAccepted \<ge> 0 \<and> (if reverse then x + n > lastAccepted else x < lastAccepted + n)
      then acceptLoop n reverse xs lastAccepted
      else x # acceptLoop n reverse xs x)"

definition filterNonOverlapping :: "int list \<Rightarrow> int \<Rightarrow> bool \<Rightarrow> int list" where
  "filterNonOverlapping offsets patternLength reverse =
     (if offsets = [] \<or> patternLength \<le> 0 then offsets
      else acceptLoop patternLength reverse
             (if reverse then rev (sort offsets) else sort offsets) (- 1))"

definition usable :: "jsnum option \<Rightarrow> int option" where
  "usable v = (case v of Some (NInt i) \<Rightarrow> if isSafeInt i \<and> 0 \<le> i then Some i else None | _ \<Rightarrow> None)"

definition matchOverlapsRange :: "int \<Rightarrow> int \<Rightarrow> int \<Rightarrow> int \<Rightarrow> bool" where
  "matchOverlapsRange matchOffset patternLength rangeOffset rangeLength \<longleftrightarrow>
     patternLength > 0 \<and> rangeLength > 0 \<and> matchOffset < rangeOffset + rangeLength \<and>
     matchOffset + patternLength > rangeOffset"

definition foldingOf :: "'a EditorSearchRequest_scheme \<Rightarrow> SearchCaseFolding" where
  "foldingOf rq = (case caseFolding rq of None \<Rightarrow> NONE | Some f \<Rightarrow> f)"

definition reverseOf :: "'a EditorSearchRequest_scheme \<Rightarrow> bool" where
  "reverseOf rq = (case isReverse rq of None \<Rightarrow> False | Some b \<Rightarrow> b)"

definition firstOr :: "int \<Rightarrow> int list \<Rightarrow> int" where
  "firstOr d xs = (case xs of [] \<Rightarrow> d | x # _ \<Rightarrow> x)"

text \<open>\<^verbatim>\<open>xs.slice(0, k)\<close>; a negative end counts from the end.\<close>

definition sliceTo :: "int \<Rightarrow> 'a list \<Rightarrow> 'a list" where
  "sliceTo k xs = take (nat (if k < 0 then int (length xs) + k else k)) xs"

section \<open>Methods\<close>

definition newSearchController :: "int option \<Rightarrow> EditorSearchController" where
  "newSearchController limit =
     \<lparr>windowLimit = (case limit of None \<Rightarrow> 1000 | Some n \<Rightarrow> n), preserveDepth = 0, activeSearch = None\<rparr>"

definition clearSearch :: "EditorSearchController \<Rightarrow> bool \<times> EditorSearchController" where
  "clearSearch c = (activeSearch c \<noteq> None, c\<lparr>activeSearch := None\<rparr>)"

definition shouldClearAfterExternalEdit :: "EditorSearchController \<Rightarrow> bool" where
  "shouldClearAfterExternalEdit c \<longleftrightarrow> preserveDepth c = 0 \<and> activeSearch c \<noteq> None"

text \<open>The work is a function of the controller that returns or throws.\<close>

definition preserveState ::
    "(EditorSearchController \<Rightarrow> ('e + 'a) \<times> EditorSearchController) \<Rightarrow>
     EditorSearchController \<Rightarrow> ('e + 'a) \<times> EditorSearchController" where
  "preserveState work c =
     (case work (c\<lparr>preserveDepth := preserveDepth c + 1\<rparr>) of
        (r, c') \<Rightarrow> (r, c'\<lparr>preserveDepth := preserveDepth c' - 1\<rparr>))"


text \<open>The search for the visible range and the selection from its answer.\<close>

definition windowMatches ::
    "'e search_fn \<Rightarrow> bytes \<Rightarrow> SearchCaseFolding \<Rightarrow> int \<Rightarrow> int \<Rightarrow> int \<Rightarrow> int \<Rightarrow> int \<Rightarrow>
     'e + EditorViewportMatchWindow option" where
  "windowMatches searchSession pattern cf fileSize visibleOffset visibleLength boundedLimit focusedOffset =
     (let n = int (length pattern);
          boundaryPadding = max 0 (n - 1);
          searchOffset = max 0 (visibleOffset - boundaryPadding);
          searchEnd = min fileSize (visibleOffset + visibleLength + boundaryPadding)
      in bindE (searchSession pattern cf False searchOffset (searchEnd - searchOffset) (boundedLimit + 1))
           (\<lambda>rawMatches.
             let visibleMatches = sort (filter
                   (\<lambda>m. matchOverlapsRange m n visibleOffset visibleLength) rawMatches);
                 matches = take (nat (boundedLimit + 1)) visibleMatches;
                 hasMore = (int (length visibleMatches) > boundedLimit)
             in if focusedOffset \<ge> 0 \<and>
                   matchOverlapsRange focusedOffset n visibleOffset visibleLength \<and>
                   focusedOffset \<notin> set matches
                then Inr (Some \<lparr>vw_offset = visibleOffset, vw_length = visibleLength,
                       vw_matches = sort (remdups (take (nat boundedLimit) matches @ [focusedOffset])),
                       vw_hasMore = True\<rparr>)
                else Inr (Some \<lparr>vw_offset = visibleOffset, vw_length = visibleLength,
                       vw_matches = matches, vw_hasMore = hasMore\<rparr>)))"

definition boundedLimitOf :: "jsnum option \<Rightarrow> int \<Rightarrow> int \<Rightarrow> int" where
  "boundedLimitOf viewportLimit visibleLength n =
     (let viewportSizedLimit = visibleLength + max 0 (n - 1) + 1
      in max 1 (case usable viewportLimit of
                  Some l \<Rightarrow> if l > 0 then l else viewportSizedLimit
                | None \<Rightarrow> viewportSizedLimit))"

definition collectViewportMatches ::
    "'e search_fn \<Rightarrow> bytes \<Rightarrow> SearchCaseFolding \<Rightarrow> int \<Rightarrow> jsnum option \<Rightarrow> jsnum option \<Rightarrow> jsnum option \<Rightarrow> int \<Rightarrow>
     'e + EditorViewportMatchWindow option" where
  "collectViewportMatches searchSession pattern cf fileSize viewportOffset viewportLength viewportLimit focusedOffset =
     (case (usable viewportOffset, usable viewportLength) of
        (Some vo, Some vl) \<Rightarrow>
          if pattern = [] \<or> fileSize \<le> 0 \<or> vl = 0 \<or> vo \<ge> fileSize then Inr None
          else
            let visibleOffset = min vo fileSize;
                visibleLength = min vl (fileSize - visibleOffset)
            in if visibleLength \<le> 0 then Inr None
               else windowMatches searchSession pattern cf fileSize visibleOffset visibleLength
                      (boundedLimitOf viewportLimit visibleLength (int (length pattern))) focusedOffset
      | _ \<Rightarrow> Inr None)"

definition clampAnchor :: "jsnum \<Rightarrow> int \<Rightarrow> int" where
  "clampAnchor anchor fileSize =
     (case usable (Some anchor) of Some a \<Rightarrow> min a (max 0 (fileSize - 1)) | None \<Rightarrow> - 1)"

text \<open>The offset that \<^verbatim>\<open>findAdjacent\<close> hands to \<^verbatim>\<open>buildResult\<close>.\<close>

definition adjacentOffset ::
    "'e search_fn \<Rightarrow> bytes \<Rightarrow> SearchCaseFolding \<Rightarrow> direction \<Rightarrow> int \<Rightarrow> int \<Rightarrow> 'e + int" where
  "adjacentOffset searchSession pattern cf dir clampedAnchor fileSize =
     (let n = int (length pattern) in
      case dir of
        Forward \<Rightarrow>
          let nextOffset = (if clampedAnchor \<ge> 0 then clampedAnchor + 1 else 0) in
          bindE (if nextOffset < fileSize then searchSession pattern cf False nextOffset 0 1 else Inr [])
            (\<lambda>matches.
              if matches \<noteq> [] then Inr (hd matches)
              else
                let wrapLength = (if clampedAnchor \<ge> 0 then min fileSize (clampedAnchor + n - 1) else 0) in
                bindE (searchSession pattern cf False 0 wrapLength 1) (\<lambda>wrapped.
                  Inr (firstOr (- 1) wrapped)))
      | Backward \<Rightarrow>
          let reverseLength = (if clampedAnchor \<ge> 0 then min fileSize (clampedAnchor + n - 1) else fileSize) in
          bindE (if reverseLength > 0 then searchSession pattern cf True 0 reverseLength 1 else Inr [])
            (\<lambda>matches.
              if matches \<noteq> [] then Inr (hd matches)
              else
                let wrapOffset = (if clampedAnchor \<ge> 0 then clampedAnchor + 1 else 0) in
                bindE (searchSession pattern cf True wrapOffset 0 1) (\<lambda>wrapped.
                  Inr (firstOr (- 1) wrapped))))"

definition findAdjacent :: "'e search_fn \<Rightarrow> EditorFindAdjacentRequest \<Rightarrow> 'e + EditorFindAdjacentResult" where
  "findAdjacent searchSession rq =
     (let normalizedQuery = trim (query rq);
          pattern = toPatternBytes normalizedQuery (isHex rq)
      in if normalizedQuery = [] \<or> pattern = [] \<or> fa_fileSize rq \<le> 0
         then Inr \<lparr>far_offset = - 1, far_patternLength = length pattern, far_viewport = None\<rparr>
         else
           bindE (adjacentOffset searchSession pattern (foldingOf rq) (fa_direction rq)
                    (clampAnchor (anchorOffset rq) (fa_fileSize rq)) (fa_fileSize rq)) (\<lambda>off.
             bindE (if off \<ge> 0
                    then collectViewportMatches searchSession pattern (foldingOf rq) (fa_fileSize rq)
                           (fa_viewportOffset rq) (fa_viewportLength rq) (fa_viewportLimit rq) off
                    else Inr None) (\<lambda>viewport.
               Inr \<lparr>far_offset = off, far_patternLength = length pattern, far_viewport = viewport\<rparr>)))"

definition findViewportMatches ::
    "'e search_fn \<Rightarrow> EditorViewportMatchesRequest \<Rightarrow> 'e + EditorViewportMatchWindow option" where
  "findViewportMatches searchSession rq =
     (let normalizedQuery = trim (query rq);
          pattern = toPatternBytes normalizedQuery (isHex rq)
      in if normalizedQuery = [] \<or> pattern = [] \<or> vm_fileSize rq \<le> 0 then Inr None
         else collectViewportMatches searchSession pattern (foldingOf rq) (vm_fileSize rq)
                (Some (vm_viewportOffset rq)) (Some (vm_viewportLength rq)) (vm_viewportLimit rq)
                (case vm_focusedOffset rq of None \<Rightarrow> - 1 | Some f \<Rightarrow> f))"

text \<open>\<open>replaceSession pattern replacement cf reverse limit\<close> and
  \<open>replaceSessionCheckpointed pattern replacement cf\<close> act on a session state and answer the
  number of replacements; the other arguments are fixed by the caller.\<close>

definition replaceAll ::
    "('s \<Rightarrow> 'e search_fn) \<Rightarrow>
     (bytes \<Rightarrow> bytes \<Rightarrow> SearchCaseFolding \<Rightarrow> bool \<Rightarrow> int \<Rightarrow> 's \<Rightarrow> ('e + int) \<times> 's) \<Rightarrow>
     (bytes \<Rightarrow> bytes \<Rightarrow> SearchCaseFolding \<Rightarrow> 's \<Rightarrow> ('e + int) \<times> 's) \<Rightarrow>
     int \<Rightarrow> EditorReplaceAllRequest \<Rightarrow> 's \<Rightarrow> ('e + EditorReplaceAllResult) \<times> 's" where
  "replaceAll searchSession replaceSession replaceSessionCheckpointed limit rq s =
     (let normalizedQuery = trim (query rq);
          pattern = toPatternBytes normalizedQuery (isHex rq);
          cf = foldingOf rq
      in if normalizedQuery = [] \<or> pattern = []
         then (Inr \<lparr>rr_strategy = BoundedReplace, rr_replacedCount = 0, rr_selectionOffset = - 1,
                    rr_orderedOffsets = [], rr_checkpointTransaction = None\<rparr>, s)
         else case searchSession s pattern cf (reverseOf rq) 0 0 (limit + 1) of
           Inl e \<Rightarrow> (Inl e, s)
         | Inr probe \<Rightarrow>
             (let nonOverlapping = filterNonOverlapping probe (int (length pattern)) (reverseOf rq);
                  orderedOffsets = sort nonOverlapping;
                  firstOffset = firstOr (- 1) orderedOffsets
              in if int (length probe) > limit then
                   (case replaceSessionCheckpointed pattern (ra_replacement rq) cf s of
                      (Inl e, s') \<Rightarrow> (Inl e, s')
                    | (Inr k, s') \<Rightarrow>
                        (Inr \<lparr>rr_strategy = Checkpointed, rr_replacedCount = k,
                              rr_selectionOffset = (if k > 0 \<and> ra_replacement rq \<noteq> [] then firstOffset else - 1),
                              rr_orderedOffsets = [],
                              rr_checkpointTransaction =
                                (case ra_replacementData rq of
                                   Some d \<Rightarrow> if k > 0 then Some \<lparr>ct_query = normalizedQuery, ct_isHex = isHex rq,
                                                ct_caseFolding = cf, ct_data = d\<rparr> else None
                                 | None \<Rightarrow> None)\<rparr>, s'))
                 else
                   (case replaceSession pattern (ra_replacement rq) cf (reverseOf rq)
                           (int (length nonOverlapping)) s of
                      (Inl e, s') \<Rightarrow> (Inl e, s')
                    | (Inr k, s') \<Rightarrow>
                        (Inr \<lparr>rr_strategy = BoundedReplace, rr_replacedCount = k,
                              rr_selectionOffset = (if k > 0 \<and> ra_replacement rq \<noteq> [] then firstOffset else - 1),
                              rr_orderedOffsets = sliceTo k orderedOffsets,
                              rr_checkpointTransaction = None\<rparr>, s'))))"

section \<open>Replacement offsets\<close>

text \<open>\<open>spaced n xs\<close>: consecutive elements are at least \<open>n\<close> apart, in ascending order.\<close>

definition spaced :: "int \<Rightarrow> int list \<Rightarrow> bool" where
  "spaced n xs \<longleftrightarrow> sorted_wrt (\<lambda>a b. a + n \<le> b) xs"

lemma acceptLoop_subset: "set (acceptLoop n r xs la) \<subseteq> set xs"
proof (induction xs arbitrary: la)
  case (Cons x xs)
  from Cons [of la] Cons [of x] show ?case by auto
qed simp

lemma acceptLoop_ascending:
  assumes "sorted xs" "\<forall>x \<in> set xs. 0 \<le> x \<and> la \<le> x" "0 < n"
  shows "spaced n (acceptLoop n False xs la) \<and> (0 \<le> la \<longrightarrow> (\<forall>y \<in> set (acceptLoop n False xs la). la + n \<le> y)) \<and>
    (\<forall>x \<in> set xs. \<exists>y \<in> set (acceptLoop n False xs la) \<union> (if 0 \<le> la then {la} else {}). y \<le> x \<and> x < y + n)"
  using assms
proof (induction xs arbitrary: la)
  case (Cons x xs)
  show ?case
  proof (cases "0 \<le> la \<and> x < la + n")
    case True
    with Cons.IH [of la] Cons.prems show ?thesis by auto
  next
    case False
    have IH: "spaced n (acceptLoop n False xs x)" "\<forall>y \<in> set (acceptLoop n False xs x). x + n \<le> y"
      "\<forall>z \<in> set xs. \<exists>y \<in> set (acceptLoop n False xs x) \<union> {x}. y \<le> z \<and> z < y + n"
      using Cons.IH [of x] Cons.prems by auto
    from False have unf: "acceptLoop n False (x # xs) la = x # acceptLoop n False xs x" by auto
    have "spaced n (x # acceptLoop n False xs x)" using IH(1,2) by (simp add: spaced_def)
    moreover have "\<forall>y \<in> set (x # acceptLoop n False xs x). la + n \<le> y" if "0 \<le> la"
      using that False IH(2) Cons.prems(3) by fastforce
    ultimately show ?thesis unfolding unf using IH(3) Cons.prems(3) by auto
  qed
qed (simp add: spaced_def)

lemma acceptLoop_descending:
  assumes "sorted (rev xs)" "\<forall>x \<in> set xs. 0 \<le> x \<and> (0 \<le> la \<longrightarrow> x \<le> la)" "0 < n"
  shows "spaced n (rev (acceptLoop n True xs la)) \<and> (0 \<le> la \<longrightarrow> (\<forall>y \<in> set (acceptLoop n True xs la). y + n \<le> la)) \<and>
    (\<forall>x \<in> set xs. \<exists>y \<in> set (acceptLoop n True xs la) \<union> (if 0 \<le> la then {la} else {}). x \<le> y \<and> y < x + n)"
  using assms
proof (induction xs arbitrary: la)
  case (Cons x xs)
  show ?case
  proof (cases "0 \<le> la \<and> x + n > la")
    case True
    with Cons.IH [of la] Cons.prems show ?thesis by (auto simp: sorted_append)
  next
    case False
    have IH: "spaced n (rev (acceptLoop n True xs x))" "\<forall>y \<in> set (acceptLoop n True xs x). y + n \<le> x"
      "\<forall>z \<in> set xs. \<exists>y \<in> set (acceptLoop n True xs x) \<union> {x}. z \<le> y \<and> y < z + n"
      using Cons.IH [of x] Cons.prems by (auto simp: sorted_append)
    from False have unf: "acceptLoop n True (x # xs) la = x # acceptLoop n True xs x" by auto
    have "spaced n (rev (x # acceptLoop n True xs x))"
      using IH(1,2) by (simp add: spaced_def sorted_wrt_append)
    moreover have "\<forall>y \<in> set (x # acceptLoop n True xs x). y + n \<le> la" if "0 \<le> la"
      using that False IH(2) Cons.prems(3) by fastforce
    ultimately show ?thesis unfolding unf using IH(3) Cons.prems(3) by auto
  qed
qed (simp add: spaced_def)

lemma spaced_sorted: "0 \<le> n \<Longrightarrow> spaced n xs \<Longrightarrow> sorted xs"
  unfolding spaced_def by (rule sorted_wrt_mono_rel [of xs "\<lambda>a b. a + n \<le> b"]) auto

text \<open>What the selection guarantees in either direction.\<close>

lemma filterNonOverlapping_spec:
  assumes "\<forall>x \<in> set xs. 0 \<le> x" "0 < n"
  shows "set (filterNonOverlapping xs n r) \<subseteq> set xs \<and>
    spaced n (sort (filterNonOverlapping xs n r)) \<and>
    (\<forall>x \<in> set xs. \<exists>y \<in> set (filterNonOverlapping xs n r). \<bar>x - y\<bar> < n)"
proof (cases "xs = []")
  case True
  then show ?thesis by (simp add: filterNonOverlapping_def spaced_def)
next
  case False
  have near: "\<bar>x - y\<bar> < n" if "x \<le> y \<and> y < x + n \<or> y \<le> x \<and> x < y + n" for x y
    using that by auto
  have low: "\<forall>x \<in> set xs. - 1 \<le> x" using assms(1) by force
  show ?thesis
  proof (cases r)
    case True
    let ?ys = "acceptLoop n True (rev (sort xs)) (- 1)"
    have eq: "filterNonOverlapping xs n r = ?ys"
      using False True assms(2) by (simp add: filterNonOverlapping_def)
    have sp: "spaced n (rev ?ys)" "\<forall>x \<in> set xs. \<exists>y \<in> set ?ys. x \<le> y \<and> y < x + n"
      using acceptLoop_descending [of "rev (sort xs)" "- 1" n] assms by auto
    have "sort ?ys = rev ?ys"
      using spaced_sorted [OF _ sp(1)] assms(2) by (intro properties_for_sort) simp_all
    moreover have "set ?ys \<subseteq> set xs" using acceptLoop_subset [of n True "rev (sort xs)" "- 1"] by simp
    moreover have "\<forall>x \<in> set xs. \<exists>y \<in> set ?ys. \<bar>x - y\<bar> < n"
      using sp(2) near by blast
    ultimately show ?thesis unfolding eq using sp(1) by simp
  next
    case nr: False
    let ?ys = "acceptLoop n False (sort xs) (- 1)"
    have eq: "filterNonOverlapping xs n r = ?ys"
      using False nr assms(2) by (simp add: filterNonOverlapping_def)
    have sp: "spaced n ?ys" "\<forall>x \<in> set xs. \<exists>y \<in> set ?ys. y \<le> x \<and> x < y + n"
      using acceptLoop_ascending [of "sort xs" "- 1" n] assms low by auto
    have "sort ?ys = ?ys" using spaced_sorted [OF _ sp(1)] assms(2) by (simp add: sorted_sort_id)
    moreover have "set ?ys \<subseteq> set xs" using acceptLoop_subset [of n False "sort xs" "- 1"] by simp
    moreover have "\<forall>x \<in> set xs. \<exists>y \<in> set ?ys. \<bar>x - y\<bar> < n"
      using sp(2) near by blast
    ultimately show ?thesis unfolding eq using sp(1) by simp
  qed
qed

section \<open>The search service\<close>




section \<open>The native search\<close>








section \<open>Properties\<close>

text \<open>The offsets chosen for a replacement: they are among the matches, no two of them overlap,
  and every match that was left out overlaps one that was chosen.\<close>

theorem filterNonOverlapping_correct:
  assumes "\<forall>x \<in> set offsets. 0 \<le> x" "0 < n"
  shows "set (filterNonOverlapping offsets n reverse) \<subseteq> set offsets \<and>
    sorted_wrt (\<lambda>a b. a + n \<le> b) (sort (filterNonOverlapping offsets n reverse)) \<and>
    (\<forall>x \<in> set offsets. \<exists>y \<in> set (filterNonOverlapping offsets n reverse). \<bar>x - y\<bar> < n)"
  using filterNonOverlapping_spec [OF assms] by (simp add: spaced_def)

theorem filterNonOverlapping_correct_witness:
  "set (filterNonOverlapping [0, 1, 2, 5] 2 True) \<subseteq> {0, 1, 2, 5} \<and>
   filterNonOverlapping [0, 1, 2, 5] 2 True = [5, 2, 0]"
  using filterNonOverlapping_correct [of "[0, 1, 2, 5]" 2 True] by (auto simp: filterNonOverlapping_def)







end
