(* ===== verification/JS_Json.thy ===== *)
theory JS_Json
  imports JS_Text
begin

text \<open>
  \<^verbatim>\<open>TextDecoder\<close> for UTF-8 and \<^verbatim>\<open>JSON.parse\<close>, as far as the sources use them. The decoder
  replaces a malformed sequence by U+FFFD (or fails, in fatal mode) and drops a leading byte
  order mark. The parser follows the JSON grammar; the last of several properties with one name
  wins. The value of a number literal that is an integer is rounded to a double here; of
  other literals it is the parameter \<open>fractional\<close>.
\<close>

section \<open>UTF-8\<close>

text \<open>\<open>utf8Loop needed lower upper cp\<close> is the decoder's state; \<open>None\<close> marks an error.\<close>

function utf8Loop :: "nat \<Rightarrow> nat \<Rightarrow> nat \<Rightarrow> nat \<Rightarrow> nat list \<Rightarrow> nat option list" where
  "utf8Loop 0 lower upper cp [] = []"
| "utf8Loop (Suc n) lower upper cp [] = [None]"
| "utf8Loop 0 lower upper cp (b # bs) =
     (if b < 128 then Some b # utf8Loop 0 0 0 0 bs
      else if 194 \<le> b \<and> b \<le> 223 then utf8Loop 1 128 191 (b - 192) bs
      else if 224 \<le> b \<and> b \<le> 239
      then utf8Loop 2 (if b = 224 then 160 else 128) (if b = 237 then 159 else 191) (b - 224) bs
      else if 240 \<le> b \<and> b \<le> 244
      then utf8Loop 3 (if b = 240 then 144 else 128) (if b = 244 then 143 else 191) (b - 240) bs
      else None # utf8Loop 0 0 0 0 bs)"
| "utf8Loop (Suc n) lower upper cp (b # bs) =
     (if lower \<le> b \<and> b \<le> upper then
        (let cp' = cp * 64 + (b - 128) in
         if n = 0 then Some cp' # utf8Loop 0 0 0 0 bs else utf8Loop n 128 191 cp' bs)
      else None # utf8Loop 0 0 0 0 (b # bs))"
  by pat_completeness auto
termination
  by (relation "measure (\<lambda>(needed, lower, upper, cp, bs). 2 * length bs + (if needed = 0 then 0 else 1))")
    auto

definition toUtf16 :: "nat \<Rightarrow> ustring" where
  "toUtf16 c = (if c < 65536 then [c]
     else [55296 + (c - 65536) div 1024, 56320 + (c - 65536) mod 1024])"

definition stripBom :: "nat option list \<Rightarrow> nat option list" where
  "stripBom cs = (case cs of Some c # rest \<Rightarrow> if c = 65279 then rest else cs | _ \<Rightarrow> cs)"

definition textDecode :: "bytes \<Rightarrow> ustring" where
  "textDecode bs = concat (map (\<lambda>c. toUtf16 (case c of None \<Rightarrow> 65533 | Some k \<Rightarrow> k))
     (stripBom (utf8Loop 0 0 0 0 (map unat bs))))"

definition textDecodeFatal :: "bytes \<Rightarrow> ustring option" where
  "textDecodeFatal bs =
     (let cs = utf8Loop 0 0 0 0 (map unat bs) in
      if None \<in> set cs then None else Some (concat (map toUtf16 (map the (stripBom cs)))))"

section \<open>Number literals\<close>

text \<open>Rounding of an integer to 53 significant bits, ties to even.\<close>

definition roundShift :: "nat \<Rightarrow> nat \<Rightarrow> nat" where
  "roundShift n k =
     (let q = n div 2 ^ k; r = n mod 2 ^ k; half = 2 ^ (k - 1) in
      (if r > half \<or> (r = half \<and> odd q) then q + 1 else q) * 2 ^ k)"

fun bitLength :: "nat \<Rightarrow> nat" where
  "bitLength n = (if n = 0 then 0 else Suc (bitLength (n div 2)))"

declare bitLength.simps [simp del]

definition doubleOfNat :: "nat \<Rightarrow> nat" where
  "doubleOfNat n = (if n < 2 ^ 53 then n else roundShift n (bitLength n - 53))"

definition numberOfInt :: "bool \<Rightarrow> nat \<Rightarrow> jsnum" where
  "numberOfInt neg n =
     (let d = doubleOfNat n in
      if d \<ge> 2 ^ 1024 then NOther (if neg then lit ''-Infinity'' else lit ''Infinity'')
      else NInt (if neg then - int d else int d))"

fun spanDigits :: "ustring \<Rightarrow> ustring \<times> ustring" where
  "spanDigits (u # us) = (if isDigit u then (case spanDigits us of (ds, r) \<Rightarrow> (u # ds, r)) else ([], u # us))"
| "spanDigits [] = ([], [])"

text \<open>The exact value of \<open>digits * 10 ^ e\<close> when it is an integer.\<close>

definition integerValue :: "nat \<Rightarrow> int \<Rightarrow> nat option" where
  "integerValue m e =
     (if 0 \<le> e then Some (m * 10 ^ nat e)
      else if m mod 10 ^ nat (- e) = 0 then Some (m div 10 ^ nat (- e)) else None)"

section \<open>The parser\<close>

definition isJsonSpace :: "nat \<Rightarrow> bool" where
  "isJsonSpace u \<longleftrightarrow> u = 9 \<or> u = 10 \<or> u = 13 \<or> u = 32"

definition skipSpace :: "ustring \<Rightarrow> ustring" where
  "skipSpace s = dropWhile isJsonSpace s"

fun parseHex4 :: "ustring \<Rightarrow> (nat \<times> ustring) option" where
  "parseHex4 (a # b # c # d # us) =
     (case (hexDigitValue a, hexDigitValue b, hexDigitValue c, hexDigitValue d) of
        (Some w, Some x, Some y, Some z) \<Rightarrow> Some (4096 * w + 256 * x + 16 * y + z, us)
      | _ \<Rightarrow> None)"
| "parseHex4 _ = None"

definition simpleEscape :: "nat \<Rightarrow> nat option" where
  "simpleEscape u =
     (if u = 34 \<or> u = 92 \<or> u = 47 then Some u
      else if u = 98 then Some 8 else if u = 102 then Some 12 else if u = 110 then Some 10
      else if u = 114 then Some 13 else if u = 116 then Some 9 else None)"

text \<open>The rest of a string literal after its opening quote.\<close>

fun parseString :: "ustring \<Rightarrow> (ustring \<times> ustring) option" where
  "parseString [] = None"
| "parseString (u # us) =
     (if u = 34 then Some ([], us)
      else if u < 32 then None
      else if u = 92 then
        (case us of
           [] \<Rightarrow> None
         | e # r \<Rightarrow>
             if e = 117 then
               (case r of
                  a # b # c # d # r' \<Rightarrow>
                    (case parseHex4 [a, b, c, d] of
                       None \<Rightarrow> None
                     | Some (k, _) \<Rightarrow> map_option (\<lambda>(s, t). (k # s, t)) (parseString r'))
                | _ \<Rightarrow> None)
             else (case simpleEscape e of
                     None \<Rightarrow> None
                   | Some k \<Rightarrow> map_option (\<lambda>(s, t). (k # s, t)) (parseString r)))
      else map_option (\<lambda>(s, t). (u # s, t)) (parseString us))"

text \<open>The parts of a number literal: sign, digits, fraction and exponent, each with what follows it.\<close>

definition readSign :: "ustring \<Rightarrow> bool \<times> ustring" where
  "readSign s = (case s of u # us \<Rightarrow> if u = 45 then (True, us) else (False, s) | [] \<Rightarrow> (False, s))"

definition fractionPart :: "ustring \<Rightarrow> (ustring \<times> ustring) option" where
  "fractionPart s = (case s of
     u # us \<Rightarrow>
       if u = 46 then (case spanDigits us of (f, r) \<Rightarrow> if f = [] then None else Some (f, r)) else Some ([], s)
   | [] \<Rightarrow> Some ([], s))"

definition exponentSign :: "ustring \<Rightarrow> bool \<times> ustring" where
  "exponentSign s = (case s of
     v # vs \<Rightarrow> if v = 45 then (True, vs) else if v = 43 then (False, vs) else (False, s)
   | [] \<Rightarrow> (False, s))"

definition exponentPart :: "ustring \<Rightarrow> (int \<times> ustring) option" where
  "exponentPart s = (case s of
     u # us \<Rightarrow>
       if u = 101 \<or> u = 69 then
         (case exponentSign us of (neg, r) \<Rightarrow>
            (case spanDigits r of (ed, r') \<Rightarrow>
               if ed = [] then None
               else Some (if neg then - int (digitsValue ed) else int (digitsValue ed), r')))
       else Some (0, s)
   | [] \<Rightarrow> Some (0, s))"

definition parseNumber :: "(ustring \<Rightarrow> jsnum) \<Rightarrow> ustring \<Rightarrow> (jsnum \<times> ustring) option" where
  "parseNumber fractional s =
     (case readSign s of (neg, s1) \<Rightarrow>
      (case spanDigits s1 of (ds, s2) \<Rightarrow>
         if ds = [] \<or> (hd ds = 48 \<and> length ds > 1) then None
         else
           (case fractionPart s2 of
              None \<Rightarrow> None
            | Some (fd, s3) \<Rightarrow>
                (case exponentPart s3 of
                   None \<Rightarrow> None
                 | Some (ex, s4) \<Rightarrow>
                     Some
                       ((case integerValue (digitsValue (ds @ fd)) (ex - int (length fd)) of
                           Some n \<Rightarrow> numberOfInt neg n
                         | None \<Rightarrow> fractional (take (length s - length s4) s)), s4)))))"

text \<open>A property that occurs again keeps its place and takes the new value.\<close>

fun setProp :: "ustring \<Rightarrow> jsval \<Rightarrow> (ustring \<times> jsval) list \<Rightarrow> (ustring \<times> jsval) list" where
  "setProp k v [] = [(k, v)]"
| "setProp k v ((k', v') # ps) = (if k' = k then (k, v) # ps else (k', v') # setProp k v ps)"

text \<open>
  Objects list their properties in the order of enumeration: array indices first, ascending.
\<close>

definition isArrayIndex :: "ustring \<Rightarrow> bool" where
  "isArrayIndex k \<longleftrightarrow> isCanonicalDecimal k \<and> digitsValue k < 2 ^ 32 - 1"

definition propOrder :: "(ustring \<times> jsval) list \<Rightarrow> (ustring \<times> jsval) list" where
  "propOrder ps = sort_key (\<lambda>(k, v). digitsValue k) (filter (\<lambda>(k, v). isArrayIndex k) ps) @
     filter (\<lambda>(k, v). \<not> isArrayIndex k) ps"

definition expectWord :: "string \<Rightarrow> jsval \<Rightarrow> ustring \<Rightarrow> (jsval \<times> ustring) option" where
  "expectWord w v s = (if take (length w) s = lit w then Some (v, drop (length w) s) else None)"

text \<open>The recursion is bounded by the length of the text.\<close>

fun parseValue :: "(ustring \<Rightarrow> jsnum) \<Rightarrow> nat \<Rightarrow> ustring \<Rightarrow> (jsval \<times> ustring) option"
  and parseItems :: "(ustring \<Rightarrow> jsnum) \<Rightarrow> nat \<Rightarrow> ustring \<Rightarrow> (jsval list \<times> ustring) option"
  and parseProps :: "(ustring \<Rightarrow> jsnum) \<Rightarrow> nat \<Rightarrow> (ustring \<times> jsval) list \<Rightarrow> ustring \<Rightarrow>
    ((ustring \<times> jsval) list \<times> ustring) option" where
  "parseValue fr 0 s = None"
| "parseValue fr (Suc n) s =
     (case skipSpace s of
        [] \<Rightarrow> None
      | u # us \<Rightarrow>
          if u = 34 then map_option (\<lambda>(t, r). (JStr t, r)) (parseString us)
          else if u = 91 then
            (case skipSpace us of
               [] \<Rightarrow> None
             | v # vs \<Rightarrow> if v = 93 then Some (JArr [], vs)
                 else map_option (\<lambda>(xs, r). (JArr xs, r)) (parseItems fr n us))
          else if u = 123 then
            (case skipSpace us of
               [] \<Rightarrow> None
             | v # vs \<Rightarrow> if v = 125 then Some (JObj [], vs)
                 else map_option (\<lambda>(ps, r). (JObj (propOrder ps), r)) (parseProps fr n [] us))
          else if u = 116 then expectWord ''true'' (JBool True) (u # us)
          else if u = 102 then expectWord ''false'' (JBool False) (u # us)
          else if u = 110 then expectWord ''null'' JNull (u # us)
          else map_option (\<lambda>(k, r). (JNum k, r)) (parseNumber fr (u # us)))"
| "parseItems fr 0 s = None"
| "parseItems fr (Suc n) s =
     (case parseValue fr n s of
        None \<Rightarrow> None
      | Some (x, r) \<Rightarrow>
          (case skipSpace r of
             [] \<Rightarrow> None
           | u # us \<Rightarrow>
               if u = 44 then map_option (\<lambda>(xs, t). (x # xs, t)) (parseItems fr n us)
               else if u = 93 then Some ([x], us) else None))"
| "parseProps fr 0 ps s = None"
| "parseProps fr (Suc n) ps s =
     (case skipSpace s of
        u # us \<Rightarrow>
          if u \<noteq> 34 then None
          else (case parseString us of
            None \<Rightarrow> None
          | Some (k, r) \<Rightarrow>
              (case skipSpace r of
                 c # cs \<Rightarrow>
                   if c \<noteq> 58 then None
                   else (case parseValue fr n cs of
                     None \<Rightarrow> None
                   | Some (x, t) \<Rightarrow>
                       (case skipSpace t of
                          [] \<Rightarrow> None
                        | e # es \<Rightarrow>
                            if e = 44 then parseProps fr n (setProp k x ps) es
                            else if e = 125 then Some (setProp k x ps, es) else None))
               | [] \<Rightarrow> None))
      | [] \<Rightarrow> None)"

definition jsonParse :: "(ustring \<Rightarrow> jsnum) \<Rightarrow> ustring \<Rightarrow> jsval option" where
  "jsonParse fr s =
     (case parseValue fr (2 * length s + 2) s of
        Some (v, r) \<Rightarrow> if skipSpace r = [] then Some v else None
      | None \<Rightarrow> None)"

section \<open>Number to string\<close>

text \<open>
  \<^verbatim>\<open>String(n)\<close> of a double that is an integer: the fewest decimal digits that read back as
  the same double, the nearest such value if there are two, in exponent notation from 22 digits on.
\<close>

definition roundTrips :: "nat \<Rightarrow> nat \<Rightarrow> nat option" where
  "roundTrips x e =
     (let lo = x div 10 ^ e * 10 ^ e; hi = lo + 10 ^ e;
          okLo = (lo \<noteq> 0 \<and> doubleOfNat lo = x); okHi = (doubleOfNat hi = x)
      in if okLo \<and> okHi then Some (if x - lo \<le> hi - x then lo else hi)
         else if okLo then Some lo else if okHi then Some hi else None)"

definition shortestDecimal :: "nat \<Rightarrow> nat" where
  "shortestDecimal x =
     (case List.find (\<lambda>e. roundTrips x e \<noteq> None) (rev [0..<length (natDigits x)]) of
        Some e \<Rightarrow> the (roundTrips x e) | None \<Rightarrow> x)"

definition stripZeros :: "ustring \<Rightarrow> ustring" where
  "stripZeros s = rev (dropWhile (\<lambda>c. c = 48) (rev s))"

definition numberText :: "int \<Rightarrow> ustring" where
  "numberText i =
     (if \<bar>i\<bar> \<le> MAX_SAFE_INTEGER then bigintToString i
      else
        let ds = natDigits (shortestDecimal (nat \<bar>i\<bar>));
            sign = (if i < 0 then [45] else [])
        in if length ds \<le> 21 then sign @ ds
           else (let k = stripZeros ds in
             sign @ take 1 k @ (if length k = 1 then [] else 46 # drop 1 k) @ lit ''e+'' @
               natDigits (length ds - 1)))"

section \<open>JSON.stringify\<close>

definition hexUnit :: "nat \<Rightarrow> nat" where
  "hexUnit d = (if d < 10 then 48 + d else 87 + d)"

definition unicodeEscape :: "nat \<Rightarrow> ustring" where
  "unicodeEscape u = lit (CHR 0x5C # ''u'') @
     [hexUnit (u div 4096 mod 16), hexUnit (u div 256 mod 16), hexUnit (u div 16 mod 16), hexUnit (u mod 16)]"

text \<open>Control characters, quotes, backslashes and lone surrogates are escaped.\<close>

definition escapeUnit :: "nat \<Rightarrow> ustring" where
  "escapeUnit u =
     (if u = 34 \<or> u = 92 then [92, u]
      else if u = 8 then [92, 98] else if u = 9 then [92, 116] else if u = 10 then [92, 110]
      else if u = 12 then [92, 102] else if u = 13 then [92, 114]
      else if u < 32 then unicodeEscape u else [u])"

fun escapeString :: "ustring \<Rightarrow> ustring" where
  "escapeString [] = []"
| "escapeString [u] = (if isHighSurrogate u \<or> isLowSurrogate u then unicodeEscape u else escapeUnit u)"
| "escapeString (u # v # us) =
     (if isHighSurrogate u \<and> isLowSurrogate v then u # v # escapeString us
      else (if isHighSurrogate u \<or> isLowSurrogate u then unicodeEscape u else escapeUnit u) @
        escapeString (v # us))"

definition quote :: "ustring \<Rightarrow> ustring" where
  "quote s = [34] @ escapeString s @ [34]"

fun commaSep :: "ustring list \<Rightarrow> ustring" where
  "commaSep [] = []"
| "commaSep [x] = x"
| "commaSep (x # y # xs) = x @ [44] @ commaSep (y # xs)"

text \<open>
  \<^verbatim>\<open>JSON.stringify\<close> of a value without big integers. An absent or undefined property is left
  out; infinities and not-a-number give \<open>null\<close>.
\<close>

fun jsonStringify :: "jsval \<Rightarrow> ustring" where
  "jsonStringify JUndefined = lit ''null''"
| "jsonStringify JNull = lit ''null''"
| "jsonStringify (JBool b) = (if b then lit ''true'' else lit ''false'')"
| "jsonStringify (JNum (NInt i)) = numberText i"
| "jsonStringify (JNum (NOther t)) =
     (if t = lit ''NaN'' \<or> t = lit ''Infinity'' \<or> t = lit ''-Infinity'' then lit ''null'' else t)"
| "jsonStringify (JBigInt i) = lit ''null''"
| "jsonStringify (JStr s) = quote s"
| "jsonStringify (JArr xs) = [91] @ commaSep (map jsonStringify xs) @ [93]"
| "jsonStringify (JObj ps) =
     [123] @ commaSep (map (\<lambda>(k, v). quote k @ [58] @ jsonStringify v) (filter (\<lambda>(k, v). v \<noteq> JUndefined) ps)) @
     [125]"

section \<open>Reading values\<close>

named_theorems accepted \<open>what a validator accepts, and with which result\<close>

lemma guard_Some [accepted]:
  "(if c then None else m) = Some y \<longleftrightarrow> \<not> c \<and> m = Some y"
  "(if c then m else None) = Some y \<longleftrightarrow> c \<and> m = Some y"
  by simp_all

lemma bind_Some [accepted]: "Option.bind m f = Some y \<longleftrightarrow> (\<exists>x. m = Some x \<and> f x = Some y)"
  by (rule bind_eq_Some_conv)

text \<open>\<open>if (x === undefined) throw e\<close>\<close>

definition required :: "'e \<Rightarrow> 'a option \<Rightarrow> 'e + 'a" where
  "required e x = (case x of None \<Rightarrow> Inl e | Some a \<Rightarrow> Inr a)"

lemma required_simps [simp]: "required e None = Inl e" "required e (Some a) = Inr a"
  by (simp_all add: required_def)

lemma required_eq_Inr [result_simps]: "required e x = Inr a \<longleftrightarrow> x = Some a"
  by (simp add: required_def split: option.split)

lemma lit_inject [simp]: "lit a = lit b \<longleftrightarrow> a = b"
  by (simp add: lit_def inj_map_eq_map inj_def)

lemma getProp_Cons [simp]: "getProp ((lit k, v) # ps) k' = (if k = k' then v else getProp ps k')"
  by (simp add: getProp_def)

lemma getProp_Nil [simp]: "getProp [] k = JUndefined"
  by (simp add: getProp_def)

text \<open>Rules that evaluate the parser on a given text.\<close>

lemmas parse_numeral =
  parseValue.simps(2) [of _ "pred_numeral k", folded numeral_eq_Suc] 
  parseItems.simps(2) [of _ "pred_numeral k", folded numeral_eq_Suc]
  parseProps.simps(2) [of _ "pred_numeral k", folded numeral_eq_Suc] for k

lemmas json_eval = propOrder_def isArrayIndex_def isCanonicalDecimal_def jsonParse_def parse_numeral skipSpace_def isJsonSpace_def parseNumber_def
  readSign_def fractionPart_def exponentPart_def exponentSign_def
  isDigit_def digitsValue_def integerValue_def numberOfInt_def doubleOfNat_def lit_def Let_def

end
