(* ===== verification/Webview_Protocol.thy ===== *)
theory Webview_Protocol
  imports JS_Json Text_Encoding "HOL-Library.Monad_Syntax"
begin

text \<open>
  The protocol between the hex editor's webview and the extension host
  (\<^verbatim>\<open>vscode-extension/src/webviewProtocol.ts\<close>): the window of checkpoints that the timeline
  shows, and the validators that turn an unknown message or an unknown list of highlights into a
  typed one or reject it. A message object is a \<open>jsval\<close>; a rejected one gives \<open>None\<close>.
\<close>

section \<open>Limits\<close>

definition MAX_WEBVIEW_HEX_BYTES :: int where "MAX_WEBVIEW_HEX_BYTES = 16 * 1024 * 1024"
definition MAX_SEARCH_QUERY_LENGTH :: int where "MAX_SEARCH_QUERY_LENGTH = 1024 * 1024"
definition MAX_TRANSFORM_OPTIONS_LENGTH :: int where "MAX_TRANSFORM_OPTIONS_LENGTH = 256 * 1024"
definition MAX_ANALYSIS_PROFILE_BYTES :: int where "MAX_ANALYSIS_PROFILE_BYTES = 64 * 1024"
definition MAX_LABEL_LENGTH :: int where "MAX_LABEL_LENGTH = 128"
definition MAX_EXTERNAL_HIGHLIGHTS :: int where "MAX_EXTERNAL_HIGHLIGHTS = 512"
definition MIN_BYTES_PER_ROW :: int where "MIN_BYTES_PER_ROW = 8"
definition MAX_BYTES_PER_ROW :: int where "MAX_BYTES_PER_ROW = 64"
definition DEFAULT_BYTES_PER_ROW :: int where "DEFAULT_BYTES_PER_ROW = 16"
definition TIMELINE_METADATA_EDGE_COUNT :: int where "TIMELINE_METADATA_EDGE_COUNT = 8"
definition TIMELINE_METADATA_CONTEXT_RADIUS :: int where "TIMELINE_METADATA_CONTEXT_RADIUS = 12"
definition TIMELINE_METADATA_SAVED_RADIUS :: int where "TIMELINE_METADATA_SAVED_RADIUS = 4"
definition TIMELINE_METADATA_SAMPLE_COUNT :: int where "TIMELINE_METADATA_SAMPLE_COUNT = 24"

lemmas limit_defs =
  MAX_WEBVIEW_HEX_BYTES_def MAX_SEARCH_QUERY_LENGTH_def MAX_TRANSFORM_OPTIONS_LENGTH_def
  MAX_ANALYSIS_PROFILE_BYTES_def MAX_LABEL_LENGTH_def MAX_EXTERNAL_HIGHLIGHTS_def
  MIN_BYTES_PER_ROW_def MAX_BYTES_PER_ROW_def DEFAULT_BYTES_PER_ROW_def

section \<open>The checkpoints whose metadata the timeline loads\<close>

text \<open>
  \<open>Math.round (n / 23)\<close> for a natural number \<open>n\<close>. The quotient is never half-way between two
  integers, so the rounded double is exact for every count of checkpoints a session can have.
\<close>

definition roundSample :: "int \<Rightarrow> int" where
  "roundSample n = (2 * n + (TIMELINE_METADATA_SAMPLE_COUNT - 1)) div (2 * (TIMELINE_METADATA_SAMPLE_COUNT - 1))"

definition inTimeline :: "int \<Rightarrow> int list \<Rightarrow> int list" where
  "inTimeline checkpointCount cs = filter (\<lambda>c. 1 \<le> c \<and> c \<le> checkpointCount) cs"

definition checkpointTimelineMetadataWindow :: "int \<Rightarrow> int \<Rightarrow> int option \<Rightarrow> int list" where
  "checkpointTimelineMetadataWindow checkpointCount cursor savedCheckpoint =
     (let added =
        [1..TIMELINE_METADATA_EDGE_COUNT] @
        [checkpointCount - TIMELINE_METADATA_EDGE_COUNT + 1..checkpointCount] @
        [cursor - TIMELINE_METADATA_CONTEXT_RADIUS..cursor + TIMELINE_METADATA_CONTEXT_RADIUS] @
        (case savedCheckpoint of
           None \<Rightarrow> []
         | Some s \<Rightarrow> [s - TIMELINE_METADATA_SAVED_RADIUS..s + TIMELINE_METADATA_SAVED_RADIUS]) @
        (if 1 < checkpointCount
         then map (\<lambda>index. 1 + roundSample ((checkpointCount - 1) * index))
                [0..TIMELINE_METADATA_SAMPLE_COUNT - 1]
         else [])
      in sort (remdups (inTimeline checkpointCount added)))"

section \<open>Enumerations\<close>

datatype OffsetRadix = RadixHex | RadixDec
datatype GridEditPane = PaneHex | PaneAscii
datatype WebviewEditMode = ModeInsert | ModeOverwrite
datatype InsertDirection = InsertForward | InsertBackward
datatype WebviewSessionContentSource = Original | Computed | LatestCheckpoint
datatype ExternalHighlightKind =
  KindCurrent | KindParsed | KindError | KindWarning | KindBreakpoint | KindSecondary
datatype ScrollDirection = ScrollUp | ScrollDown
datatype JournalDirection = JournalOlder | JournalNewer
datatype SelectionFormat = FormatHex | FormatUtf8
datatype MatchDirection = MatchForward | MatchBackward

fun offsetRadixName :: "OffsetRadix \<Rightarrow> string" where
  "offsetRadixName RadixHex = ''hex''" | "offsetRadixName RadixDec = ''dec''"
fun gridEditPaneName :: "GridEditPane \<Rightarrow> string" where
  "gridEditPaneName PaneHex = ''hex''" | "gridEditPaneName PaneAscii = ''ascii''"
fun editModeName :: "WebviewEditMode \<Rightarrow> string" where
  "editModeName ModeInsert = ''insert''" | "editModeName ModeOverwrite = ''overwrite''"
fun insertDirectionName :: "InsertDirection \<Rightarrow> string" where
  "insertDirectionName InsertForward = ''forward''" | "insertDirectionName InsertBackward = ''backward''"
fun contentSourceName :: "WebviewSessionContentSource \<Rightarrow> string" where
  "contentSourceName Original = ''original''" | "contentSourceName Computed = ''computed''"
| "contentSourceName LatestCheckpoint = ''latestCheckpoint''"
fun highlightKindName :: "ExternalHighlightKind \<Rightarrow> string" where
  "highlightKindName KindCurrent = ''current''" | "highlightKindName KindParsed = ''parsed''"
| "highlightKindName KindError = ''error''" | "highlightKindName KindWarning = ''warning''"
| "highlightKindName KindBreakpoint = ''breakpoint''" | "highlightKindName KindSecondary = ''secondary''"
fun textEncodingName :: "TextEncoding \<Rightarrow> string" where
  "textEncodingName ASCII = ''ascii''" | "textEncodingName WINDOWS_1252 = ''windows-1252''"
| "textEncodingName CP437 = ''cp437''" | "textEncodingName EBCDIC_037_ENC = ''ebcdic-037''"
| "textEncodingName MACROMAN = ''macroman''"
fun scrollDirectionName :: "ScrollDirection \<Rightarrow> string" where
  "scrollDirectionName ScrollUp = ''up''" | "scrollDirectionName ScrollDown = ''down''"
fun journalDirectionName :: "JournalDirection \<Rightarrow> string" where
  "journalDirectionName JournalOlder = ''older''" | "journalDirectionName JournalNewer = ''newer''"
fun selectionFormatName :: "SelectionFormat \<Rightarrow> string" where
  "selectionFormatName FormatHex = ''hex''" | "selectionFormatName FormatUtf8 = ''utf8''"
fun matchDirectionName :: "MatchDirection \<Rightarrow> string" where
  "matchDirectionName MatchForward = ''forward''" | "matchDirectionName MatchBackward = ''backward''"

text \<open>\<open>value === 'a' || value === 'b' || ... ? value : undefined\<close>\<close>

definition oneOf :: "('a \<Rightarrow> string) \<Rightarrow> 'a list \<Rightarrow> jsval \<Rightarrow> 'a option" where
  "oneOf name ks v = find (\<lambda>k. v = JStr (lit (name k))) ks"

definition TEXT_ENCODING_OPTIONS :: "TextEncoding list" where
  "TEXT_ENCODING_OPTIONS = [ASCII, WINDOWS_1252, CP437, EBCDIC_037_ENC, MACROMAN]"

definition DEFAULT_TEXT_ENCODING :: TextEncoding where
  "DEFAULT_TEXT_ENCODING = ASCII"

section \<open>Validators of single values\<close>

text \<open>
  \<^verbatim>\<open>typeof value === 'object' && value !== null\<close>: arrays pass, and have the one property
  \<open>length\<close> of the names the protocol reads.
\<close>

definition asRecord :: "jsval \<Rightarrow> (ustring \<times> jsval) list option" where
  "asRecord v = (case v of
     JObj ps \<Rightarrow> Some ps
   | JArr xs \<Rightarrow> Some [(lit ''length'', JNum (NInt (int (length xs))))]
   | _ \<Rightarrow> None)"

definition safeIntegerAtLeast :: "jsval \<Rightarrow> int \<Rightarrow> int \<Rightarrow> int option" where
  "safeIntegerAtLeast v mn mx = (case v of
     JNum (NInt i) \<Rightarrow> if isSafeInt i \<and> mn \<le> i \<and> i \<le> mx then Some i else None
   | _ \<Rightarrow> None)"

definition safeNonNegativeInteger :: "jsval \<Rightarrow> int \<Rightarrow> int option" where
  "safeNonNegativeInteger v mx = (case v of
     JNum (NInt i) \<Rightarrow> if isSafeInt i \<and> 0 \<le> i \<and> i \<le> mx then Some i else None
   | _ \<Rightarrow> None)"

definition safeBoolean :: "jsval \<Rightarrow> bool \<Rightarrow> bool" where
  "safeBoolean v fallback = (case v of JBool b \<Rightarrow> b | _ \<Rightarrow> fallback)"

definition safeString :: "jsval \<Rightarrow> int \<Rightarrow> bool \<Rightarrow> ustring option" where
  "safeString v maxLength allowEmpty = (case v of
     JStr s \<Rightarrow>
       (let t = trim s in
        if (\<not> allowEmpty \<and> length t = 0) \<or> int (length t) > maxLength then None else Some t)
   | _ \<Rightarrow> None)"

definition isHexUnit :: "nat \<Rightarrow> bool" where
  "isHexUnit u \<longleftrightarrow> (48 \<le> u \<and> u \<le> 57) \<or> (97 \<le> u \<and> u \<le> 102) \<or> (65 \<le> u \<and> u \<le> 70)"

definition safeHexString :: "jsval \<Rightarrow> int \<Rightarrow> bool \<Rightarrow> ustring option" where
  "safeHexString v maxBytes allowEmpty = (case v of
     JStr s \<Rightarrow>
       (let t = filter (\<lambda>u. \<not> isJsSpace u) s in
        if (\<not> allowEmpty \<and> length t = 0) \<or> int (length t) > maxBytes * 2 then None
        else if length t mod 2 \<noteq> 0 \<or> \<not> list_all isHexUnit t then None
        else Some t)
   | _ \<Rightarrow> None)"

text \<open>Whether a text is JSON does not depend on the values of its numbers.\<close>

definition safeJsonString :: "jsval \<Rightarrow> int \<Rightarrow> ustring option" where
  "safeJsonString v maxLength = (case v of
     JStr s \<Rightarrow>
       (let t = trim s in
        if length t = 0 then None
        else if int (length t) > maxLength then None
        else if jsonParse NOther t = None then None
        else Some t)
   | _ \<Rightarrow> None)"

definition normalizeBytesPerRow :: "jsval \<Rightarrow> int" where
  "normalizeBytesPerRow v = (case v of
     JNum (NInt i) \<Rightarrow>
       if isSafeInt i \<and> MIN_BYTES_PER_ROW \<le> i \<and> i \<le> MAX_BYTES_PER_ROW then i
       else DEFAULT_BYTES_PER_ROW
   | _ \<Rightarrow> DEFAULT_BYTES_PER_ROW)"

definition normalizeBytesPerRowMode :: "jsval \<Rightarrow> string" where
  "normalizeBytesPerRowMode v = ''fixed''"

text \<open>The test \<^verbatim>\<open>raw.bytesPerRow !== bytesPerRow\<close> of the callers.\<close>

definition exactBytesPerRow :: "jsval \<Rightarrow> int option" where
  "exactBytesPerRow v =
     (let bpr = normalizeBytesPerRow v in if v = JNum (NInt bpr) then Some bpr else None)"

definition normalizeTextEncoding :: "jsval \<Rightarrow> TextEncoding" where
  "normalizeTextEncoding v =
     (case oneOf textEncodingName TEXT_ENCODING_OPTIONS v of
        Some e \<Rightarrow> e | None \<Rightarrow> DEFAULT_TEXT_ENCODING)"

definition safeTextEncoding :: "jsval \<Rightarrow> TextEncoding option" where
  "safeTextEncoding v =
     (let textEncoding = normalizeTextEncoding v in
      if v = JStr (lit (textEncodingName textEncoding)) then Some textEncoding else None)"

definition safeOffsetRadix :: "jsval \<Rightarrow> OffsetRadix option" where
  "safeOffsetRadix = oneOf offsetRadixName [RadixHex, RadixDec]"

definition safeGridEditPane :: "jsval \<Rightarrow> GridEditPane option" where
  "safeGridEditPane = oneOf gridEditPaneName [PaneHex, PaneAscii]"

definition safeWebviewEditMode :: "jsval \<Rightarrow> WebviewEditMode option" where
  "safeWebviewEditMode = oneOf editModeName [ModeInsert, ModeOverwrite]"

definition safeInsertDirection :: "jsval \<Rightarrow> InsertDirection option" where
  "safeInsertDirection = oneOf insertDirectionName [InsertForward, InsertBackward]"

definition safeSessionContentSource :: "jsval \<Rightarrow> WebviewSessionContentSource option" where
  "safeSessionContentSource = oneOf contentSourceName [Original, Computed, LatestCheckpoint]"

definition safeExternalHighlightKind :: "jsval \<Rightarrow> ExternalHighlightKind option" where
  "safeExternalHighlightKind = oneOf highlightKindName
     [KindCurrent, KindParsed, KindError, KindWarning, KindBreakpoint, KindSecondary]"

text \<open>The pattern \<^verbatim>\<open>/^(0|[1-9]\d{0,18})$/\<close>.\<close>

definition safeActionJournalDecimal :: "jsval \<Rightarrow> ustring option" where
  "safeActionJournalDecimal v = (case v of
     JStr s \<Rightarrow> if isCanonicalDecimal s \<and> length s \<le> 19 then Some s else None
   | _ \<Rightarrow> None)"

section \<open>Ranges\<close>

record WebviewSessionContentInfo =
  ci_content :: WebviewSessionContentSource
  ci_available :: bool
  ci_byteLength :: int
  ci_label :: ustring

record WebviewProtocolContext =
  fileSize :: int
  contentSources :: "WebviewSessionContentInfo list option"

definition safeFileLengthRange ::
    "WebviewProtocolContext \<Rightarrow> jsval \<Rightarrow> jsval \<Rightarrow> bool \<Rightarrow> int \<Rightarrow> (int \<times> int) option" where
  "safeFileLengthRange ctx offsetValue lengthValue allowZeroLength maxLength =
     do {
       offset \<leftarrow> safeNonNegativeInteger offsetValue MAX_SAFE_INTEGER;
       len \<leftarrow> safeNonNegativeInteger lengthValue maxLength;
       if (\<not> allowZeroLength \<and> len = 0) \<or> offset > fileSize ctx then None
       else if len > max 0 (fileSize ctx - offset) then None
       else Some (offset, len)
     }"

definition sessionContentByteLength ::
    "WebviewProtocolContext \<Rightarrow> WebviewSessionContentSource \<Rightarrow> int option" where
  "sessionContentByteLength ctx source =
     (if source = Computed then Some (fileSize ctx)
      else case contentSources ctx of
             None \<Rightarrow> None
           | Some cs \<Rightarrow> map_option ci_byteLength
               (find (\<lambda>c. ci_content c = source \<and> ci_available c) cs))"

definition safeContentLengthRange ::
    "WebviewProtocolContext \<Rightarrow> WebviewSessionContentSource \<Rightarrow> jsval \<Rightarrow> jsval \<Rightarrow> bool \<Rightarrow> int \<Rightarrow>
     (int \<times> int) option" where
  "safeContentLengthRange ctx source offsetValue lengthValue allowZeroLength maxLength =
     do {
       byteLength \<leftarrow> sessionContentByteLength ctx source;
       safeFileLengthRange \<lparr>fileSize = byteLength, contentSources = None\<rparr> offsetValue lengthValue
         allowZeroLength maxLength
     }"

definition safeFileOffset :: "WebviewProtocolContext \<Rightarrow> jsval \<Rightarrow> bool \<Rightarrow> int option" where
  "safeFileOffset ctx v allowEnd =
     safeNonNegativeInteger v (if allowEnd then fileSize ctx else max 0 (fileSize ctx - 1))"

definition safeSearchQuery :: "(ustring \<times> jsval) list \<Rightarrow> ustring option" where
  "safeSearchQuery raw =
     (if getProp raw ''isHex'' = JBool True
      then safeHexString (getProp raw ''query'') MAX_SEARCH_QUERY_LENGTH False
      else safeString (getProp raw ''query'') MAX_SEARCH_QUERY_LENGTH False)"

text \<open>An optional property: absent, or present and valid (\<open>None\<close>: present and not valid).\<close>

definition optionalProp :: "(jsval \<Rightarrow> 'a option) \<Rightarrow> jsval \<Rightarrow> 'a option option" where
  "optionalProp f v = (if v = JUndefined then Some None else map_option Some (f v))"

definition asBoolean :: "jsval \<Rightarrow> bool option" where
  "asBoolean v = (case v of JBool b \<Rightarrow> Some b | _ \<Rightarrow> None)"

section \<open>The state of the editor that the webview reports\<close>

record WebviewEditorUiState =
  visibleOffset :: int
  visibleByteCount :: int
  selectedOffset :: int
  selectionStart :: int
  selectionEnd :: int
  selectionLength :: int
  bytesPerRow :: int
  offsetRadix :: OffsetRadix
  textEncoding :: TextEncoding
  activePane :: GridEditPane
  editMode :: WebviewEditMode
  insertDirection :: InsertDirection

text \<open>The conditions on the values once each is of its type.\<close>

definition editorUiStateFits :: "WebviewProtocolContext \<Rightarrow> WebviewEditorUiState \<Rightarrow> bool" where
  "editorUiStateFits ctx st \<longleftrightarrow>
     (let hasSelection = selectionStart st \<ge> 0 \<or> selectionEnd st \<ge> 0 in
      \<not> (visibleOffset st > fileSize ctx \<or>
         visibleByteCount st > max 0 (fileSize ctx - visibleOffset st)) \<and>
      \<not> (selectedOffset st > fileSize ctx) \<and>
      \<not> (hasSelection \<and>
         (selectionStart st < 0 \<or> selectionEnd st < selectionStart st \<or>
          selectionEnd st \<ge> fileSize ctx \<or>
          selectionLength st \<noteq> selectionEnd st - selectionStart st + 1)) \<and>
      \<not> (\<not> hasSelection \<and> selectionLength st \<noteq> 0))"

definition normalizeEditorUiState ::
    "WebviewProtocolContext \<Rightarrow> (ustring \<times> jsval) list \<Rightarrow> WebviewEditorUiState option" where
  "normalizeEditorUiState ctx raw =
     do {
       vo \<leftarrow> safeNonNegativeInteger (getProp raw ''visibleOffset'') MAX_SAFE_INTEGER;
       vb \<leftarrow> safeNonNegativeInteger (getProp raw ''visibleByteCount'') MAX_WEBVIEW_HEX_BYTES;
       so \<leftarrow> safeIntegerAtLeast (getProp raw ''selectedOffset'') (- 1) MAX_SAFE_INTEGER;
       ss \<leftarrow> safeIntegerAtLeast (getProp raw ''selectionStart'') (- 1) MAX_SAFE_INTEGER;
       se \<leftarrow> safeIntegerAtLeast (getProp raw ''selectionEnd'') (- 1) MAX_SAFE_INTEGER;
       sl \<leftarrow> safeNonNegativeInteger (getProp raw ''selectionLength'') MAX_WEBVIEW_HEX_BYTES;
       rx \<leftarrow> safeOffsetRadix (getProp raw ''offsetRadix'');
       te \<leftarrow> safeTextEncoding (getProp raw ''textEncoding'');
       ap \<leftarrow> safeGridEditPane (getProp raw ''activePane'');
       em \<leftarrow> safeWebviewEditMode (getProp raw ''editMode'');
       bpr \<leftarrow> exactBytesPerRow (getProp raw ''bytesPerRow'');
       let st = \<lparr>visibleOffset = vo, visibleByteCount = vb, selectedOffset = so,
                 selectionStart = ss, selectionEnd = se, selectionLength = sl,
                 bytesPerRow = bpr, offsetRadix = rx, textEncoding = te, activePane = ap,
                 editMode = em,
                 insertDirection =
                   (case safeInsertDirection (getProp raw ''insertDirection'') of
                      Some d \<Rightarrow> d | None \<Rightarrow> InsertForward)\<rparr>;
       if editorUiStateFits ctx st then Some st else None
     }"

section \<open>External highlights\<close>

record WebviewExternalHighlight =
  h_id :: ustring
  h_offset :: int
  h_length :: int
  h_kind :: ExternalHighlightKind
  h_label :: ustring
  h_source :: "ustring option"
  h_stale :: bool

definition highlightLabel :: "ExternalHighlightKind \<Rightarrow> jsval \<Rightarrow> ustring" where
  "highlightLabel kind v =
     (let label = (case safeString v MAX_LABEL_LENGTH True of
                     Some l \<Rightarrow> l | None \<Rightarrow> lit (highlightKindName kind))
      in if label = [] then lit (highlightKindName kind) else label)"

text \<open>One pass of the loop: the ids seen so far and an element of the list.\<close>

definition normalizeHighlight ::
    "WebviewProtocolContext \<Rightarrow> ustring set \<Rightarrow> jsval \<Rightarrow> WebviewExternalHighlight option" where
  "normalizeHighlight ctx ids rawHighlight =
     do {
       raw \<leftarrow> asRecord rawHighlight;
       hid \<leftarrow> safeString (getProp raw ''id'') MAX_LABEL_LENGTH False;
       offset \<leftarrow> safeNonNegativeInteger (getProp raw ''offset'') MAX_SAFE_INTEGER;
       len \<leftarrow> safeNonNegativeInteger (getProp raw ''length'') MAX_WEBVIEW_HEX_BYTES;
       kind \<leftarrow> safeExternalHighlightKind (getProp raw ''kind'');
       source \<leftarrow> optionalProp (\<lambda>v. safeString v MAX_LABEL_LENGTH False) (getProp raw ''source'');
       if hid \<in> ids \<or> len = 0 \<or> offset \<ge> fileSize ctx \<or> len > max 0 (fileSize ctx - offset)
       then None
       else Some \<lparr>h_id = hid, h_offset = offset, h_length = len, h_kind = kind,
                  h_label = highlightLabel kind (getProp raw ''label''),
                  h_source = source, h_stale = (getProp raw ''stale'' = JBool True)\<rparr>
     }"

fun highlightLoop ::
    "WebviewProtocolContext \<Rightarrow> ustring set \<Rightarrow> jsval list \<Rightarrow> WebviewExternalHighlight list option" where
  "highlightLoop ctx ids [] = Some []"
| "highlightLoop ctx ids (r # rs) =
     (case normalizeHighlight ctx ids r of
        None \<Rightarrow> None
      | Some h \<Rightarrow> map_option (\<lambda>hs. h # hs) (highlightLoop ctx (Set.insert (h_id h) ids) rs))"

definition normalizeExternalHighlights ::
    "WebviewProtocolContext \<Rightarrow> jsval \<Rightarrow> WebviewExternalHighlight list option" where
  "normalizeExternalHighlights ctx rawHighlights = (case rawHighlights of
     JArr rs \<Rightarrow> if int (length rs) > MAX_EXTERNAL_HIGHLIGHTS then None else highlightLoop ctx {} rs
   | _ \<Rightarrow> None)"

section \<open>Messages\<close>

text \<open>The values of the property \<open>type\<close> that the host accepts.\<close>

datatype MessageType =
    T_editorStateChanged | T_scroll | T_scrollTo | T_setViewportMetrics | T_setBytesPerRow
    | T_setBytesPerRowMode | T_setTextEncoding | T_requestAnalysisProfile
    | T_requestTransformPlugins | T_cancelTransform | T_createCheckpoint | T_rollbackCheckpoint
    | T_restoreCheckpoint | T_exportChangeLog | T_applyChangeLog | T_loadRangeMap
    | T_unloadRangeMap | T_undo | T_redo | T_save | T_saveAs | T_revert | T_hideActionJournal
    | T_requestActionJournalViewport | T_navigateActionJournal | T_copySelection
    | T_cutSelection | T_insert | T_delete | T_overwrite | T_replace | T_exportRange
    | T_insertFile | T_replaceRangeWithFile | T_toggleEditMode | T_setInsertDirection
    | T_replaceAllMatches | T_applyTransform | T_search | T_goToMatch | T_findAdjacentMatch
    | T_searchViewportMatches

definition messageTypes :: "MessageType list" where
  "messageTypes =
    [T_editorStateChanged, T_scroll, T_scrollTo, T_setViewportMetrics, T_setBytesPerRow,
     T_setBytesPerRowMode, T_setTextEncoding, T_requestAnalysisProfile,
     T_requestTransformPlugins, T_cancelTransform, T_createCheckpoint, T_rollbackCheckpoint,
     T_restoreCheckpoint, T_exportChangeLog, T_applyChangeLog, T_loadRangeMap,
     T_unloadRangeMap, T_undo, T_redo, T_save, T_saveAs, T_revert, T_hideActionJournal,
     T_requestActionJournalViewport, T_navigateActionJournal, T_copySelection, T_cutSelection,
     T_insert, T_delete, T_overwrite, T_replace, T_exportRange, T_insertFile,
     T_replaceRangeWithFile, T_toggleEditMode, T_setInsertDirection, T_replaceAllMatches,
     T_applyTransform, T_search, T_goToMatch, T_findAdjacentMatch, T_searchViewportMatches]"

fun messageTypeName :: "MessageType \<Rightarrow> string" where
  "messageTypeName T_editorStateChanged = ''editorStateChanged''"
| "messageTypeName T_scroll = ''scroll''"
| "messageTypeName T_scrollTo = ''scrollTo''"
| "messageTypeName T_setViewportMetrics = ''setViewportMetrics''"
| "messageTypeName T_setBytesPerRow = ''setBytesPerRow''"
| "messageTypeName T_setBytesPerRowMode = ''setBytesPerRowMode''"
| "messageTypeName T_setTextEncoding = ''setTextEncoding''"
| "messageTypeName T_requestAnalysisProfile = ''requestAnalysisProfile''"
| "messageTypeName T_requestTransformPlugins = ''requestTransformPlugins''"
| "messageTypeName T_cancelTransform = ''cancelTransform''"
| "messageTypeName T_createCheckpoint = ''createCheckpoint''"
| "messageTypeName T_rollbackCheckpoint = ''rollbackCheckpoint''"
| "messageTypeName T_restoreCheckpoint = ''restoreCheckpoint''"
| "messageTypeName T_exportChangeLog = ''exportChangeLog''"
| "messageTypeName T_applyChangeLog = ''applyChangeLog''"
| "messageTypeName T_loadRangeMap = ''loadRangeMap''"
| "messageTypeName T_unloadRangeMap = ''unloadRangeMap''"
| "messageTypeName T_undo = ''undo''"
| "messageTypeName T_redo = ''redo''"
| "messageTypeName T_save = ''save''"
| "messageTypeName T_saveAs = ''saveAs''"
| "messageTypeName T_revert = ''revert''"
| "messageTypeName T_hideActionJournal = ''hideActionJournal''"
| "messageTypeName T_requestActionJournalViewport = ''requestActionJournalViewport''"
| "messageTypeName T_navigateActionJournal = ''navigateActionJournal''"
| "messageTypeName T_copySelection = ''copySelection''"
| "messageTypeName T_cutSelection = ''cutSelection''"
| "messageTypeName T_insert = ''insert''"
| "messageTypeName T_delete = ''delete''"
| "messageTypeName T_overwrite = ''overwrite''"
| "messageTypeName T_replace = ''replace''"
| "messageTypeName T_exportRange = ''exportRange''"
| "messageTypeName T_insertFile = ''insertFile''"
| "messageTypeName T_replaceRangeWithFile = ''replaceRangeWithFile''"
| "messageTypeName T_toggleEditMode = ''toggleEditMode''"
| "messageTypeName T_setInsertDirection = ''setInsertDirection''"
| "messageTypeName T_replaceAllMatches = ''replaceAllMatches''"
| "messageTypeName T_applyTransform = ''applyTransform''"
| "messageTypeName T_search = ''search''"
| "messageTypeName T_goToMatch = ''goToMatch''"
| "messageTypeName T_findAdjacentMatch = ''findAdjacentMatch''"
| "messageTypeName T_searchViewportMatches = ''searchViewportMatches''"

datatype WebviewToHostMessage =
    EditorStateChanged WebviewEditorUiState
  | Scroll ScrollDirection
  | ScrollTo int
  | SetViewportMetrics int
  | SetBytesPerRow int "bool option"
  | SetBytesPerRowMode
  | SetTextEncoding TextEncoding
  | RequestAnalysisProfile int int ustring ustring int bool
  | PlainMessage MessageType
  | RequestActionJournalViewport "ustring option" "int option" "JournalDirection option" "bool option"
  | NavigateActionJournal ustring
  | CopySelection int int SelectionFormat
  | CutSelection int int SelectionFormat
  | InsertMessage int ustring
  | DeleteMessage int int
  | OverwriteMessage int ustring
  | ReplaceMessage int int ustring
  | ExportRange int int
  | InsertFile int
  | ReplaceRangeWithFile int int
  | SetInsertDirection InsertDirection
  | ReplaceAllMatches ustring bool bool bool "TextEncoding option" int ustring
  | ApplyTransform ustring WebviewSessionContentSource int int "ustring option"
  | SearchMessage ustring bool bool bool "TextEncoding option"
  | GoToMatch int
  | FindAdjacentMatch ustring bool bool "TextEncoding option" MatchDirection int
  | SearchViewportMatches ustring bool bool "TextEncoding option" int int

definition normalizeSetBytesPerRow :: "(ustring \<times> jsval) list \<Rightarrow> WebviewToHostMessage option" where
  "normalizeSetBytesPerRow raw =
     do {
       bpr \<leftarrow> exactBytesPerRow (getProp raw ''bytesPerRow'');
       persist \<leftarrow> optionalProp asBoolean (getProp raw ''persist'');
       Some (SetBytesPerRow bpr persist)
     }"

definition normalizeRequestAnalysisProfile ::
    "WebviewProtocolContext \<Rightarrow> (ustring \<times> jsval) list \<Rightarrow> WebviewToHostMessage option" where
  "normalizeRequestAnalysisProfile ctx raw =
     do {
       (offset, len) \<leftarrow>
         safeFileLengthRange ctx (getProp raw ''offset'') (getProp raw ''length'') False MAX_SAFE_INTEGER;
       requestedLength \<leftarrow> safeNonNegativeInteger (getProp raw ''requestedLength'') MAX_SAFE_INTEGER;
       requestKey \<leftarrow> safeString (getProp raw ''requestKey'') MAX_LABEL_LENGTH False;
       scopeLabel \<leftarrow> safeString (getProp raw ''scopeLabel'') MAX_LABEL_LENGTH False;
       Some (RequestAnalysisProfile offset (min len MAX_ANALYSIS_PROFILE_BYTES) requestKey scopeLabel
         requestedLength (safeBoolean (getProp raw ''isCapped'') False))
     }"

definition normalizeRequestActionJournalViewport ::
    "(ustring \<times> jsval) list \<Rightarrow> WebviewToHostMessage option" where
  "normalizeRequestActionJournalViewport raw =
     do {
       anchorSerial \<leftarrow> optionalProp safeActionJournalDecimal (getProp raw ''anchorSerial'');
       capacity \<leftarrow> optionalProp (\<lambda>v. safeNonNegativeInteger v 1000) (getProp raw ''capacity'');
       direction \<leftarrow>
         optionalProp (oneOf journalDirectionName [JournalOlder, JournalNewer]) (getProp raw ''direction'');
       app \<leftarrow> optionalProp asBoolean (getProp raw ''append'');
       if capacity = Some 0 then None
       else Some (RequestActionJournalViewport anchorSerial capacity direction app)
     }"

definition normalizeSelection ::
    "(int \<Rightarrow> int \<Rightarrow> SelectionFormat \<Rightarrow> WebviewToHostMessage) \<Rightarrow> WebviewProtocolContext \<Rightarrow>
     (ustring \<times> jsval) list \<Rightarrow> WebviewToHostMessage option" where
  "normalizeSelection msg ctx raw =
     do {
       (offset, len) \<leftarrow>
         safeFileLengthRange ctx (getProp raw ''offset'') (getProp raw ''length'') False MAX_WEBVIEW_HEX_BYTES;
       format \<leftarrow> oneOf selectionFormatName [FormatHex, FormatUtf8] (getProp raw ''format'');
       Some (msg offset len format)
     }"

definition normalizeInsert ::
    "WebviewProtocolContext \<Rightarrow> (ustring \<times> jsval) list \<Rightarrow> WebviewToHostMessage option" where
  "normalizeInsert ctx raw =
     do {
       offset \<leftarrow> safeNonNegativeInteger (getProp raw ''offset'') MAX_SAFE_INTEGER;
       d \<leftarrow> safeHexString (getProp raw ''data'') MAX_WEBVIEW_HEX_BYTES False;
       if offset > fileSize ctx then None else Some (InsertMessage offset d)
     }"

text \<open>The number of bytes is half the number of digits: \<open>data.length / 2\<close> is exact, the length being even.\<close>

definition normalizeOverwrite ::
    "WebviewProtocolContext \<Rightarrow> (ustring \<times> jsval) list \<Rightarrow> WebviewToHostMessage option" where
  "normalizeOverwrite ctx raw =
     do {
       offset \<leftarrow> safeNonNegativeInteger (getProp raw ''offset'') MAX_SAFE_INTEGER;
       d \<leftarrow> safeHexString (getProp raw ''data'') MAX_WEBVIEW_HEX_BYTES False;
       if offset \<ge> fileSize ctx \<or> int (length d) div 2 > max 0 (fileSize ctx - offset) then None
       else Some (OverwriteMessage offset d)
     }"

definition normalizeReplace ::
    "WebviewProtocolContext \<Rightarrow> (ustring \<times> jsval) list \<Rightarrow> WebviewToHostMessage option" where
  "normalizeReplace ctx raw =
     do {
       (offset, len) \<leftarrow>
         safeFileLengthRange ctx (getProp raw ''offset'') (getProp raw ''length'') True MAX_SAFE_INTEGER;
       d \<leftarrow> safeHexString (getProp raw ''data'') MAX_WEBVIEW_HEX_BYTES True;
       Some (ReplaceMessage offset len d)
     }"

text \<open>The cases whose message is a range of the file: \<open>delete\<close>, \<open>exportRange\<close>, \<open>replaceRangeWithFile\<close>.\<close>

definition normalizeRange ::
    "(int \<Rightarrow> int \<Rightarrow> WebviewToHostMessage) \<Rightarrow> WebviewProtocolContext \<Rightarrow> (ustring \<times> jsval) list \<Rightarrow>
     WebviewToHostMessage option" where
  "normalizeRange msg ctx raw =
     do {
       (offset, len) \<leftarrow>
         safeFileLengthRange ctx (getProp raw ''offset'') (getProp raw ''length'') False MAX_SAFE_INTEGER;
       Some (msg offset len)
     }"

definition normalizeReplaceAllMatches :: "(ustring \<times> jsval) list \<Rightarrow> WebviewToHostMessage option" where
  "normalizeReplaceAllMatches raw =
     do {
       query \<leftarrow> safeSearchQuery raw;
       d \<leftarrow> safeHexString (getProp raw ''data'') MAX_WEBVIEW_HEX_BYTES True;
       len \<leftarrow> safeNonNegativeInteger (getProp raw ''length'') MAX_SAFE_INTEGER;
       enc \<leftarrow> optionalProp safeTextEncoding (getProp raw ''textEncoding'');
       if len = 0 then None
       else Some (ReplaceAllMatches query (getProp raw ''isHex'' = JBool True)
         (safeBoolean (getProp raw ''caseInsensitive'') False)
         (safeBoolean (getProp raw ''isReverse'') False) enc len d)
     }"

definition normalizeApplyTransform ::
    "WebviewProtocolContext \<Rightarrow> (ustring \<times> jsval) list \<Rightarrow> WebviewToHostMessage option" where
  "normalizeApplyTransform ctx raw =
     do {
       pluginId \<leftarrow> safeString (getProp raw ''pluginId'') MAX_LABEL_LENGTH False;
       source \<leftarrow> (if getProp raw ''contentSource'' = JUndefined then Some Computed
                 else safeSessionContentSource (getProp raw ''contentSource''));
       (offset, len) \<leftarrow>
         safeContentLengthRange ctx source (getProp raw ''offset'') (getProp raw ''length'') True
           MAX_SAFE_INTEGER;
       optionsJson \<leftarrow>
         optionalProp (\<lambda>v. safeJsonString v MAX_TRANSFORM_OPTIONS_LENGTH) (getProp raw ''optionsJson'');
       Some (ApplyTransform pluginId source offset len optionsJson)
     }"

definition normalizeSearch :: "(ustring \<times> jsval) list \<Rightarrow> WebviewToHostMessage option" where
  "normalizeSearch raw =
     do {
       query \<leftarrow> safeSearchQuery raw;
       enc \<leftarrow> optionalProp safeTextEncoding (getProp raw ''textEncoding'');
       Some (SearchMessage query (getProp raw ''isHex'' = JBool True)
         (safeBoolean (getProp raw ''caseInsensitive'') False)
         (safeBoolean (getProp raw ''isReverse'') False) enc)
     }"

definition normalizeFindAdjacentMatch ::
    "WebviewProtocolContext \<Rightarrow> (ustring \<times> jsval) list \<Rightarrow> WebviewToHostMessage option" where
  "normalizeFindAdjacentMatch ctx raw =
     do {
       query \<leftarrow> safeSearchQuery raw;
       offset \<leftarrow> safeFileOffset ctx (getProp raw ''offset'') False;
       enc \<leftarrow> optionalProp safeTextEncoding (getProp raw ''textEncoding'');
       direction \<leftarrow> oneOf matchDirectionName [MatchForward, MatchBackward] (getProp raw ''direction'');
       Some (FindAdjacentMatch query (getProp raw ''isHex'' = JBool True)
         (safeBoolean (getProp raw ''caseInsensitive'') False) enc direction offset)
     }"

definition normalizeSearchViewportMatches ::
    "WebviewProtocolContext \<Rightarrow> (ustring \<times> jsval) list \<Rightarrow> WebviewToHostMessage option" where
  "normalizeSearchViewportMatches ctx raw =
     do {
       query \<leftarrow> safeSearchQuery raw;
       enc \<leftarrow> optionalProp safeTextEncoding (getProp raw ''textEncoding'');
       viewportOffset \<leftarrow> safeFileOffset ctx (getProp raw ''viewportOffset'') False;
       viewportLength \<leftarrow> safeIntegerAtLeast (getProp raw ''viewportLength'') 1 MAX_SAFE_INTEGER;
       if viewportLength \<le> 0 then None
       else Some (SearchViewportMatches query (getProp raw ''isHex'' = JBool True)
         (safeBoolean (getProp raw ''caseInsensitive'') False) enc viewportOffset viewportLength)
     }"

text \<open>The switch over the type; the types not listed are answered as they are.\<close>

fun normalizeTyped ::
    "WebviewProtocolContext \<Rightarrow> (ustring \<times> jsval) list \<Rightarrow> MessageType \<Rightarrow> WebviewToHostMessage option" where
  "normalizeTyped ctx raw T_editorStateChanged =
     map_option EditorStateChanged (normalizeEditorUiState ctx raw)"
| "normalizeTyped ctx raw T_scroll =
     map_option Scroll (oneOf scrollDirectionName [ScrollUp, ScrollDown] (getProp raw ''direction''))"
| "normalizeTyped ctx raw T_scrollTo =
     map_option ScrollTo (safeFileOffset ctx (getProp raw ''offset'') False)"
| "normalizeTyped ctx raw T_setViewportMetrics =
     map_option SetViewportMetrics (safeNonNegativeInteger (getProp raw ''visibleRows'') 100000)"
| "normalizeTyped ctx raw T_setBytesPerRow = normalizeSetBytesPerRow raw"
| "normalizeTyped ctx raw T_setBytesPerRowMode =
     (if getProp raw ''mode'' = JStr (lit ''fixed'') then Some SetBytesPerRowMode else None)"
| "normalizeTyped ctx raw T_setTextEncoding =
     map_option SetTextEncoding (safeTextEncoding (getProp raw ''textEncoding''))"
| "normalizeTyped ctx raw T_requestAnalysisProfile = normalizeRequestAnalysisProfile ctx raw"
| "normalizeTyped ctx raw T_requestActionJournalViewport = normalizeRequestActionJournalViewport raw"
| "normalizeTyped ctx raw T_navigateActionJournal =
     map_option NavigateActionJournal (safeActionJournalDecimal (getProp raw ''changeCount''))"
| "normalizeTyped ctx raw T_copySelection = normalizeSelection CopySelection ctx raw"
| "normalizeTyped ctx raw T_cutSelection = normalizeSelection CutSelection ctx raw"
| "normalizeTyped ctx raw T_insert = normalizeInsert ctx raw"
| "normalizeTyped ctx raw T_delete = normalizeRange DeleteMessage ctx raw"
| "normalizeTyped ctx raw T_overwrite = normalizeOverwrite ctx raw"
| "normalizeTyped ctx raw T_replace = normalizeReplace ctx raw"
| "normalizeTyped ctx raw T_exportRange = normalizeRange ExportRange ctx raw"
| "normalizeTyped ctx raw T_insertFile =
     map_option InsertFile (safeFileOffset ctx (getProp raw ''offset'') True)"
| "normalizeTyped ctx raw T_replaceRangeWithFile = normalizeRange ReplaceRangeWithFile ctx raw"
| "normalizeTyped ctx raw T_setInsertDirection =
     map_option SetInsertDirection (safeInsertDirection (getProp raw ''insertDirection''))"
| "normalizeTyped ctx raw T_replaceAllMatches = normalizeReplaceAllMatches raw"
| "normalizeTyped ctx raw T_applyTransform = normalizeApplyTransform ctx raw"
| "normalizeTyped ctx raw T_search = normalizeSearch raw"
| "normalizeTyped ctx raw T_goToMatch =
     map_option GoToMatch (safeFileOffset ctx (getProp raw ''offset'') False)"
| "normalizeTyped ctx raw T_findAdjacentMatch = normalizeFindAdjacentMatch ctx raw"
| "normalizeTyped ctx raw T_searchViewportMatches = normalizeSearchViewportMatches ctx raw"
| "normalizeTyped ctx raw t = Some (PlainMessage t)"

definition normalizeWebviewMessage ::
    "WebviewProtocolContext \<Rightarrow> jsval \<Rightarrow> WebviewToHostMessage option" where
  "normalizeWebviewMessage ctx raw =
     do {
       ps \<leftarrow> asRecord raw;
       t \<leftarrow> oneOf messageTypeName messageTypes (getProp ps ''type'');
       normalizeTyped ctx ps t
     }"

section \<open>Lemmas on the validators\<close>

lemma oneOf_Some: "oneOf name ks v = Some k \<Longrightarrow> v = JStr (lit (name k)) \<and> k \<in> set ks"
  by (auto simp: oneOf_def find_Some_iff)

lemma oneOf_name:
  "distinct (map name ks) \<Longrightarrow> k \<in> set ks \<Longrightarrow> oneOf name ks (JStr (lit (name k))) = Some k"
  by (induction ks) (auto simp: oneOf_def rev_image_eqI)

lemma oneOf_iff:
  "distinct (map name ks) \<Longrightarrow> oneOf name ks v = Some k \<longleftrightarrow> v = JStr (lit (name k)) \<and> k \<in> set ks"
  using oneOf_Some oneOf_name by fastforce

lemma safeNonNegativeInteger_Some [accepted]:
  "safeNonNegativeInteger v mx = Some i \<longleftrightarrow> v = JNum (NInt i) \<and> isSafeInt i \<and> 0 \<le> i \<and> i \<le> mx"
  by (auto simp: safeNonNegativeInteger_def split: jsval.splits jsnum.splits)

lemma safeIntegerAtLeast_Some [accepted]:
  "safeIntegerAtLeast v mn mx = Some i \<longleftrightarrow> v = JNum (NInt i) \<and> isSafeInt i \<and> mn \<le> i \<and> i \<le> mx"
  by (auto simp: safeIntegerAtLeast_def split: jsval.splits jsnum.splits)

lemma safeFileLengthRange_Some [accepted]:
  "safeFileLengthRange ctx a b z mx = Some (offset, len) \<longleftrightarrow>
     a = JNum (NInt offset) \<and> b = JNum (NInt len) \<and> isSafeInt offset \<and> isSafeInt len \<and>
     0 \<le> offset \<and> 0 \<le> len \<and> (z \<or> 0 < len) \<and> len \<le> mx \<and> offset + len \<le> fileSize ctx"
  by (auto simp: safeFileLengthRange_def accepted isSafeInt_def)

lemma safeFileOffset_Some [accepted]:
  "safeFileOffset ctx v e = Some i \<longleftrightarrow> v = JNum (NInt i) \<and> isSafeInt i \<and> 0 \<le> i \<and>
     i \<le> (if e then fileSize ctx else max 0 (fileSize ctx - 1))"
  by (simp add: safeFileOffset_def safeNonNegativeInteger_Some)

lemma safeContentLengthRange_Some [accepted]:
  "safeContentLengthRange ctx source a b z mx = Some (offset, len) \<longleftrightarrow>
     (\<exists>n. sessionContentByteLength ctx source = Some n \<and>
       a = JNum (NInt offset) \<and> b = JNum (NInt len) \<and> isSafeInt offset \<and> isSafeInt len \<and>
       0 \<le> offset \<and> 0 \<le> len \<and> (z \<or> 0 < len) \<and> len \<le> mx \<and> offset + len \<le> n)"
  by (simp add: safeContentLengthRange_def accepted)

text \<open>The strings that the validators answer: trimmed, and of digits for hexadecimal data.\<close>

definition trimmedText :: "int \<Rightarrow> bool \<Rightarrow> ustring \<Rightarrow> bool" where
  "trimmedText mx allowEmpty t \<longleftrightarrow> trim t = t \<and> (allowEmpty \<or> t \<noteq> []) \<and> int (length t) \<le> mx"

definition hexText :: "int \<Rightarrow> bool \<Rightarrow> ustring \<Rightarrow> bool" where
  "hexText maxBytes allowEmpty t \<longleftrightarrow>
     list_all isHexUnit t \<and> even (length t) \<and> (allowEmpty \<or> t \<noteq> []) \<and> int (length t) \<le> maxBytes * 2"

lemma safeString_Some [accepted]:
  "safeString v mx e = Some t \<longleftrightarrow> (\<exists>s. v = JStr s \<and> trim s = t \<and> trimmedText mx e t)"
  by (auto simp: safeString_def trimmedText_def Let_def split: jsval.splits)

lemma isHexUnit_not_space: "isHexUnit u \<Longrightarrow> \<not> isJsSpace u"
  by (auto simp: isHexUnit_def isJsSpace_def)

lemma hex_no_space: "list_all isHexUnit t \<Longrightarrow> filter (\<lambda>u. \<not> isJsSpace u) t = t"
  by (auto simp: list_all_iff isHexUnit_not_space intro: filter_True)

lemma safeHexString_Some [accepted]:
  "safeHexString v mx e = Some t \<longleftrightarrow>
     (\<exists>s. v = JStr s \<and> filter (\<lambda>u. \<not> isJsSpace u) s = t \<and> hexText mx e t)"
  by (auto simp: safeHexString_def hexText_def Let_def even_iff_mod_2_eq_zero split: jsval.splits)

lemma safeJsonString_Some [accepted]:
  "safeJsonString v mx = Some t \<longleftrightarrow>
     (\<exists>s. v = JStr s \<and> trim s = t \<and> trimmedText mx False t \<and> jsonParse NOther t \<noteq> None)"
  by (auto simp: safeJsonString_def trimmedText_def Let_def split: jsval.splits)

lemma safeActionJournalDecimal_Some [accepted]:
  "safeActionJournalDecimal v = Some t \<longleftrightarrow> v = JStr t \<and> isCanonicalDecimal t \<and> length t \<le> 19"
  by (auto simp: safeActionJournalDecimal_def split: jsval.splits)

lemma asBoolean_Some [accepted]: "asBoolean v = Some b \<longleftrightarrow> v = JBool b"
  by (auto simp: asBoolean_def split: jsval.splits)

lemma exactBytesPerRow_Some [accepted]:
  "exactBytesPerRow v = Some i \<longleftrightarrow> v = JNum (NInt i) \<and> MIN_BYTES_PER_ROW \<le> i \<and> i \<le> MAX_BYTES_PER_ROW"
  by (cases v) (auto simp: exactBytesPerRow_def normalizeBytesPerRow_def limit_defs isSafeInt_def
      MAX_SAFE_INTEGER_def Let_def split: if_splits jsnum.splits)

lemma text_encoding_names: "distinct (map textEncodingName TEXT_ENCODING_OPTIONS)"
  by code_simp

lemma text_encoding_all: "e \<in> set TEXT_ENCODING_OPTIONS"
  by (cases e) (simp_all add: TEXT_ENCODING_OPTIONS_def)

lemma safeTextEncoding_Some [accepted]:
  "safeTextEncoding v = Some e \<longleftrightarrow> v = JStr (lit (textEncodingName e))"
  unfolding safeTextEncoding_def normalizeTextEncoding_def Let_def
  by (auto simp: oneOf_iff [OF text_encoding_names] text_encoding_all DEFAULT_TEXT_ENCODING_def
      split: option.splits)
     (metis oneOf_name option.distinct(1) option.inject text_encoding_all text_encoding_names)+

lemma safeOffsetRadix_Some [accepted]: "safeOffsetRadix v = Some r \<longleftrightarrow> v = JStr (lit (offsetRadixName r))"
  by (cases r) (auto simp: safeOffsetRadix_def oneOf_iff)

lemma safeGridEditPane_Some [accepted]: "safeGridEditPane v = Some r \<longleftrightarrow> v = JStr (lit (gridEditPaneName r))"
  by (cases r) (auto simp: safeGridEditPane_def oneOf_iff)

lemma safeWebviewEditMode_Some [accepted]: "safeWebviewEditMode v = Some r \<longleftrightarrow> v = JStr (lit (editModeName r))"
  by (cases r) (auto simp: safeWebviewEditMode_def oneOf_iff)

lemma safeInsertDirection_Some [accepted]:
  "safeInsertDirection v = Some r \<longleftrightarrow> v = JStr (lit (insertDirectionName r))"
  by (cases r) (auto simp: safeInsertDirection_def oneOf_iff)

lemma safeSessionContentSource_Some [accepted]:
  "safeSessionContentSource v = Some r \<longleftrightarrow> v = JStr (lit (contentSourceName r))"
  by (cases r) (auto simp: safeSessionContentSource_def oneOf_iff)

lemma safeExternalHighlightKind_Some [accepted]:
  "safeExternalHighlightKind v = Some r \<longleftrightarrow> v = JStr (lit (highlightKindName r))"
  by (cases r) (auto simp: safeExternalHighlightKind_def oneOf_iff)

lemma scrollDirection_Some [accepted]:
  "oneOf scrollDirectionName [ScrollUp, ScrollDown] v = Some r \<longleftrightarrow> v = JStr (lit (scrollDirectionName r))"
  by (cases r) (auto simp: oneOf_iff)

lemma journalDirection_Some [accepted]:
  "oneOf journalDirectionName [JournalOlder, JournalNewer] v = Some r \<longleftrightarrow>
     v = JStr (lit (journalDirectionName r))"
  by (cases r) (auto simp: oneOf_iff)

lemma selectionFormat_Some [accepted]:
  "oneOf selectionFormatName [FormatHex, FormatUtf8] v = Some r \<longleftrightarrow> v = JStr (lit (selectionFormatName r))"
  by (cases r) (auto simp: oneOf_iff)

lemma matchDirection_Some [accepted]:
  "oneOf matchDirectionName [MatchForward, MatchBackward] v = Some r \<longleftrightarrow>
     v = JStr (lit (matchDirectionName r))"
  by (cases r) (auto simp: oneOf_iff)

lemma message_names: "distinct (map messageTypeName messageTypes)"
  by code_simp

lemma messageTypes_all: "t \<in> set messageTypes"
  by (cases t) (simp_all add: messageTypes_def)

lemma messageType_Some [accepted]:
  "oneOf messageTypeName messageTypes v = Some t \<longleftrightarrow> v = JStr (lit (messageTypeName t))"
  by (simp add: oneOf_iff message_names messageTypes_all)

lemma optionalProp_Some [accepted]:
  "optionalProp f v = Some x \<longleftrightarrow>
     (case x of None \<Rightarrow> v = JUndefined | Some y \<Rightarrow> v \<noteq> JUndefined \<and> f v = Some y)"
  by (auto simp: optionalProp_def split: option.splits)

section \<open>What the host may rely on\<close>

definition rangeFits :: "int \<Rightarrow> int \<Rightarrow> int \<Rightarrow> int \<Rightarrow> int \<Rightarrow> bool" where
  "rangeFits bound minLength maxLength offset len \<longleftrightarrow>
     isSafeInt offset \<and> isSafeInt len \<and> 0 \<le> offset \<and> minLength \<le> len \<and> len \<le> maxLength \<and>
     offset + len \<le> bound"

definition safeOffset :: "int \<Rightarrow> int \<Rightarrow> bool" where
  "safeOffset mx i \<longleftrightarrow> isSafeInt i \<and> 0 \<le> i \<and> i \<le> mx"

definition lastOffset :: "WebviewProtocolContext \<Rightarrow> int" where
  "lastOffset ctx = max 0 (fileSize ctx - 1)"

definition searchQuery :: "bool \<Rightarrow> ustring \<Rightarrow> bool" where
  "searchQuery isHex q \<longleftrightarrow>
     (if isHex then hexText MAX_SEARCH_QUERY_LENGTH False q
      else trimmedText MAX_SEARCH_QUERY_LENGTH False q)"

definition plainTypes :: "MessageType set" where
  "plainTypes =
     {T_requestTransformPlugins, T_cancelTransform, T_createCheckpoint, T_rollbackCheckpoint,
      T_restoreCheckpoint, T_exportChangeLog, T_applyChangeLog, T_loadRangeMap, T_unloadRangeMap,
      T_undo, T_redo, T_save, T_saveAs, T_revert, T_hideActionJournal, T_toggleEditMode}"

definition uiStateOk :: "WebviewProtocolContext \<Rightarrow> WebviewEditorUiState \<Rightarrow> bool" where
  "uiStateOk ctx st \<longleftrightarrow>
     rangeFits (fileSize ctx) 0 MAX_WEBVIEW_HEX_BYTES (visibleOffset st) (visibleByteCount st) \<and>
     isSafeInt (selectedOffset st) \<and> - 1 \<le> selectedOffset st \<and> selectedOffset st \<le> fileSize ctx \<and>
     MIN_BYTES_PER_ROW \<le> bytesPerRow st \<and> bytesPerRow st \<le> MAX_BYTES_PER_ROW \<and>
     (if selectionLength st = 0 then selectionStart st = - 1 \<and> selectionEnd st = - 1
      else rangeFits (fileSize ctx) 1 MAX_WEBVIEW_HEX_BYTES (selectionStart st) (selectionLength st) \<and>
           isSafeInt (selectionEnd st) \<and> selectionEnd st = selectionStart st + selectionLength st - 1)"

fun messageFits :: "WebviewProtocolContext \<Rightarrow> WebviewToHostMessage \<Rightarrow> bool" where
  "messageFits ctx (EditorStateChanged st) = uiStateOk ctx st"
| "messageFits ctx (Scroll d) = True"
| "messageFits ctx (ScrollTo i) = safeOffset (lastOffset ctx) i"
| "messageFits ctx (SetViewportMetrics n) = safeOffset 100000 n"
| "messageFits ctx (SetBytesPerRow n persist) = (MIN_BYTES_PER_ROW \<le> n \<and> n \<le> MAX_BYTES_PER_ROW)"
| "messageFits ctx SetBytesPerRowMode = True"
| "messageFits ctx (SetTextEncoding e) = True"
| "messageFits ctx (RequestAnalysisProfile offset len key scope requested capped) =
     (rangeFits (fileSize ctx) 1 MAX_ANALYSIS_PROFILE_BYTES offset len \<and>
      trimmedText MAX_LABEL_LENGTH False key \<and> trimmedText MAX_LABEL_LENGTH False scope \<and>
      safeOffset MAX_SAFE_INTEGER requested)"
| "messageFits ctx (PlainMessage t) = (t \<in> plainTypes)"
| "messageFits ctx (RequestActionJournalViewport anchor capacity direction app) =
     (pred_option (\<lambda>s. isCanonicalDecimal s \<and> length s \<le> 19) anchor \<and>
      pred_option (\<lambda>n. 0 < n \<and> safeOffset 1000 n) capacity)"
| "messageFits ctx (NavigateActionJournal s) = (isCanonicalDecimal s \<and> length s \<le> 19)"
| "messageFits ctx (CopySelection offset len format) =
     rangeFits (fileSize ctx) 1 MAX_WEBVIEW_HEX_BYTES offset len"
| "messageFits ctx (CutSelection offset len format) =
     rangeFits (fileSize ctx) 1 MAX_WEBVIEW_HEX_BYTES offset len"
| "messageFits ctx (InsertMessage offset d) =
     (safeOffset (fileSize ctx) offset \<and> hexText MAX_WEBVIEW_HEX_BYTES False d)"
| "messageFits ctx (DeleteMessage offset len) = rangeFits (fileSize ctx) 1 MAX_SAFE_INTEGER offset len"
| "messageFits ctx (OverwriteMessage offset d) =
     (safeOffset (fileSize ctx) offset \<and> hexText MAX_WEBVIEW_HEX_BYTES False d \<and>
      offset + int (length d) div 2 \<le> fileSize ctx)"
| "messageFits ctx (ReplaceMessage offset len d) =
     (rangeFits (fileSize ctx) 0 MAX_SAFE_INTEGER offset len \<and> hexText MAX_WEBVIEW_HEX_BYTES True d)"
| "messageFits ctx (ExportRange offset len) = rangeFits (fileSize ctx) 1 MAX_SAFE_INTEGER offset len"
| "messageFits ctx (InsertFile offset) = safeOffset (fileSize ctx) offset"
| "messageFits ctx (ReplaceRangeWithFile offset len) =
     rangeFits (fileSize ctx) 1 MAX_SAFE_INTEGER offset len"
| "messageFits ctx (SetInsertDirection d) = True"
| "messageFits ctx (ReplaceAllMatches q hex ci rv enc len d) =
     (searchQuery hex q \<and> hexText MAX_WEBVIEW_HEX_BYTES True d \<and> 0 < len \<and> safeOffset MAX_SAFE_INTEGER len)"
| "messageFits ctx (ApplyTransform plugin source offset len opts) =
     (trimmedText MAX_LABEL_LENGTH False plugin \<and>
      (\<exists>n. sessionContentByteLength ctx source = Some n \<and>
           rangeFits n 0 MAX_SAFE_INTEGER offset len) \<and>
      pred_option (\<lambda>j. trimmedText MAX_TRANSFORM_OPTIONS_LENGTH False j \<and> jsonParse NOther j \<noteq> None) opts)"
| "messageFits ctx (SearchMessage q hex ci rv enc) = searchQuery hex q"
| "messageFits ctx (GoToMatch i) = safeOffset (lastOffset ctx) i"
| "messageFits ctx (FindAdjacentMatch q hex ci enc dir offset) =
     (searchQuery hex q \<and> safeOffset (lastOffset ctx) offset)"
| "messageFits ctx (SearchViewportMatches q hex ci enc offset len) =
     (searchQuery hex q \<and> safeOffset (lastOffset ctx) offset \<and> 0 < len \<and> safeOffset MAX_SAFE_INTEGER len)"

lemmas fits_defs = rangeFits_def safeOffset_def lastOffset_def searchQuery_def

lemma safeSearchQuery_fits:
  "safeSearchQuery raw = Some q \<Longrightarrow> searchQuery (getProp raw ''isHex'' = JBool True) q"
  by (auto simp: safeSearchQuery_def searchQuery_def accepted split: if_splits)

lemma optionalProp_pred:
  "optionalProp f v = Some x \<Longrightarrow> (\<And>y. f v = Some y \<Longrightarrow> P y) \<Longrightarrow> pred_option P x"
  by (cases x) (auto simp: optionalProp_Some)

lemma normalizeEditorUiState_Some:
  "normalizeEditorUiState ctx raw = Some st \<longleftrightarrow>
     safeNonNegativeInteger (getProp raw ''visibleOffset'') MAX_SAFE_INTEGER = Some (visibleOffset st) \<and>
     safeNonNegativeInteger (getProp raw ''visibleByteCount'') MAX_WEBVIEW_HEX_BYTES
       = Some (visibleByteCount st) \<and>
     safeIntegerAtLeast (getProp raw ''selectedOffset'') (- 1) MAX_SAFE_INTEGER = Some (selectedOffset st) \<and>
     safeIntegerAtLeast (getProp raw ''selectionStart'') (- 1) MAX_SAFE_INTEGER = Some (selectionStart st) \<and>
     safeIntegerAtLeast (getProp raw ''selectionEnd'') (- 1) MAX_SAFE_INTEGER = Some (selectionEnd st) \<and>
     safeNonNegativeInteger (getProp raw ''selectionLength'') MAX_WEBVIEW_HEX_BYTES
       = Some (selectionLength st) \<and>
     safeOffsetRadix (getProp raw ''offsetRadix'') = Some (offsetRadix st) \<and>
     safeTextEncoding (getProp raw ''textEncoding'') = Some (textEncoding st) \<and>
     safeGridEditPane (getProp raw ''activePane'') = Some (activePane st) \<and>
     safeWebviewEditMode (getProp raw ''editMode'') = Some (editMode st) \<and>
     exactBytesPerRow (getProp raw ''bytesPerRow'') = Some (bytesPerRow st) \<and>
     insertDirection st =
       (case safeInsertDirection (getProp raw ''insertDirection'') of Some d \<Rightarrow> d | None \<Rightarrow> InsertForward) \<and>
     editorUiStateFits ctx st"
  (is "?l = ?r")
proof
  show "?l \<Longrightarrow> ?r"
    unfolding normalizeEditorUiState_def Let_def bind_Some guard_Some by clarsimp
  show "?r \<Longrightarrow> ?l"
    unfolding normalizeEditorUiState_def Let_def by (cases st) simp
qed

lemma editorUiStateFits_ok:
  assumes "editorUiStateFits ctx st"
    and "0 \<le> visibleOffset st" "0 \<le> visibleByteCount st" "- 1 \<le> selectedOffset st"
    and "- 1 \<le> selectionStart st" "- 1 \<le> selectionEnd st" "0 \<le> selectionLength st"
  shows "visibleOffset st + visibleByteCount st \<le> fileSize ctx \<and> selectedOffset st \<le> fileSize ctx \<and>
    (if selectionLength st = 0 then selectionStart st = - 1 \<and> selectionEnd st = - 1
     else 0 \<le> selectionStart st \<and> selectionEnd st = selectionStart st + selectionLength st - 1 \<and>
          selectionStart st + selectionLength st \<le> fileSize ctx)"
  using assms unfolding editorUiStateFits_def Let_def by (auto split: if_splits)

lemma normalizeEditorUiState_fits:
  assumes "normalizeEditorUiState ctx raw = Some st"
  shows "uiStateOk ctx st"
proof -
  note n = assms [unfolded normalizeEditorUiState_Some accepted]
  have f: "visibleOffset st + visibleByteCount st \<le> fileSize ctx \<and> selectedOffset st \<le> fileSize ctx \<and>
    (if selectionLength st = 0 then selectionStart st = - 1 \<and> selectionEnd st = - 1
     else 0 \<le> selectionStart st \<and> selectionEnd st = selectionStart st + selectionLength st - 1 \<and>
          selectionStart st + selectionLength st \<le> fileSize ctx)"
    using n by (intro editorUiStateFits_ok) simp_all
  show ?thesis
    unfolding uiStateOk_def rangeFits_def using n f by (simp split: if_splits)
qed

lemma requestAnalysisProfile_fits:
  "normalizeRequestAnalysisProfile ctx raw = Some m \<Longrightarrow> messageFits ctx m"
  by (auto simp: normalizeRequestAnalysisProfile_def accepted fits_defs limit_defs
      isSafeInt_def min_def)

lemma requestActionJournalViewport_fits:
  assumes "normalizeRequestActionJournalViewport raw = Some m"
  shows "messageFits ctx m"
proof -
  obtain a c d p where m: "m = RequestActionJournalViewport a c d p" and c: "c \<noteq> Some 0"
    and o: "optionalProp safeActionJournalDecimal (getProp raw ''anchorSerial'') = Some a"
      "optionalProp (\<lambda>v. safeNonNegativeInteger v 1000) (getProp raw ''capacity'') = Some c"
    using assms unfolding normalizeRequestActionJournalViewport_def bind_Some guard_Some by auto
  have "pred_option (\<lambda>s. isCanonicalDecimal s \<and> length s \<le> 19) a"
    using o(1) by (rule optionalProp_pred) (simp add: accepted)
  moreover have "pred_option (safeOffset 1000) c"
    using o(2) by (rule optionalProp_pred) (simp add: accepted safeOffset_def)
  ultimately show ?thesis
    using m c by (cases c) (auto simp: safeOffset_def)
qed

lemma selection_fits:
  "normalizeSelection CopySelection ctx raw = Some m \<Longrightarrow> messageFits ctx m"
  "normalizeSelection CutSelection ctx raw = Some m \<Longrightarrow> messageFits ctx m"
  by (auto simp: normalizeSelection_def accepted rangeFits_def)

lemma range_fits:
  "normalizeRange DeleteMessage ctx raw = Some m \<Longrightarrow> messageFits ctx m"
  "normalizeRange ExportRange ctx raw = Some m \<Longrightarrow> messageFits ctx m"
  "normalizeRange ReplaceRangeWithFile ctx raw = Some m \<Longrightarrow> messageFits ctx m"
  by (auto simp: normalizeRange_def accepted rangeFits_def)

lemma edit_fits:
  "normalizeInsert ctx raw = Some m \<Longrightarrow> messageFits ctx m"
  "normalizeOverwrite ctx raw = Some m \<Longrightarrow> messageFits ctx m"
  "normalizeReplace ctx raw = Some m \<Longrightarrow> messageFits ctx m"
  by (auto simp: normalizeInsert_def normalizeOverwrite_def normalizeReplace_def accepted fits_defs)

lemma applyTransform_fits:
  assumes "normalizeApplyTransform ctx raw = Some m"
  shows "messageFits ctx m"
proof -
  obtain p src offset len j where m: "m = ApplyTransform p src offset len j"
    and p: "safeString (getProp raw ''pluginId'') MAX_LABEL_LENGTH False = Some p"
    and r: "safeContentLengthRange ctx src (getProp raw ''offset'') (getProp raw ''length'') True
      MAX_SAFE_INTEGER = Some (offset, len)"
    and j: "optionalProp (\<lambda>v. safeJsonString v MAX_TRANSFORM_OPTIONS_LENGTH)
      (getProp raw ''optionsJson'') = Some j"
    using assms by (auto simp: normalizeApplyTransform_def bind_Some)
  have "pred_option (\<lambda>j. trimmedText MAX_TRANSFORM_OPTIONS_LENGTH False j \<and> jsonParse NOther j \<noteq> None) j"
    using j by (rule optionalProp_pred) (auto simp: accepted)
  then show ?thesis
    using m p r by (auto simp: accepted rangeFits_def)
qed

lemma search_fits:
  "normalizeReplaceAllMatches raw = Some m \<Longrightarrow> messageFits ctx m"
  "normalizeSearch raw = Some m \<Longrightarrow> messageFits ctx m"
  "normalizeFindAdjacentMatch ctx raw = Some m \<Longrightarrow> messageFits ctx m"
  "normalizeSearchViewportMatches ctx raw = Some m \<Longrightarrow> messageFits ctx m"
  unfolding normalizeReplaceAllMatches_def normalizeSearch_def normalizeFindAdjacentMatch_def
    normalizeSearchViewportMatches_def bind_Some guard_Some safeOffset_def lastOffset_def
  by (auto simp: safeHexString_Some safeNonNegativeInteger_Some safeFileOffset_Some
      safeIntegerAtLeast_Some safeOffset_def lastOffset_def dest!: safeSearchQuery_fits)

lemmas all_fit = requestAnalysisProfile_fits requestActionJournalViewport_fits selection_fits
  range_fits edit_fits applyTransform_fits search_fits

lemma setBytesPerRow_fits: "normalizeSetBytesPerRow raw = Some m \<Longrightarrow> messageFits ctx m"
  by (auto simp: normalizeSetBytesPerRow_def accepted)

lemma normalizeTyped_fits:
  assumes "normalizeTyped ctx raw t = Some m"
  shows "messageFits ctx m"
proof (cases "t \<in> plainTypes")
  case True
  then show ?thesis
    using assms by (auto simp: plainTypes_def)
next
  case False
  then show ?thesis
    using assms
    by (cases t) (auto simp: plainTypes_def all_fit setBytesPerRow_fits normalizeEditorUiState_fits
        accepted fits_defs split: if_splits)
qed

lemma normalize_fits: "normalizeWebviewMessage ctx raw = Some m \<Longrightarrow> messageFits ctx m"
  by (auto simp: normalizeWebviewMessage_def accepted intro: normalizeTyped_fits)

lemma messageType_is:
  "oneOf messageTypeName messageTypes (JStr (lit ''overwrite'')) = Some T_overwrite"
  "oneOf messageTypeName messageTypes (JStr (lit ''search'')) = Some T_search"
  by (simp_all add: messageType_Some)

lemmas eval_text = safeNonNegativeInteger_def safeHexString_def safeString_def safeSearchQuery_def
  optionalProp_def safeBoolean_def safeTextEncoding_def normalizeTextEncoding_def oneOf_def
  TEXT_ENCODING_OPTIONS_def lit_def isHexUnit_def isJsSpace_def trim_def limit_defs
  MAX_SAFE_INTEGER_def isSafeInt_def Let_def

text \<open>C12: a message that the host accepts is one it can act on: every offset and range lies within
  the file (or within the content a transform reads), the lengths respect the limits, hexadecimal
  data has whole bytes, and names and queries are trimmed and not empty.\<close>

theorem accepted_message_fits:
  assumes "normalizeWebviewMessage ctx raw = Some m"
  shows "messageFits ctx m"
  using assms by (rule normalize_fits)

lemma accepted_message_fits_witness:
  "normalizeWebviewMessage \<lparr>fileSize = 10, contentSources = None\<rparr>
     (JObj [(lit ''type'', JStr (lit ''overwrite'')), (lit ''offset'', JNum (NInt 8)),
            (lit ''data'', JStr (lit '' 0aFF''))])
     = Some (OverwriteMessage 8 (lit ''0aFF'')) \<and>
   messageFits \<lparr>fileSize = 10, contentSources = None\<rparr> (OverwriteMessage 8 (lit ''0aFF''))"
proof -
  have e: "normalizeWebviewMessage \<lparr>fileSize = 10, contentSources = None\<rparr>
     (JObj [(lit ''type'', JStr (lit ''overwrite'')), (lit ''offset'', JNum (NInt 8)),
            (lit ''data'', JStr (lit '' 0aFF''))]) = Some (OverwriteMessage 8 (lit ''0aFF''))"
    by (simp add: normalizeWebviewMessage_def asRecord_def messageType_is normalizeOverwrite_def)
      (simp add: eval_text)
  show ?thesis
    using e accepted_message_fits [OF e] by blast
qed

section \<open>The accepted message as an object\<close>

definition optionalField :: "string \<Rightarrow> ('a \<Rightarrow> jsval) \<Rightarrow> 'a option \<Rightarrow> (ustring \<times> jsval) list" where
  "optionalField k f x = (case x of None \<Rightarrow> [] | Some y \<Rightarrow> [(lit k, f y)])"

definition fields :: "(string \<times> jsval) list \<Rightarrow> (ustring \<times> jsval) list" where
  "fields ps = map (\<lambda>(k, v). (lit k, v)) ps"

abbreviation numField :: "int \<Rightarrow> jsval" where
  "numField i \<equiv> JNum (NInt i)"

abbreviation encodingField :: "TextEncoding \<Rightarrow> jsval" where
  "encodingField e \<equiv> JStr (lit (textEncodingName e))"

fun messageType :: "WebviewToHostMessage \<Rightarrow> MessageType" where
  "messageType (EditorStateChanged st) = T_editorStateChanged"
| "messageType (Scroll d) = T_scroll"
| "messageType (ScrollTo i) = T_scrollTo"
| "messageType (SetViewportMetrics n) = T_setViewportMetrics"
| "messageType (SetBytesPerRow n p) = T_setBytesPerRow"
| "messageType SetBytesPerRowMode = T_setBytesPerRowMode"
| "messageType (SetTextEncoding e) = T_setTextEncoding"
| "messageType (RequestAnalysisProfile a b c d e f) = T_requestAnalysisProfile"
| "messageType (PlainMessage t) = t"
| "messageType (RequestActionJournalViewport a b c d) = T_requestActionJournalViewport"
| "messageType (NavigateActionJournal s) = T_navigateActionJournal"
| "messageType (CopySelection a b c) = T_copySelection"
| "messageType (CutSelection a b c) = T_cutSelection"
| "messageType (InsertMessage a b) = T_insert"
| "messageType (DeleteMessage a b) = T_delete"
| "messageType (OverwriteMessage a b) = T_overwrite"
| "messageType (ReplaceMessage a b c) = T_replace"
| "messageType (ExportRange a b) = T_exportRange"
| "messageType (InsertFile a) = T_insertFile"
| "messageType (ReplaceRangeWithFile a b) = T_replaceRangeWithFile"
| "messageType (SetInsertDirection d) = T_setInsertDirection"
| "messageType (ReplaceAllMatches a b c d e f g) = T_replaceAllMatches"
| "messageType (ApplyTransform a b c d e) = T_applyTransform"
| "messageType (SearchMessage a b c d e) = T_search"
| "messageType (GoToMatch a) = T_goToMatch"
| "messageType (FindAdjacentMatch a b c d e f) = T_findAdjacentMatch"
| "messageType (SearchViewportMatches a b c d e f) = T_searchViewportMatches"

fun messageFields :: "WebviewToHostMessage \<Rightarrow> (ustring \<times> jsval) list" where
  "messageFields (EditorStateChanged st) = fields
     [(''visibleOffset'', numField (visibleOffset st)),
      (''visibleByteCount'', numField (visibleByteCount st)),
      (''selectedOffset'', numField (selectedOffset st)),
      (''selectionStart'', numField (selectionStart st)),
      (''selectionEnd'', numField (selectionEnd st)),
      (''selectionLength'', numField (selectionLength st)),
      (''bytesPerRow'', numField (bytesPerRow st)),
      (''offsetRadix'', JStr (lit (offsetRadixName (offsetRadix st)))),
      (''textEncoding'', encodingField (textEncoding st)),
      (''activePane'', JStr (lit (gridEditPaneName (activePane st)))),
      (''editMode'', JStr (lit (editModeName (editMode st)))),
      (''insertDirection'', JStr (lit (insertDirectionName (insertDirection st))))]"
| "messageFields (Scroll d) = fields [(''direction'', JStr (lit (scrollDirectionName d)))]"
| "messageFields (ScrollTo i) = fields [(''offset'', numField i)]"
| "messageFields (SetViewportMetrics n) = fields [(''visibleRows'', numField n)]"
| "messageFields (SetBytesPerRow n p) =
     fields [(''bytesPerRow'', numField n)] @ optionalField ''persist'' JBool p"
| "messageFields SetBytesPerRowMode = fields [(''mode'', JStr (lit ''fixed''))]"
| "messageFields (SetTextEncoding e) = fields [(''textEncoding'', encodingField e)]"
| "messageFields (RequestAnalysisProfile offset len key scope requested capped) = fields
     [(''offset'', numField offset), (''length'', numField len), (''requestKey'', JStr key),
      (''scopeLabel'', JStr scope), (''requestedLength'', numField requested), (''isCapped'', JBool capped)]"
| "messageFields (PlainMessage t) = []"
| "messageFields (RequestActionJournalViewport anchor capacity direction app) =
     optionalField ''anchorSerial'' JStr anchor @ optionalField ''capacity'' (\<lambda>n. JNum (NInt n)) capacity @
     optionalField ''direction'' (\<lambda>d. JStr (lit (journalDirectionName d))) direction @
     optionalField ''append'' JBool app"
| "messageFields (NavigateActionJournal s) = fields [(''changeCount'', JStr s)]"
| "messageFields (CopySelection offset len format) = fields
     [(''offset'', numField offset), (''length'', numField len),
      (''format'', JStr (lit (selectionFormatName format)))]"
| "messageFields (CutSelection offset len format) = fields
     [(''offset'', numField offset), (''length'', numField len),
      (''format'', JStr (lit (selectionFormatName format)))]"
| "messageFields (InsertMessage offset d) = fields [(''offset'', numField offset), (''data'', JStr d)]"
| "messageFields (DeleteMessage offset len) = fields [(''offset'', numField offset), (''length'', numField len)]"
| "messageFields (OverwriteMessage offset d) = fields [(''offset'', numField offset), (''data'', JStr d)]"
| "messageFields (ReplaceMessage offset len d) = fields
     [(''offset'', numField offset), (''length'', numField len), (''data'', JStr d)]"
| "messageFields (ExportRange offset len) = fields [(''offset'', numField offset), (''length'', numField len)]"
| "messageFields (InsertFile offset) = fields [(''offset'', numField offset)]"
| "messageFields (ReplaceRangeWithFile offset len) = fields
     [(''offset'', numField offset), (''length'', numField len)]"
| "messageFields (SetInsertDirection d) = fields
     [(''insertDirection'', JStr (lit (insertDirectionName d)))]"
| "messageFields (ReplaceAllMatches q hex ci rv enc len d) = fields
     [(''query'', JStr q), (''isHex'', JBool hex), (''caseInsensitive'', JBool ci),
      (''isReverse'', JBool rv)] @ optionalField ''textEncoding'' (\<lambda>e. encodingField e) enc @
     fields [(''length'', numField len), (''data'', JStr d)]"
| "messageFields (ApplyTransform plugin source offset len opts) = fields
     [(''pluginId'', JStr plugin), (''contentSource'', JStr (lit (contentSourceName source))),
      (''offset'', numField offset), (''length'', numField len)] @ optionalField ''optionsJson'' JStr opts"
| "messageFields (SearchMessage q hex ci rv enc) = fields
     [(''query'', JStr q), (''isHex'', JBool hex), (''caseInsensitive'', JBool ci),
      (''isReverse'', JBool rv)] @ optionalField ''textEncoding'' (\<lambda>e. encodingField e) enc"
| "messageFields (GoToMatch i) = fields [(''offset'', numField i)]"
| "messageFields (FindAdjacentMatch q hex ci enc dir offset) = fields
     [(''query'', JStr q), (''isHex'', JBool hex), (''caseInsensitive'', JBool ci)] @
     optionalField ''textEncoding'' (\<lambda>e. encodingField e) enc @
     fields [(''direction'', JStr (lit (matchDirectionName dir))), (''offset'', numField offset)]"
| "messageFields (SearchViewportMatches q hex ci enc offset len) = fields
     [(''query'', JStr q), (''isHex'', JBool hex), (''caseInsensitive'', JBool ci)] @
     optionalField ''textEncoding'' (\<lambda>e. encodingField e) enc @
     fields [(''viewportOffset'', numField offset), (''viewportLength'', numField len)]"

definition messageObject :: "WebviewToHostMessage \<Rightarrow> jsval" where
  "messageObject m = JObj ((lit ''type'', JStr (lit (messageTypeName (messageType m)))) # messageFields m)"

lemma safeString_trimmed: "trimmedText mx e t \<Longrightarrow> safeString (JStr t) mx e = Some t"
  by (simp add: safeString_Some trimmedText_def)

lemma safeHexString_hex: "hexText mx e t \<Longrightarrow> safeHexString (JStr t) mx e = Some t"
  by (simp add: safeHexString_Some hexText_def hex_no_space)

lemma safeJsonString_trimmed:
  "trimmedText mx False t \<Longrightarrow> jsonParse NOther t \<noteq> None \<Longrightarrow> safeJsonString (JStr t) mx = Some t"
  by (auto simp: safeJsonString_Some trimmedText_def)

lemma safeSearchQuery_again:
  "searchQuery hex q \<Longrightarrow> getProp raw ''isHex'' = JBool hex \<Longrightarrow> getProp raw ''query'' = JStr q \<Longrightarrow>
   safeSearchQuery raw = Some q"
  by (simp add: safeSearchQuery_def searchQuery_def safeHexString_hex safeString_trimmed split: if_splits)

lemma optionalProp_field:
  "(\<And>y. x = Some y \<Longrightarrow> h y \<noteq> JUndefined \<and> f (h y) = Some y) \<Longrightarrow>
   optionalProp f (case x of None \<Rightarrow> JUndefined | Some y \<Rightarrow> h y) = Some x"
  by (cases x) (simp_all add: optionalProp_def)

lemma getProp_fields [simp]:
  "getProp (fields ((k, v) # ps) @ qs) k' = (if k = k' then v else getProp (fields ps @ qs) k')"
  "getProp (fields ((k, v) # ps)) k' = (if k = k' then v else getProp (fields ps) k')"
  "getProp (fields [] @ qs) k' = getProp qs k'"
  "getProp (fields []) k' = JUndefined"
  by (simp_all add: fields_def)

lemma getProp_optionalField [simp]:
  "getProp (optionalField k f x @ qs) k' =
     (if k = k' then (case x of None \<Rightarrow> getProp qs k' | Some y \<Rightarrow> f y) else getProp qs k')"
  "getProp (optionalField k f x) k' =
     (if k = k' then (case x of None \<Rightarrow> JUndefined | Some y \<Rightarrow> f y) else JUndefined)"
  by (auto simp: optionalField_def split: option.split)

lemma safeBoolean_JBool [simp]: "safeBoolean (JBool b) d = b"
  by (simp add: safeBoolean_def)

lemma rangeFits_safe:
  "rangeFits (fileSize ctx) mn mx offset len \<Longrightarrow> 0 \<le> mn \<Longrightarrow> (z \<or> 0 < mn) \<Longrightarrow> mx \<le> mx' \<Longrightarrow>
   safeFileLengthRange ctx (JNum (NInt offset)) (JNum (NInt len)) z mx' = Some (offset, len)"
  by (auto simp: safeFileLengthRange_Some rangeFits_def)

lemma rangeFits_profile:
  "rangeFits (fileSize ctx) 1 MAX_ANALYSIS_PROFILE_BYTES offset len \<Longrightarrow>
   safeFileLengthRange ctx (JNum (NInt offset)) (JNum (NInt len)) False MAX_SAFE_INTEGER = Some (offset, len) \<and>
   min len MAX_ANALYSIS_PROFILE_BYTES = len"
  by (auto simp: safeFileLengthRange_Some rangeFits_def limit_defs MAX_SAFE_INTEGER_def)

lemma safeOffset_again: "safeOffset mx i \<Longrightarrow> safeNonNegativeInteger (JNum (NInt i)) mx = Some i"
  by (simp add: safeNonNegativeInteger_Some safeOffset_def)

lemma fileOffset_again:
  "safeOffset (lastOffset ctx) i \<Longrightarrow> safeFileOffset ctx (JNum (NInt i)) False = Some i"
  "safeOffset (fileSize ctx) i \<Longrightarrow> safeFileOffset ctx (JNum (NInt i)) True = Some i"
  by (simp_all add: safeFileOffset_def safeOffset_again lastOffset_def)

lemma contentRange_again:
  "sessionContentByteLength ctx source = Some n \<Longrightarrow> rangeFits n 0 MAX_SAFE_INTEGER offset len \<Longrightarrow>
   safeContentLengthRange ctx source (JNum (NInt offset)) (JNum (NInt len)) True MAX_SAFE_INTEGER
     = Some (offset, len)"
  by (simp add: safeContentLengthRange_Some rangeFits_def)

lemma insert_again:
  "messageFits ctx (InsertMessage offset d) \<Longrightarrow> getProp raw ''offset'' = JNum (NInt offset) \<Longrightarrow>
   getProp raw ''data'' = JStr d \<Longrightarrow> normalizeInsert ctx raw = Some (InsertMessage offset d)"
  by (auto simp: normalizeInsert_def accepted safeOffset_def safeHexString_hex isSafeInt_def)

lemma overwrite_again:
  assumes "messageFits ctx (OverwriteMessage offset d)" "getProp raw ''offset'' = JNum (NInt offset)"
    and "getProp raw ''data'' = JStr d"
  shows "normalizeOverwrite ctx raw = Some (OverwriteMessage offset d)"
proof -
  have "0 < int (length d) div 2"
    using assms(1) by (cases d; cases "tl d") (auto simp: hexText_def)
  then show ?thesis
    using assms by (auto simp: normalizeOverwrite_def accepted safeOffset_def safeHexString_hex isSafeInt_def)
qed

lemmas valid_again = safeString_trimmed safeHexString_hex safeOffset_again fileOffset_again
  safeTextEncoding_Some [THEN iffD2, OF refl]

lemma encoding_field [simp]:
  "optionalProp safeTextEncoding
     (case x of None \<Rightarrow> JUndefined | Some e \<Rightarrow> JStr (lit (textEncodingName e))) = Some x"
  by (rule optionalProp_field) (simp add: safeTextEncoding_Some)

lemma boolean_field [simp]:
  "optionalProp asBoolean (case x of None \<Rightarrow> JUndefined | Some b \<Rightarrow> JBool b) = Some x"
  by (rule optionalProp_field) (simp add: asBoolean_Some)

lemma journal_fields:
  "pred_option (\<lambda>s. isCanonicalDecimal s \<and> length s \<le> 19) a \<Longrightarrow>
   optionalProp safeActionJournalDecimal (case a of None \<Rightarrow> JUndefined | Some s \<Rightarrow> JStr s) = Some a"
  "pred_option (\<lambda>n. 0 < n \<and> safeOffset 1000 n) c \<Longrightarrow>
   optionalProp (\<lambda>v. safeNonNegativeInteger v 1000)
     (case c of None \<Rightarrow> JUndefined | Some n \<Rightarrow> JNum (NInt n)) = Some c"
  "optionalProp (oneOf journalDirectionName [JournalOlder, JournalNewer])
     (case d of None \<Rightarrow> JUndefined | Some x \<Rightarrow> JStr (lit (journalDirectionName x))) = Some d"
  by (rule optionalProp_field; simp add: accepted safeOffset_def)+

lemma options_field:
  "pred_option (\<lambda>j. trimmedText mx False j \<and> jsonParse NOther j \<noteq> None) x \<Longrightarrow>
   optionalProp (\<lambda>v. safeJsonString v mx) (case x of None \<Rightarrow> JUndefined | Some j \<Rightarrow> JStr j) = Some x"
  by (rule optionalProp_field) (auto intro: safeJsonString_trimmed)

lemma uiState_again:
  assumes "uiStateOk ctx st"
  shows "normalizeEditorUiState ctx ((lit ''type'', v) # messageFields (EditorStateChanged st)) = Some st"
proof -
  have i: "safeInsertDirection (JStr (lit (insertDirectionName d))) = Some d" for d
    by (simp add: accepted)
  have "isSafeInt (- 1)"
    by (simp add: isSafeInt_def MAX_SAFE_INTEGER_def)
  then show ?thesis
    using assms
    by (auto simp: normalizeEditorUiState_Some i accepted uiStateOk_def rangeFits_def
        editorUiStateFits_def isSafeInt_def MAX_WEBVIEW_HEX_BYTES_def split: if_splits)
qed

lemma normalizeTyped_again:
  assumes "messageFits ctx m"
  shows "normalizeTyped ctx ((lit ''type'', v) # messageFields m) (messageType m) = Some m"
proof (cases m)
  case (EditorStateChanged st)
  then show ?thesis using assms uiState_again by simp
next
  case (PlainMessage t)
  then show ?thesis using assms by (auto simp: plainTypes_def)
next
  case (RequestAnalysisProfile offset len key scope requested capped)
  then show ?thesis using assms rangeFits_profile [of ctx offset len]
    by (simp add: normalizeRequestAnalysisProfile_def valid_again)
next
  case (SetBytesPerRow n p)
  then show ?thesis using assms
    by (simp add: normalizeSetBytesPerRow_def exactBytesPerRow_Some [THEN iffD2])
next
  case (RequestActionJournalViewport a c d p)
  then show ?thesis using assms
    by (auto simp: normalizeRequestActionJournalViewport_def journal_fields cong: option.case_cong)
next
  case (CopySelection offset len f)
  then show ?thesis using assms
    by (auto simp: normalizeSelection_def rangeFits_safe [where mn = 1] accepted)
next
  case (CutSelection offset len f)
  then show ?thesis using assms
    by (auto simp: normalizeSelection_def rangeFits_safe [where mn = 1] accepted)
next
  case (InsertMessage offset d)
  then show ?thesis using assms by (simp add: insert_again)
next
  case (OverwriteMessage offset d)
  then show ?thesis using assms by (simp add: overwrite_again)
next
  case (ReplaceMessage offset len d)
  then show ?thesis using assms
    by (auto simp: normalizeReplace_def valid_again rangeFits_safe [where mn = 0])
next
  case (ReplaceAllMatches q hex ci rv enc len d)
  then show ?thesis using assms
    by (simp add: normalizeReplaceAllMatches_def safeSearchQuery_again [where q = q and hex = hex] valid_again
        cong: option.case_cong)
next
  case (ApplyTransform p src offset len j)
  then show ?thesis using assms
    by (auto simp: normalizeApplyTransform_def contentRange_again options_field valid_again
        safeSessionContentSource_Some [THEN iffD2])
next
  case (SearchMessage q hex ci rv enc)
  then show ?thesis using assms
    by (simp add: normalizeSearch_def safeSearchQuery_again [where q = q and hex = hex])
next
  case (FindAdjacentMatch q hex ci enc dir offset)
  then show ?thesis using assms
    by (simp add: normalizeFindAdjacentMatch_def safeSearchQuery_again [where q = q and hex = hex]
        valid_again matchDirection_Some [THEN iffD2] cong: option.case_cong)
next
  case (SearchViewportMatches q hex ci enc offset len)
  then show ?thesis using assms
    by (simp add: normalizeSearchViewportMatches_def safeSearchQuery_again [where q = q and hex = hex]
        valid_again safeIntegerAtLeast_def safeOffset_def cong: option.case_cong)
qed (use assms in \<open>auto simp: accepted valid_again normalizeRange_def rangeFits_safe [where mn = 1]\<close>)

lemma asRecord_JObj [simp]: "asRecord (JObj ps) = Some ps"
  by (simp add: asRecord_def)

lemma normalize_object:
  "messageFits ctx m \<Longrightarrow> normalizeWebviewMessage ctx (messageObject m) = Some m"
  by (simp add: normalizeWebviewMessage_def messageObject_def normalizeTyped_again
      messageType_Some [THEN iffD2, OF refl])

text \<open>C14: normalising is idempotent. The object the host gets for an accepted message is itself
  accepted, and unchanged: trimming, dropping white space between digits, capping lengths and
  filling in defaults lead to a fixed point of every branch of the switch.\<close>

theorem normalize_idempotent:
  assumes "normalizeWebviewMessage ctx raw = Some m"
  shows "normalizeWebviewMessage ctx (messageObject m) = Some m"
  by (rule normalize_object [OF normalize_fits [OF assms]])

lemma normalize_idempotent_witness:
  "normalizeWebviewMessage \<lparr>fileSize = 10, contentSources = None\<rparr>
     (JObj [(lit ''type'', JStr (lit ''search'')), (lit ''query'', JStr (lit '' ab '')),
            (lit ''textEncoding'', JStr (lit ''cp437''))])
     = Some (SearchMessage (lit ''ab'') False False False (Some CP437)) \<and>
   normalizeWebviewMessage \<lparr>fileSize = 10, contentSources = None\<rparr>
     (messageObject (SearchMessage (lit ''ab'') False False False (Some CP437)))
     = Some (SearchMessage (lit ''ab'') False False False (Some CP437))"
proof -
  have e: "normalizeWebviewMessage \<lparr>fileSize = 10, contentSources = None\<rparr>
     (JObj [(lit ''type'', JStr (lit ''search'')), (lit ''query'', JStr (lit '' ab '')),
            (lit ''textEncoding'', JStr (lit ''cp437''))])
     = Some (SearchMessage (lit ''ab'') False False False (Some CP437))"
    by (simp add: normalizeWebviewMessage_def asRecord_def messageType_is normalizeSearch_def
        safeSearchQuery_def) (simp add: eval_text)
  show ?thesis
    using e normalize_idempotent [OF e] by blast
qed

section \<open>Highlights and the timeline window\<close>

definition highlightOk :: "WebviewProtocolContext \<Rightarrow> WebviewExternalHighlight \<Rightarrow> bool" where
  "highlightOk ctx h \<longleftrightarrow>
     trimmedText MAX_LABEL_LENGTH False (h_id h) \<and>
     rangeFits (fileSize ctx) 1 MAX_WEBVIEW_HEX_BYTES (h_offset h) (h_length h) \<and>
     trimmedText MAX_LABEL_LENGTH False (h_label h) \<and>
     pred_option (trimmedText MAX_LABEL_LENGTH False) (h_source h)"

lemma kindName_trimmed: "trimmedText MAX_LABEL_LENGTH False (lit (highlightKindName k))"
  by (cases k) (simp_all add: trimmedText_def trim_def lit_def isJsSpace_def MAX_LABEL_LENGTH_def)

lemma normalizeHighlight_Some:
  assumes "normalizeHighlight ctx ids r = Some h"
  shows "highlightOk ctx h \<and> h_id h \<notin> ids"
proof -
  obtain raw where raw: "asRecord r = Some raw"
    and i: "safeString (getProp raw ''id'') MAX_LABEL_LENGTH False = Some (h_id h)" "h_id h \<notin> ids"
    and n: "safeNonNegativeInteger (getProp raw ''offset'') MAX_SAFE_INTEGER = Some (h_offset h)"
      "safeNonNegativeInteger (getProp raw ''length'') MAX_WEBVIEW_HEX_BYTES = Some (h_length h)"
      "h_length h \<noteq> 0" "h_offset h < fileSize ctx" "0 < h_length h \<longrightarrow> \<not> fileSize ctx - h_offset h < h_length h"
    and s: "optionalProp (\<lambda>v. safeString v MAX_LABEL_LENGTH False) (getProp raw ''source'') = Some (h_source h)"
    and l: "h_label h = highlightLabel (h_kind h) (getProp raw ''label'')"
    using assms unfolding normalizeHighlight_def bind_Some guard_Some by clarsimp
  have "pred_option (trimmedText MAX_LABEL_LENGTH False) (h_source h)"
    using s by (rule optionalProp_pred) (auto simp: accepted)
  moreover have "trimmedText MAX_LABEL_LENGTH False (h_label h)"
    unfolding l highlightLabel_def Let_def using kindName_trimmed [of "h_kind h"]
    by (auto simp: safeString_Some trimmedText_def split: option.split)
  ultimately show ?thesis
    using i n by (auto simp: highlightOk_def accepted rangeFits_def)
qed

lemma highlightLoop_Some:
  "highlightLoop ctx ids rs = Some hs \<Longrightarrow>
     length hs = length rs \<and> distinct (map h_id hs) \<and> set (map h_id hs) \<inter> ids = {} \<and>
     list_all (highlightOk ctx) hs"
proof (induction rs arbitrary: ids hs)
  case (Cons r rs)
  then obtain h t where h: "normalizeHighlight ctx ids r = Some h" "hs = h # t"
    "highlightLoop ctx (Set.insert (h_id h) ids) rs = Some t"
    by (auto split: option.splits)
  show ?case
    using Cons.IH [OF h(3)] normalizeHighlight_Some [OF h(1)] h(2) by auto
qed simp

text \<open>The object of a highlight, with \<open>stale\<close> present only when set.\<close>

definition highlightObject :: "WebviewExternalHighlight \<Rightarrow> jsval" where
  "highlightObject h = JObj (fields
     [(''id'', JStr (h_id h)), (''offset'', numField (h_offset h)), (''length'', numField (h_length h)),
      (''kind'', JStr (lit (highlightKindName (h_kind h)))), (''label'', JStr (h_label h))] @
     optionalField ''source'' JStr (h_source h) @
     (if h_stale h then fields [(''stale'', JBool True)] else []))"

lemma source_field:
  "pred_option (trimmedText mx False) x \<Longrightarrow>
   optionalProp (\<lambda>v. safeString v mx False) (case x of None \<Rightarrow> JUndefined | Some s \<Rightarrow> JStr s) = Some x"
  by (rule optionalProp_field) (simp add: safeString_trimmed)

lemma highlightLabel_trimmed:
  "trimmedText MAX_LABEL_LENGTH False l \<Longrightarrow> highlightLabel k (JStr l) = l"
  by (simp add: highlightLabel_def safeString_def trimmedText_def)

lemma normalizeHighlight_again:
  assumes "highlightOk ctx h" "h_id h \<notin> ids"
  shows "normalizeHighlight ctx ids (highlightObject h) = Some h"
  using assms
  by (simp add: highlightOk_def normalizeHighlight_def highlightObject_def safeString_trimmed
      source_field highlightLabel_trimmed rangeFits_def safeNonNegativeInteger_def
      safeExternalHighlightKind_Some [THEN iffD2] isSafeInt_def cong: option.case_cong)

lemma highlightLoop_again:
  "list_all (highlightOk ctx) hs \<Longrightarrow> distinct (map h_id hs) \<Longrightarrow> set (map h_id hs) \<inter> ids = {} \<Longrightarrow>
   highlightLoop ctx ids (map highlightObject hs) = Some hs"
  by (induction hs arbitrary: ids) (auto simp: normalizeHighlight_again)

text \<open>C18: an accepted list of highlights has at most 512 of them with distinct ids; each lies within the
  file, covers at least one byte and at most 16 MiB, and has a label; and sent again it is accepted
  unchanged.\<close>

theorem accepted_highlights:
  assumes "normalizeExternalHighlights ctx raw = Some hs"
  shows "int (length hs) \<le> MAX_EXTERNAL_HIGHLIGHTS \<and> distinct (map h_id hs) \<and>
    list_all (highlightOk ctx) hs \<and>
    normalizeExternalHighlights ctx (JArr (map highlightObject hs)) = Some hs"
proof -
  obtain rs where "raw = JArr rs" "\<not> int (length rs) > MAX_EXTERNAL_HIGHLIGHTS"
    "highlightLoop ctx {} rs = Some hs"
    using assms by (auto simp: normalizeExternalHighlights_def split: jsval.splits if_splits)
  with highlightLoop_Some [OF this(3)] highlightLoop_again [of ctx hs "{}"] show ?thesis
    by (auto simp: normalizeExternalHighlights_def)
qed

lemma accepted_highlights_witness:
  "\<exists>h. h_id h = lit ''a'' \<and>
     normalizeExternalHighlights \<lparr>fileSize = 10, contentSources = None\<rparr>
       (JArr [JObj [(lit ''id'', JStr (lit ''a'')), (lit ''offset'', JNum (NInt 2)),
              (lit ''length'', JNum (NInt 8)), (lit ''kind'', JStr (lit ''error''))]]) = Some [h] \<and>
     normalizeExternalHighlights \<lparr>fileSize = 10, contentSources = None\<rparr>
       (JArr [highlightObject h]) = Some [h]"
proof -
  let ?h = "\<lparr>h_id = lit ''a'', h_offset = 2, h_length = 8, h_kind = KindError,
    h_label = lit ''error'', h_source = None, h_stale = False\<rparr>"
  have e: "normalizeExternalHighlights \<lparr>fileSize = 10, contentSources = None\<rparr>
       (JArr [JObj [(lit ''id'', JStr (lit ''a'')), (lit ''offset'', JNum (NInt 2)),
              (lit ''length'', JNum (NInt 8)), (lit ''kind'', JStr (lit ''error''))]]) = Some [?h]"
    by (simp add: normalizeExternalHighlights_def normalizeHighlight_def highlightLabel_def
        safeExternalHighlightKind_def optionalProp_def limit_defs)
      (simp add: eval_text highlightLabel_def getProp_def)
  show ?thesis
    using e accepted_highlights [OF e] by (intro exI [of _ ?h]) simp
qed

lemma window_sorted: "sorted_wrt (<) (checkpointTimelineMetadataWindow n cursor saved)"
  unfolding checkpointTimelineMetadataWindow_def Let_def strict_sorted_iff by simp

lemma window_set:
  "set (checkpointTimelineMetadataWindow n cursor saved) \<subseteq> {1..n}"
  by (auto simp: checkpointTimelineMetadataWindow_def inTimeline_def Let_def)

lemma window_member:
  "1 \<le> x \<and> x \<le> n \<and> (x \<le> 8 \<or> n - 7 \<le> x \<or> \<bar>x - cursor\<bar> \<le> 12 \<or> (\<exists>s. saved = Some s \<and> \<bar>x - s\<bar> \<le> 4)) \<Longrightarrow>
   x \<in> set (checkpointTimelineMetadataWindow n cursor saved)"
  unfolding checkpointTimelineMetadataWindow_def inTimeline_def Let_def set_sort set_remdups set_filter
    set_append set_upto TIMELINE_METADATA_EDGE_COUNT_def TIMELINE_METADATA_CONTEXT_RADIUS_def
    TIMELINE_METADATA_SAVED_RADIUS_def
  by (elim conjE disjE exE) (simp_all add: abs_le_iff)

lemma window_contains:
  assumes "1 \<le> n"
  shows "{1, n} \<union> ({cursor} \<union> set_option saved) \<inter> {1..n}
    \<subseteq> set (checkpointTimelineMetadataWindow n cursor saved)"
  using assms by (auto intro!: window_member)

lemma window_length: "length (checkpointTimelineMetadataWindow n cursor saved) \<le> 74"
proof -
  have "length (remdups (inTimeline n xs)) \<le> length xs" for xs
    using length_remdups_leq [of "inTimeline n xs"] length_filter_le [of _ xs]
    unfolding inTimeline_def by (rule order_trans)
  then show ?thesis
    unfolding checkpointTimelineMetadataWindow_def Let_def length_sort
    by (rule order_trans)
      (auto simp: TIMELINE_METADATA_EDGE_COUNT_def TIMELINE_METADATA_CONTEXT_RADIUS_def
        TIMELINE_METADATA_SAVED_RADIUS_def TIMELINE_METADATA_SAMPLE_COUNT_def split: option.split)
qed

text \<open>C30: the checkpoints whose metadata the timeline loads are listed once each, in order; all of them
  exist; the first, the last, the one at the cursor and the saved one are among them; and there are at
  most 74, however many checkpoints the session has.\<close>

theorem metadata_window:
  assumes "1 \<le> n"
  shows "sorted_wrt (<) (checkpointTimelineMetadataWindow n cursor saved) \<and>
    set (checkpointTimelineMetadataWindow n cursor saved) \<subseteq> {1..n} \<and>
    {1, n} \<union> ({cursor} \<union> set_option saved) \<inter> {1..n}
      \<subseteq> set (checkpointTimelineMetadataWindow n cursor saved) \<and>
    length (checkpointTimelineMetadataWindow n cursor saved) \<le> 74"
  by (intro conjI window_sorted window_set window_contains [OF assms] window_length)

lemma metadata_window_witness:
  "(1::int) \<le> 5 \<and> 5 \<in> set (checkpointTimelineMetadataWindow 5 9 None) \<and>
   set (checkpointTimelineMetadataWindow 5 9 None) \<subseteq> {1..5}"
  using metadata_window [of 5 9 None] by simp

end
