(* ===== verification/Range_Map.thy ===== *)
theory Range_Map
  imports Webview_Protocol "HOL-Library.Multiset"
begin

text \<open>
  Range maps (\<^verbatim>\<open>vscode-extension/src/rangeMap.ts\<close>): a JSON document with a tree of named byte
  ranges is checked and turned into highlights with unique ids, a tree for the webview and the
  selected highlight. The object identity that \<^verbatim>\<open>idByNode\<close> uses is the path of a node: the parser
  refuses a second node with the same path.
\<close>

definition RANGE_MAP_FORMAT :: string where "RANGE_MAP_FORMAT = ''omega-edit.range-map''"
definition RANGE_MAP_VERSION :: int where "RANGE_MAP_VERSION = 1"
definition MAX_RANGE_MAP_NODES :: nat where "MAX_RANGE_MAP_NODES = 512"
definition MAX_RANGE_MAP_DEPTH :: nat where "MAX_RANGE_MAP_DEPTH = 64"
definition MAX_RANGE_MAP_LABEL_LENGTH :: nat where "MAX_RANGE_MAP_LABEL_LENGTH = 128"
definition MAX_RANGE_MAP_ID_LENGTH :: nat where "MAX_RANGE_MAP_ID_LENGTH = nat MAX_LABEL_LENGTH"
definition MAX_RANGE_MAP_PATH_LENGTH :: nat where "MAX_RANGE_MAP_PATH_LENGTH = 512"
definition MAX_RANGE_MAP_VALUE_LENGTH :: nat where "MAX_RANGE_MAP_VALUE_LENGTH = 128"

lemmas range_map_limits = MAX_RANGE_MAP_NODES_def MAX_RANGE_MAP_DEPTH_def
  MAX_RANGE_MAP_LABEL_LENGTH_def MAX_RANGE_MAP_ID_LENGTH_def MAX_RANGE_MAP_PATH_LENGTH_def
  MAX_RANGE_MAP_VALUE_LENGTH_def MAX_LABEL_LENGTH_def

text \<open>The errors thrown, with what their messages name: an index path or a path.\<close>

datatype RangeMapError =
    InvalidJson | NotAnObject | UnsupportedFormat | UnsupportedVersion | NodesNotArray
  | BadSourceFileSize | SelectedPathNotFound ustring
  | StringTooLong ustring nat
  | TooDeep ustring | TooManyNodes | NodeNotObject ustring | PathRequired ustring
  | DuplicatePath ustring | OffsetRequired ustring | LengthRequired ustring
  | BadFileSize | SourceFileSizeMismatch int int | OutsideFile ustring int int int

datatype RangeMapNode = RangeMapNode
  (n_path: ustring) (n_label: ustring) (n_offset: int) (n_length: int)
  (n_kind: ExternalHighlightKind) (n_source: "ustring option") (n_type: "ustring option")
  (n_value: "ustring option") (n_children: "RangeMapNode list")

record RangeMapDocument =
  d_source :: "ustring option"
  d_sourceFileSize :: "int option"
  d_selectedPath :: "ustring option"
  d_nodes :: "RangeMapNode list"

datatype WebviewRangeMapNode = WebviewRangeMapNode
  (w_id: ustring) (w_path: ustring) (w_label: ustring) (w_offset: int) (w_length: int)
  (w_kind: ExternalHighlightKind) (w_source: "ustring option") (w_type: "ustring option")
  (w_value: "ustring option") (w_children: "WebviewRangeMapNode list")

record ParsedRangeMap =
  document :: RangeMapDocument
  highlights :: "WebviewExternalHighlight list"
  tree :: "WebviewRangeMapNode list"
  selectedHighlight :: "WebviewExternalHighlight option"
  nodeCount :: nat

section \<open>Validators\<close>

definition rmIsRecord :: "jsval \<Rightarrow> (ustring \<times> jsval) list option" where
  "rmIsRecord v = (case v of JObj ps \<Rightarrow> Some ps | _ \<Rightarrow> None)"

definition rmSafeString :: "jsval \<Rightarrow> ustring \<Rightarrow> bool \<Rightarrow> nat \<Rightarrow> RangeMapError + ustring option" where
  "rmSafeString v name allowEmpty maxLength =
     (case v of
        JStr s \<Rightarrow>
          (let t = trim s in
           if \<not> allowEmpty \<and> length t = 0 then Inr None
           else if length t > maxLength then Inl (StringTooLong name maxLength)
           else Inr (Some t))
      | _ \<Rightarrow> Inr None)"

definition rmOptionalString :: "jsval \<Rightarrow> ustring \<Rightarrow> nat \<Rightarrow> RangeMapError + ustring option" where
  "rmOptionalString v name maxLength =
     (if v = JUndefined then Inr None else rmSafeString v name False maxLength)"

definition rmSafeNonNegativeInteger :: "jsval \<Rightarrow> int option" where
  "rmSafeNonNegativeInteger v = (case v of
     JNum (NInt i) \<Rightarrow> if isSafeInt i \<and> 0 \<le> i then Some i else None
   | _ \<Rightarrow> None)"

definition safeHighlightKind :: "jsval \<Rightarrow> ExternalHighlightKind option" where
  "safeHighlightKind = oneOf highlightKindName
     [KindCurrent, KindParsed, KindError, KindWarning, KindBreakpoint, KindSecondary]"

text \<open>\<^verbatim>\<open>String(value)\<close> of a string, a number or a boolean.\<close>

definition scalarText :: "jsval \<Rightarrow> ustring option" where
  "scalarText v = (case v of
     JStr s \<Rightarrow> Some s
   | JNum (NInt i) \<Rightarrow> Some (numberText i)
   | JNum (NOther t) \<Rightarrow> Some t
   | JBool b \<Rightarrow> Some (if b then lit ''true'' else lit ''false'')
   | _ \<Rightarrow> None)"

definition ellipsis :: "nat \<Rightarrow> ustring \<Rightarrow> ustring" where
  "ellipsis mx t = (if length t \<le> mx then t else take (mx - 3) t @ lit ''...'')"

definition safeValueText :: "jsval \<Rightarrow> ustring option" where
  "safeValueText v =
     (case v of
        JUndefined \<Rightarrow> None
      | JNull \<Rightarrow> Some (lit ''null'')
      | JArr _ \<Rightarrow> Some (lit ''[array]'')
      | _ \<Rightarrow> (case scalarText v of
                None \<Rightarrow> Some (lit ''[object]'')
              | Some t \<Rightarrow> Some (ellipsis MAX_RANGE_MAP_VALUE_LENGTH t)))"

section \<open>The tree of nodes\<close>

record RangeMapParseContext =
  c_nodeCount :: nat
  c_seenPaths :: "ustring list"

text \<open>The part of \<open>parseRangeMapNode\<close> before the children: the node without them, and the context.\<close>

definition nodeName :: "ustring \<Rightarrow> string \<Rightarrow> ustring" where
  "nodeName indexPath what = lit ''Range map node '' @ indexPath @ lit '' '' @ lit what"

definition nodeLabel :: "ustring \<Rightarrow> ustring option \<Rightarrow> ustring" where
  "nodeLabel path label = (case label of None \<Rightarrow> path | Some l \<Rightarrow> if l = [] then path else l)"

definition nodeKind :: "jsval \<Rightarrow> ExternalHighlightKind" where
  "nodeKind v = (case safeHighlightKind v of None \<Rightarrow> KindParsed | Some k \<Rightarrow> k)"

definition parseNodeFields ::
    "(ustring \<times> jsval) list \<Rightarrow> ustring \<Rightarrow> RangeMapParseContext \<Rightarrow>
     RangeMapError + ((RangeMapNode list \<Rightarrow> RangeMapNode) \<times> RangeMapParseContext)" where
  "parseNodeFields raw indexPath ctx =
     bindE (rmSafeString (getProp raw ''path'') (nodeName indexPath ''path'') False MAX_RANGE_MAP_PATH_LENGTH) (\<lambda>path.
     bindE (rmSafeString (getProp raw ''label'') (nodeName indexPath ''label'') True MAX_RANGE_MAP_LABEL_LENGTH) (\<lambda>label.
     bindE (rmOptionalString (getProp raw ''source'') (nodeName indexPath ''source'') MAX_RANGE_MAP_LABEL_LENGTH) (\<lambda>source.
     bindE (rmOptionalString (getProp raw ''type'') (nodeName indexPath ''type'') MAX_RANGE_MAP_LABEL_LENGTH) (\<lambda>type.
     bindE (required (PathRequired indexPath) path) (\<lambda>p.
     bindE (orFail (p \<notin> set (c_seenPaths ctx)) (DuplicatePath p)) (\<lambda>_.
     bindE (required (OffsetRequired indexPath) (rmSafeNonNegativeInteger (getProp raw ''offset''))) (\<lambda>offset.
     bindE (required (LengthRequired indexPath) (rmSafeNonNegativeInteger (getProp raw ''length''))) (\<lambda>len.
     bindE (orFail (len \<noteq> 0) (LengthRequired indexPath)) (\<lambda>_.
       Inr (RangeMapNode p (nodeLabel p label) offset len (nodeKind (getProp raw ''kind'')) source type
              (safeValueText (getProp raw ''value'')),
            ctx\<lparr>c_seenPaths := p # c_seenPaths ctx\<rparr>))))))))))"

text \<open>\<open>parseNodes\<close> is the call of \<^verbatim>\<open>map\<close> on an array, with the index of its first element.\<close>

function parseRangeMapNode ::
    "jsval \<Rightarrow> ustring \<Rightarrow> nat \<Rightarrow> RangeMapParseContext \<Rightarrow> RangeMapError + (RangeMapNode \<times> RangeMapParseContext)"
  and parseNodes ::
    "jsval list \<Rightarrow> nat \<Rightarrow> ustring \<Rightarrow> nat \<Rightarrow> RangeMapParseContext \<Rightarrow>
     RangeMapError + (RangeMapNode list \<times> RangeMapParseContext)" where
  "parseRangeMapNode raw indexPath depth ctx =
     (if depth > MAX_RANGE_MAP_DEPTH then Inl (TooDeep indexPath)
      else
        let ctx = ctx\<lparr>c_nodeCount := c_nodeCount ctx + 1\<rparr> in
        if c_nodeCount ctx > MAX_RANGE_MAP_NODES then Inl TooManyNodes
        else (case rmIsRecord raw of
            None \<Rightarrow> Inl (NodeNotObject indexPath)
          | Some ps \<Rightarrow>
              bindE (parseNodeFields ps indexPath ctx) (\<lambda>(mk, ctx).
                (case getProp ps ''children'' of
                   JArr cs \<Rightarrow>
                     bindE (parseNodes cs 0 (indexPath @ lit ''.'') (depth + 1) ctx) (\<lambda>(children, ctx).
                       Inr (mk children, ctx))
                 | _ \<Rightarrow> Inr (mk [], ctx)))))"
| "parseNodes [] i prefix depth ctx = Inr ([], ctx)"
| "parseNodes (r # rs) i prefix depth ctx =
     bindE (parseRangeMapNode r (prefix @ natDigits i) depth ctx) (\<lambda>(n, ctx).
     bindE (parseNodes rs (i + 1) prefix depth ctx) (\<lambda>(ns, ctx).
       Inr (n # ns, ctx)))"
  by pat_completeness auto
termination
  by (relation "measures
      [case_sum (\<lambda>(raw, ip, depth, ctx). 65 - depth) (\<lambda>(rs, i, pre, depth, ctx). 65 - depth),
       case_sum (\<lambda>_. 0) (\<lambda>(rs, i, pre, depth, ctx). Suc (length rs))]")
    (auto simp: MAX_RANGE_MAP_DEPTH_def)

declare parseRangeMapNode.simps [simp del]

text \<open>The recursion on the children pushes them before their parent.\<close>

fun visit :: "RangeMapNode \<Rightarrow> RangeMapNode list" where
  "visit (RangeMapNode p l off len k s t v cs) =
     concat (map visit cs) @ [RangeMapNode p l off len k s t v cs]"

definition flattenRangeMapNodes :: "RangeMapNode list \<Rightarrow> RangeMapNode list" where
  "flattenRangeMapNodes nodes = concat (map visit nodes)"

section \<open>Ids\<close>

definition rangeId :: "nat \<Rightarrow> ustring" where
  "rangeId index = lit ''range.'' @ natDigits index"

definition generatedId :: "nat \<Rightarrow> nat \<Rightarrow> ustring" where
  "generatedId index suffix = rangeId index @ lit ''.'' @ natDigits suffix"

lemma generatedId_inject [simp]: "generatedId i s = generatedId i t \<longleftrightarrow> s = t"
  by (simp add: generatedId_def)

text \<open>The loop over the suffixes ends: only finitely many ids are in use.\<close>

function suffixLoop :: "nat \<Rightarrow> ustring list \<Rightarrow> nat \<Rightarrow> ustring" where
  "suffixLoop index used suffix =
     (if generatedId index suffix \<in> set used then suffixLoop index used (suffix + 1)
      else generatedId index suffix)"
  by pat_completeness auto
termination
proof (relation "measure (\<lambda>(index, used, suffix). card {s. suffix \<le> s \<and> generatedId index s \<in> set used})")
  fix index suffix and used :: "ustring list"
  let ?from = "\<lambda>k. {s. k \<le> s \<and> generatedId index s \<in> set used}"
  assume "generatedId index suffix \<in> set used"
  then have "suffix \<in> ?from suffix" "suffix \<notin> ?from (suffix + 1)" "?from (suffix + 1) \<subseteq> ?from suffix"
    by auto
  then have p: "?from (suffix + 1) \<subset> ?from suffix"
    by blast
  have "finite (generatedId index -` set used)"
    by (rule finite_vimageI) (simp_all add: inj_def)
  then have "finite (?from suffix)"
    by (rule rev_finite_subset) auto
  then show "((index, used, suffix + 1), index, used, suffix)
      \<in> measure (\<lambda>(index, used, suffix). card {s. suffix \<le> s \<and> generatedId index s \<in> set used})"
    using psubset_card_mono [OF _ p] by simp
qed simp

declare suffixLoop.simps [simp del]

text \<open>The id of a node; the caller adds it to the used ids.\<close>

definition makeRangeMapHighlightId :: "RangeMapNode \<Rightarrow> nat \<Rightarrow> ustring list \<Rightarrow> ustring" where
  "makeRangeMapHighlightId node index usedIds =
     (let preferredId =
        (if length (n_path node) \<le> MAX_RANGE_MAP_ID_LENGTH then n_path node else rangeId index) in
      if preferredId \<notin> set usedIds then preferredId else suffixLoop index usedIds 1)"

fun assignIds :: "RangeMapNode list \<Rightarrow> nat \<Rightarrow> ustring list \<Rightarrow> (ustring \<times> ustring) list" where
  "assignIds [] index usedIds = []"
| "assignIds (n # ns) index usedIds =
     (let i = makeRangeMapHighlightId n index usedIds in
      (n_path n, i) # assignIds ns (index + 1) (i # usedIds))"

definition idOf :: "(ustring \<times> ustring) list \<Rightarrow> RangeMapNode \<Rightarrow> ustring" where
  "idOf ids n = (case map_of ids (n_path n) of Some i \<Rightarrow> i | None \<Rightarrow> n_path n)"

section \<open>Highlights and the tree of the webview\<close>

text \<open>A suffix is present when the string is: not absent and not empty.\<close>

definition suffixText :: "string \<Rightarrow> ustring option \<Rightarrow> string \<Rightarrow> ustring" where
  "suffixText before x after = (case x of
     None \<Rightarrow> [] | Some t \<Rightarrow> if t = [] then [] else lit before @ t @ lit after)"

definition selectedKind :: "RangeMapNode \<Rightarrow> ustring option \<Rightarrow> ExternalHighlightKind" where
  "selectedKind node selectedPath = (if selectedPath = Some (n_path node) then KindCurrent else n_kind node)"

definition sourceOr :: "RangeMapNode \<Rightarrow> ustring option \<Rightarrow> ustring option" where
  "sourceOr node defaultSource = (case n_source node of Some s \<Rightarrow> Some s | None \<Rightarrow> defaultSource)"

definition rangeMapNodeToHighlight ::
    "RangeMapNode \<Rightarrow> ustring \<Rightarrow> ustring option \<Rightarrow> ustring option \<Rightarrow> WebviewExternalHighlight" where
  "rangeMapNodeToHighlight node i defaultSource selectedPath =
     (let label = n_label node @ suffixText '' ('' (n_type node) '')'' @ suffixText '' = '' (n_value node) '''' in
      \<lparr>h_id = i, h_offset = n_offset node, h_length = n_length node,
       h_kind = selectedKind node selectedPath,
       h_label = ellipsis MAX_RANGE_MAP_LABEL_LENGTH label,
       h_source = sourceOr node defaultSource, h_stale = False\<rparr>)"

fun rangeMapNodeToWebviewNode ::
    "(ustring \<times> ustring) list \<Rightarrow> ustring option \<Rightarrow> ustring option \<Rightarrow> RangeMapNode \<Rightarrow> WebviewRangeMapNode" where
  "rangeMapNodeToWebviewNode ids defaultSource selectedPath (RangeMapNode p l off len k s t v cs) =
     (let node = RangeMapNode p l off len k s t v cs in
      WebviewRangeMapNode (idOf ids node) p l off len (selectedKind node selectedPath)
        (sourceOr node defaultSource) t v
        (map (rangeMapNodeToWebviewNode ids defaultSource selectedPath) cs))"

section \<open>The document\<close>

definition defaultSourceOf :: "RangeMapDocument \<Rightarrow> ustring option" where
  "defaultSourceOf doc = (case d_source doc of Some s \<Rightarrow> Some s | None \<Rightarrow> Some (lit ''Range map''))"

text \<open>What the document becomes once it is accepted.\<close>

definition buildRangeMap :: "RangeMapDocument \<Rightarrow> ParsedRangeMap" where
  "buildRangeMap doc =
     (let flattened = flattenRangeMapNodes (d_nodes doc);
          selectedPath = d_selectedPath doc;
          defaultSource = defaultSourceOf doc;
          ids = assignIds flattened 0 [];
          hs = map (\<lambda>n. rangeMapNodeToHighlight n (idOf ids n) defaultSource selectedPath) flattened
      in \<lparr>document = doc, highlights = hs,
          tree = map (rangeMapNodeToWebviewNode ids defaultSource selectedPath) (d_nodes doc),
          selectedHighlight =
            (case selectedPath of
               None \<Rightarrow> None
             | Some p \<Rightarrow>
                 map_option fst (find (\<lambda>(h, n). n_path n = p) (zip hs flattened))),
          nodeCount = length flattened\<rparr>)"

definition sourceFileSizeOf :: "jsval \<Rightarrow> RangeMapError + int option" where
  "sourceFileSizeOf v =
     (if v = JUndefined then Inr None
      else bindE (required BadSourceFileSize (rmSafeNonNegativeInteger v)) (\<lambda>n. Inr (Some n)))"

definition requireSelected :: "ustring option \<Rightarrow> ustring list \<Rightarrow> RangeMapError + unit" where
  "requireSelected selectedPath seenPaths = (case selectedPath of
     None \<Rightarrow> Inr ()
   | Some p \<Rightarrow> orFail (p \<in> set seenPaths) (SelectedPathNotFound p))"

definition parseRangeMapValue :: "jsval \<Rightarrow> RangeMapError + ParsedRangeMap" where
  "parseRangeMapValue v =
     (case rmIsRecord v of
        None \<Rightarrow> Inl NotAnObject
      | Some parsed \<Rightarrow>
          bindE (orFail (getProp parsed ''format'' = JStr (lit RANGE_MAP_FORMAT)) UnsupportedFormat) (\<lambda>_.
          bindE (orFail (getProp parsed ''version'' = JNum (NInt RANGE_MAP_VERSION)) UnsupportedVersion) (\<lambda>_.
          case getProp parsed ''nodes'' of
            JArr rawNodes \<Rightarrow>
              bindE (rmOptionalString (getProp parsed ''source'') (lit ''Range map source'')
                MAX_RANGE_MAP_LABEL_LENGTH) (\<lambda>source.
              bindE (sourceFileSizeOf (getProp parsed ''sourceFileSize'')) (\<lambda>sourceFileSize.
              bindE (rmOptionalString (getProp parsed ''selectedPath'') (lit ''Range map selectedPath'')
                MAX_RANGE_MAP_PATH_LENGTH) (\<lambda>selectedPath.
              bindE (parseNodes rawNodes 0 [] 1 \<lparr>c_nodeCount = 0, c_seenPaths = []\<rparr>) (\<lambda>(nodes, ctx).
              bindE (requireSelected selectedPath (c_seenPaths ctx)) (\<lambda>_.
              Inr (buildRangeMap
                \<lparr>d_source = source, d_sourceFileSize = sourceFileSize,
                 d_selectedPath = selectedPath, d_nodes = nodes\<rparr>))))))
          | _ \<Rightarrow> Inl NodesNotArray)))"

definition parseRangeMapContent :: "(ustring \<Rightarrow> jsnum) \<Rightarrow> bytes \<Rightarrow> RangeMapError + ParsedRangeMap" where
  "parseRangeMapContent fr content =
     (case jsonParse fr (textDecode content) of
        None \<Rightarrow> Inl InvalidJson
      | Some v \<Rightarrow> parseRangeMapValue v)"

fun checkNodes :: "int \<Rightarrow> RangeMapNode list \<Rightarrow> RangeMapError + unit" where
  "checkNodes fsize [] = Inr ()"
| "checkNodes fsize (n # ns) =
     (let remaining = max 0 (fsize - n_offset n) in
      if n_offset n \<ge> fsize \<or> n_length n > remaining
      then Inl (OutsideFile (n_path n) (n_offset n) (n_offset n + n_length n) fsize)
      else checkNodes fsize ns)"

definition assertRangeMapFitsFile :: "ParsedRangeMap \<Rightarrow> jsnum \<Rightarrow> RangeMapError + unit" where
  "assertRangeMapFitsFile parsed fileSizeValue =
     (case fileSizeValue of
        NInt fsize \<Rightarrow>
          bindE (orFail (isSafeInt fsize \<and> \<not> fsize < 0) BadFileSize) (\<lambda>_.
          bindE (case d_sourceFileSize (document parsed) of
              None \<Rightarrow> Inr ()
            | Some n \<Rightarrow> orFail (n = fsize) (SourceFileSizeMismatch n fsize)) (\<lambda>_.
          checkNodes fsize (flattenRangeMapNodes (d_nodes (document parsed)))))
      | NOther _ \<Rightarrow> Inl BadFileSize)"

section \<open>What the parser guarantees of the nodes\<close>

definition labelled :: "nat \<Rightarrow> ustring \<Rightarrow> bool" where
  "labelled mx t \<longleftrightarrow> trim t = t \<and> t \<noteq> [] \<and> length t \<le> mx"

definition wfNode :: "RangeMapNode \<Rightarrow> bool" where
  "wfNode n \<longleftrightarrow>
     labelled MAX_RANGE_MAP_PATH_LENGTH (n_path n) \<and> labelled MAX_RANGE_MAP_PATH_LENGTH (n_label n) \<and>
     isSafeInt (n_offset n) \<and> 0 \<le> n_offset n \<and> isSafeInt (n_length n) \<and> 0 < n_length n \<and>
     pred_option (labelled MAX_RANGE_MAP_LABEL_LENGTH) (n_source n) \<and>
     pred_option (labelled MAX_RANGE_MAP_LABEL_LENGTH) (n_type n) \<and>
     pred_option (\<lambda>v. length v \<le> MAX_RANGE_MAP_VALUE_LENGTH) (n_value n)"

fun height :: "RangeMapNode \<Rightarrow> nat" where
  "height (RangeMapNode p l off len k s t v cs) = Suc (foldr max (map height cs) 0)"

lemma rmSafeString_Inr:
  "rmSafeString v name e mx = Inr (Some t) \<Longrightarrow> trim t = t \<and> (e \<or> t \<noteq> []) \<and> length t \<le> mx"
  by (auto simp: rmSafeString_def Let_def split: jsval.splits if_splits)

lemma rmOptionalString_Inr:
  "rmOptionalString v name mx = Inr x \<Longrightarrow> pred_option (labelled mx) x"
  by (cases x) (auto simp: rmOptionalString_def labelled_def dest: rmSafeString_Inr split: if_splits)

lemma ellipsis_length: "3 \<le> mx \<Longrightarrow> length (ellipsis mx t) \<le> mx"
  by (auto simp: ellipsis_def lit_def)

lemma safeValueText_length:
  "pred_option (\<lambda>v. length v \<le> MAX_RANGE_MAP_VALUE_LENGTH) (safeValueText v)"
  by (auto simp: safeValueText_def MAX_RANGE_MAP_VALUE_LENGTH_def lit_def intro!: ellipsis_length
      split: jsval.split option.split)

lemma rmSafeNonNegativeInteger_Some:
  "rmSafeNonNegativeInteger v = Some i \<longleftrightarrow> v = JNum (NInt i) \<and> isSafeInt i \<and> 0 \<le> i"
  by (auto simp: rmSafeNonNegativeInteger_def split: jsval.splits jsnum.splits)

lemma parseNodeFields_Inr:
  assumes "parseNodeFields ps ip ctx = Inr (mk, ctx')"
  shows "\<exists>p. p \<notin> set (c_seenPaths ctx) \<and> ctx' = ctx\<lparr>c_seenPaths := p # c_seenPaths ctx\<rparr> \<and>
    (\<forall>cs. n_path (mk cs) = p \<and> wfNode (mk cs) \<and> n_children (mk cs) = cs)"
proof -
  obtain p l src ty off len where
    r: "rmSafeString (getProp ps ''path'') (nodeName ip ''path'') False MAX_RANGE_MAP_PATH_LENGTH = Inr (Some p)"
      "rmSafeString (getProp ps ''label'') (nodeName ip ''label'') True MAX_RANGE_MAP_LABEL_LENGTH = Inr l"
      "rmOptionalString (getProp ps ''source'') (nodeName ip ''source'') MAX_RANGE_MAP_LABEL_LENGTH = Inr src"
      "rmOptionalString (getProp ps ''type'') (nodeName ip ''type'') MAX_RANGE_MAP_LABEL_LENGTH = Inr ty"
      "rmSafeNonNegativeInteger (getProp ps ''offset'') = Some off"
      "rmSafeNonNegativeInteger (getProp ps ''length'') = Some len" "len \<noteq> 0"
      "p \<notin> set (c_seenPaths ctx)"
    and m: "mk = RangeMapNode p (nodeLabel p l) off len (nodeKind (getProp ps ''kind'')) src ty
        (safeValueText (getProp ps ''value''))"
    and c: "ctx' = ctx\<lparr>c_seenPaths := p # c_seenPaths ctx\<rparr>"
    using assms unfolding parseNodeFields_def bindE_eq_Inr required_eq_Inr orFail_eq_Inr by auto
  have p: "labelled MAX_RANGE_MAP_PATH_LENGTH p"
    using rmSafeString_Inr [OF r(1)] by (simp add: labelled_def)
  then have "labelled MAX_RANGE_MAP_PATH_LENGTH (nodeLabel p l)"
    using r(2) by (auto simp: nodeLabel_def labelled_def range_map_limits dest!: rmSafeString_Inr split: option.split)
  then have "wfNode (mk cs)" for cs
    using p r rmOptionalString_Inr [OF r(3)] rmOptionalString_Inr [OF r(4)]
    by (simp add: m wfNode_def rmSafeNonNegativeInteger_Some safeValueText_length)
  then show ?thesis
    using r(8) by (auto simp: c m)
qed

lemma visit_children: "visit n = flattenRangeMapNodes (n_children n) @ [n]"
  by (cases n) (simp add: flattenRangeMapNodes_def)

lemma flatten_Cons [simp]:
  "flattenRangeMapNodes [] = []"
  "flattenRangeMapNodes (n # ns) = visit n @ flattenRangeMapNodes ns"
  by (simp_all add: flattenRangeMapNodes_def)

text \<open>What a call of the parser adds to its context, for the nodes \<open>ns\<close> (flattened) that it answers.\<close>

definition parsedInto ::
    "RangeMapParseContext \<Rightarrow> RangeMapNode list \<Rightarrow> RangeMapParseContext \<Rightarrow> bool" where
  "parsedInto ctx ns ctx' \<longleftrightarrow>
     c_nodeCount ctx' = c_nodeCount ctx + length ns \<and>
     mset (c_seenPaths ctx') = mset (map n_path ns) + mset (c_seenPaths ctx) \<and>
     (distinct (c_seenPaths ctx) \<longrightarrow> distinct (c_seenPaths ctx')) \<and>
     (c_nodeCount ctx \<le> MAX_RANGE_MAP_NODES \<longrightarrow> c_nodeCount ctx' \<le> MAX_RANGE_MAP_NODES) \<and>
     list_all wfNode ns"

lemma parsedInto_trans:
  "parsedInto a xs b \<Longrightarrow> parsedInto b ys c \<Longrightarrow> parsedInto a (xs @ ys) c"
  by (auto simp: parsedInto_def)

lemma parsedInto_refl [simp]: "parsedInto ctx [] ctx"
  by (simp add: parsedInto_def)

lemma parsedInto_node:
  assumes "parsedInto (ctx\<lparr>c_nodeCount := c_nodeCount ctx + 1, c_seenPaths := p # c_seenPaths ctx\<rparr>) cs ctx'"
    and "p \<notin> set (c_seenPaths ctx)" "c_nodeCount ctx + 1 \<le> MAX_RANGE_MAP_NODES" "wfNode n" "n_path n = p"
  shows "parsedInto ctx (cs @ [n]) ctx'"
  using assms by (auto simp: parsedInto_def)

lemma foldr_max_le: "foldr max xs 0 \<le> m \<longleftrightarrow> (\<forall>x\<in>set xs. x \<le> (m::nat))"
  by (induction xs) auto

lemma height_children: "height n = Suc (foldr max (map height (n_children n)) 0)"
  by (cases n) simp

lemma height_le:
  assumes "\<And>c. c \<in> set (n_children n) \<Longrightarrow> height c + k \<le> m" "k \<le> m"
  shows "height n + k \<le> Suc m"
proof -
  have "foldr max (map height (n_children n)) 0 \<le> m - k"
    unfolding foldr_max_le using assms(1) by (auto simp: add_le_imp_le_diff)
  then show ?thesis
    using assms(2) by (simp add: height_children)
qed

text \<open>A call of the node parser that succeeds, taken apart.\<close>

lemma parseRangeMapNode_Inr:
  assumes "parseRangeMapNode raw ip depth ctx = Inr (n, ctx')"
  obtains p cs where "depth \<le> MAX_RANGE_MAP_DEPTH" "c_nodeCount ctx + 1 \<le> MAX_RANGE_MAP_NODES"
    "p \<notin> set (c_seenPaths ctx)" "wfNode n" "n_path n = p"
    "parseNodes cs 0 (ip @ lit ''.'') (depth + 1)
       (ctx\<lparr>c_nodeCount := c_nodeCount ctx + 1, c_seenPaths := p # c_seenPaths ctx\<rparr>) = Inr (n_children n, ctx')"
proof -
  obtain ps mk c1 where a: "depth \<le> MAX_RANGE_MAP_DEPTH" "c_nodeCount ctx + 1 \<le> MAX_RANGE_MAP_NODES"
    "parseNodeFields ps ip (ctx\<lparr>c_nodeCount := c_nodeCount ctx + 1\<rparr>) = Inr (mk, c1)"
    and r: "(case getProp ps ''children'' of
       JArr cs \<Rightarrow> bindE (parseNodes cs 0 (ip @ lit ''.'') (depth + 1) c1) (\<lambda>(children, ctx). Inr (mk children, ctx))
     | _ \<Rightarrow> Inr (mk [], c1)) = Inr (n, ctx')"
    using assms
    by (auto simp: parseRangeMapNode.simps [of raw] Let_def bindE_eq_Inr split: if_splits option.splits)
  obtain p where p: "p \<notin> set (c_seenPaths ctx)"
    "c1 = ctx\<lparr>c_nodeCount := c_nodeCount ctx + 1, c_seenPaths := p # c_seenPaths ctx\<rparr>"
    "\<And>cs. n_path (mk cs) = p \<and> wfNode (mk cs) \<and> n_children (mk cs) = cs"
    using parseNodeFields_Inr [OF a(3)] by auto
  have "\<exists>cs children. n = mk children \<and> parseNodes cs 0 (ip @ lit ''.'') (depth + 1) c1 = Inr (children, ctx')"
  proof (cases "\<exists>cs. getProp ps ''children'' = JArr cs")
    case True
    then show ?thesis using r by (auto simp: bindE_eq_Inr) blast
  next
    case False
    then have "n = mk [] \<and> ctx' = c1"
      using r by (cases "getProp ps ''children''") auto
    then show ?thesis by (intro exI [of _ "[]"]) simp
  qed
  then obtain cs children where "n = mk children"
    "parseNodes cs 0 (ip @ lit ''.'') (depth + 1) c1 = Inr (children, ctx')"
    by blast
  then show thesis
    using that [of p cs] a(1,2) p by simp
qed

lemma parseNodes_into:
  assumes "depth + k = Suc MAX_RANGE_MAP_DEPTH" "parseNodes rs i pre depth ctx = Inr (ns, ctx')"
  shows "parsedInto ctx (flattenRangeMapNodes ns) ctx' \<and>
    (\<forall>n\<in>set ns. height n + depth \<le> Suc MAX_RANGE_MAP_DEPTH)"
  using assms
proof (induction k arbitrary: depth rs i pre ctx ns ctx')
  case 0
  then have "rs = []"
    by (cases rs) (auto simp: bindE_eq_Inr elim!: parseRangeMapNode_Inr)
  then show ?case using "0.prems" by simp
next
  case (Suc k)
  from Suc.prems show ?case
  proof (induction rs arbitrary: i ctx ns)
    case (Cons r rs)
    from Cons.prems obtain n c1 ms where r: "parseRangeMapNode r (pre @ natDigits i) depth ctx = Inr (n, c1)"
      "parseNodes rs (i + 1) pre depth c1 = Inr (ms, ctx')" "ns = n # ms"
      by (auto simp: bindE_eq_Inr)
    obtain p cs where n: "p \<notin> set (c_seenPaths ctx)" "wfNode n" "n_path n = p"
        "c_nodeCount ctx + 1 \<le> MAX_RANGE_MAP_NODES" "depth \<le> MAX_RANGE_MAP_DEPTH"
      and c: "parseNodes cs 0 ((pre @ natDigits i) @ lit ''.'') (depth + 1)
         (ctx\<lparr>c_nodeCount := c_nodeCount ctx + 1, c_seenPaths := p # c_seenPaths ctx\<rparr>) = Inr (n_children n, c1)"
      using r(1) by (rule parseRangeMapNode_Inr)
    have "depth + 1 + k = Suc MAX_RANGE_MAP_DEPTH"
      using Cons.prems by simp
    note kids = Suc.IH [OF this c]
    have "parsedInto ctx (visit n) c1"
      unfolding visit_children using kids n by (blast intro: parsedInto_node)
    moreover have "height n + depth \<le> Suc MAX_RANGE_MAP_DEPTH"
      using kids n(5) by (intro height_le) auto
    moreover note Cons.IH [OF Cons.prems(1) r(2)]
    ultimately show ?case
      using r(3) by (auto intro: parsedInto_trans)
  qed simp
qed

definition wfDocument :: "RangeMapDocument \<Rightarrow> bool" where
  "wfDocument doc \<longleftrightarrow>
     (let flattened = flattenRangeMapNodes (d_nodes doc) in
      length flattened \<le> MAX_RANGE_MAP_NODES \<and> distinct (map n_path flattened) \<and>
      list_all wfNode flattened \<and> (\<forall>n\<in>set (d_nodes doc). height n \<le> MAX_RANGE_MAP_DEPTH) \<and>
      pred_option (labelled MAX_RANGE_MAP_LABEL_LENGTH) (d_source doc) \<and>
      pred_option (\<lambda>n. isSafeInt n \<and> 0 \<le> n) (d_sourceFileSize doc) \<and>
      set_option (d_selectedPath doc) \<subseteq> n_path ` set flattened)"

lemma sourceFileSizeOf_Inr: "sourceFileSizeOf v = Inr fs \<Longrightarrow> pred_option (\<lambda>n. isSafeInt n \<and> 0 \<le> n) fs"
  by (auto simp: sourceFileSizeOf_def bindE_eq_Inr required_eq_Inr rmSafeNonNegativeInteger_Some
      split: if_splits)

lemma requireSelected_Inr [simp]: "requireSelected sel seen = Inr u \<longleftrightarrow> set_option sel \<subseteq> set seen"
  by (auto simp: requireSelected_def split: option.split)

lemma parseRangeMapValue_Inr:
  assumes "parseRangeMapValue v = Inr p"
  shows "p = buildRangeMap (document p) \<and> wfDocument (document p)"
proof -
  obtain ps rs src fs sel nodes ctx where
    s: "rmOptionalString (getProp ps ''source'') (lit ''Range map source'') MAX_RANGE_MAP_LABEL_LENGTH = Inr src"
    and f: "sourceFileSizeOf (getProp ps ''sourceFileSize'') = Inr fs"
    and n: "parseNodes rs 0 [] 1 \<lparr>c_nodeCount = 0, c_seenPaths = []\<rparr> = Inr (nodes, ctx)"
    and l: "set_option sel \<subseteq> set (c_seenPaths ctx)"
    and p: "p = buildRangeMap \<lparr>d_source = src, d_sourceFileSize = fs, d_selectedPath = sel, d_nodes = nodes\<rparr>"
    using assms unfolding parseRangeMapValue_def
    by (auto simp: bindE_eq_Inr split: option.split_asm jsval.split_asm)
  have i: "parsedInto \<lparr>c_nodeCount = 0, c_seenPaths = []\<rparr> (flattenRangeMapNodes nodes) ctx"
    and h: "\<forall>n\<in>set nodes. height n \<le> MAX_RANGE_MAP_DEPTH"
    using parseNodes_into [OF _ n, of 64] by (auto simp: MAX_RANGE_MAP_DEPTH_def)
  have m: "mset (c_seenPaths ctx) = mset (map n_path (flattenRangeMapNodes nodes))"
    "distinct (c_seenPaths ctx)"
    using i by (auto simp: parsedInto_def)
  have "distinct (map n_path (flattenRangeMapNodes nodes))"
    using m mset_eq_imp_distinct_iff by blast
  moreover have "set_option sel \<subseteq> n_path ` set (flattenRangeMapNodes nodes)"
    using l mset_eq_setD [OF m(1)] by auto
  ultimately show ?thesis
    using i h rmOptionalString_Inr [OF s] sourceFileSizeOf_Inr [OF f]
    by (simp add: p wfDocument_def Let_def parsedInto_def buildRangeMap_def)
qed

lemma parseRangeMapContent_Inr:
  "parseRangeMapContent fr content = Inr p \<Longrightarrow> p = buildRangeMap (document p) \<and> wfDocument (document p)"
  by (auto simp: parseRangeMapContent_def split: option.splits dest: parseRangeMapValue_Inr)

section \<open>Unique ids\<close>

lemma suffixLoop_fresh: "suffixLoop index used suffix \<notin> set used"
  by (induction index used suffix rule: suffixLoop.induct) (simp add: suffixLoop.simps)

text \<open>The loop passes over used ids only, so the suffix is bounded by their number.\<close>

lemma suffixLoop_bound:
  "\<exists>k. suffixLoop index used suffix = generatedId index k \<and> suffix \<le> k \<and>
     generatedId index ` {suffix..<k} \<subseteq> set used"
proof (induction index used suffix rule: suffixLoop.induct)
  case (1 index used suffix)
  show ?case
  proof (cases "generatedId index suffix \<in> set used")
    case True
    with 1 obtain k where "suffixLoop index used (suffix + 1) = generatedId index k" "suffix + 1 \<le> k"
      "generatedId index ` {suffix + 1..<k} \<subseteq> set used"
      by auto
    moreover have "{suffix..<k} \<subseteq> insert suffix {suffix + 1..<k}"
      by auto
    ultimately show ?thesis
      using True by (intro exI [of _ k]) (auto simp: suffixLoop.simps [of index used suffix])
  next
    case False
    then show ?thesis
      by (intro exI [of _ suffix]) (simp add: suffixLoop.simps)
  qed
qed

lemma suffixLoop_generated:
  "\<exists>k \<le> length used + suffix. suffixLoop index used suffix = generatedId index k"
proof -
  obtain k where k: "suffixLoop index used suffix = generatedId index k"
    "generatedId index ` {suffix..<k} \<subseteq> set used"
    using suffixLoop_bound by blast
  have "card (generatedId index ` {suffix..<k}) = k - suffix"
    by (simp add: card_image inj_on_def)
  with card_mono [OF _ k(2)] have "k - suffix \<le> length used"
    using card_length [of used] by simp
  then show ?thesis using k(1) by (intro exI [of _ k]) simp
qed

lemma makeRangeMapHighlightId_fresh: "makeRangeMapHighlightId n i used \<notin> set used"
  by (simp add: makeRangeMapHighlightId_def Let_def suffixLoop_fresh)

lemma assignIds_paths: "map fst (assignIds ns i used) = map n_path ns"
  by (induction ns arbitrary: i used) (simp_all add: Let_def)

lemma assignIds_fresh:
  "distinct (map snd (assignIds ns i used)) \<and> set (map snd (assignIds ns i used)) \<inter> set used = {}"
proof (induction ns arbitrary: i used)
  case (Cons n ns)
  show ?case
    using Cons.IH [of "i + 1" "makeRangeMapHighlightId n i used # used"]
      makeRangeMapHighlightId_fresh [of n i used] by (auto simp: Let_def)
qed simp

lemma idOf_assigned:
  assumes "distinct (map n_path ns)" "map fst ids = map n_path ns"
  shows "map (idOf ids) ns = map snd ids"
proof (rule nth_equalityI)
  show "length (map (idOf ids) ns) = length (map snd ids)"
    using assms(2) by (metis length_map)
  fix k assume "k < length (map (idOf ids) ns)"
  then have k: "k < length ns" "k < length ids"
    using assms(2) by (simp, metis length_map)
  then have "fst (ids ! k) = n_path (ns ! k)"
    using assms(2) by (metis nth_map)
  then have "(n_path (ns ! k), snd (ids ! k)) \<in> set ids"
    using k(2) by (metis nth_mem prod.collapse)
  moreover have "distinct (map fst ids)"
    using assms by simp
  ultimately have "map_of ids (n_path (ns ! k)) = Some (snd (ids ! k))"
    by simp
  then show "map (idOf ids) ns ! k = map snd ids ! k"
    using k by (simp add: idOf_def)
qed

lemma buildRangeMap_ids:
  assumes "wfDocument doc"
  shows "map h_id (highlights (buildRangeMap doc)) = map snd (assignIds (flattenRangeMapNodes (d_nodes doc)) 0 [])"
  using assms idOf_assigned [OF _ assignIds_paths]
  by (simp add: wfDocument_def Let_def buildRangeMap_def rangeMapNodeToHighlight_def comp_def)

section \<open>Range maps and the highlight protocol\<close>

lemma trim_not_Nil: "s \<noteq> [] \<Longrightarrow> \<not> isJsSpace (hd s) \<Longrightarrow> trim s \<noteq> []"
  by (cases s) (auto simp: trim_def)

lemma digits_plain [simp]: "list_all (\<lambda>u. \<not> isJsSpace u) (natDigits n)"
  using natDigits_digits [of n] by (rule list.pred_mono_strong) (auto simp: isDigit_def isJsSpace_def)

lemma plain_lits [simp]:
  "list_all (\<lambda>u. \<not> isJsSpace u) (lit ''range.'')" "list_all (\<lambda>u. \<not> isJsSpace u) (lit ''.'')"
  by (simp_all add: lit_def isJsSpace_def)

lemma plain_text:
  "list_all (\<lambda>u. \<not> isJsSpace u) s \<Longrightarrow> s \<noteq> [] \<Longrightarrow> length s \<le> 128 \<Longrightarrow> trimmedText MAX_LABEL_LENGTH False s"
  by (simp add: trimmedText_def trim_plain MAX_LABEL_LENGTH_def)

lemma rangeId_text: "i < 1000 \<Longrightarrow> trimmedText MAX_LABEL_LENGTH False (rangeId i)"
  using natDigits_length [of i 2] by (intro plain_text) (simp_all add: rangeId_def, simp add: lit_def)

lemma generatedId_text:
  assumes "i < 1000" "k < 1000"
  shows "trimmedText MAX_LABEL_LENGTH False (generatedId i k)"
  using assms natDigits_length [of i 2] natDigits_length [of k 2]
  by (intro plain_text) (simp_all add: generatedId_def rangeId_def, simp add: lit_def)

lemma makeRangeMapHighlightId_text:
  assumes "wfNode n" "i < 512" "length used \<le> 512"
  shows "trimmedText MAX_LABEL_LENGTH False (makeRangeMapHighlightId n i used)"
proof -
  obtain k where k: "k \<le> length used + 1" "suffixLoop i used 1 = generatedId i k"
    using suffixLoop_generated by blast
  have "length (n_path n) \<le> MAX_RANGE_MAP_ID_LENGTH \<Longrightarrow> trimmedText MAX_LABEL_LENGTH False (n_path n)"
    using assms(1) by (simp add: wfNode_def labelled_def trimmedText_def range_map_limits)
  then show ?thesis
    using k assms rangeId_text [of i] generatedId_text [of i k]
    by (auto simp: makeRangeMapHighlightId_def Let_def)
qed

lemma assignIds_text:
  assumes "list_all wfNode ns" "i + length ns \<le> 512" "length used = i"
  shows "list_all (trimmedText MAX_LABEL_LENGTH False) (map snd (assignIds ns i used))"
  using assms
  by (induction ns arbitrary: i used) (auto simp: Let_def intro: makeRangeMapHighlightId_text)

lemma checkNodes_Inr:
  "checkNodes fs ns = Inr u \<longleftrightarrow> (\<forall>n\<in>set ns. n_offset n < fs \<and> n_length n \<le> max 0 (fs - n_offset n))"
  by (induction ns) (auto simp: Let_def)

lemma highlight_label:
  assumes "wfNode n"
  shows "highlightLabel k (JStr (h_label (rangeMapNodeToHighlight n i ds sel))) =
    trim (h_label (rangeMapNodeToHighlight n i ds sel))"
proof -
  let ?l = "h_label (rangeMapNodeToHighlight n i ds sel)"
  obtain c cs where c: "n_label n = c # cs" "\<not> isJsSpace c"
    using assms trim_hd [of "n_label n"] by (cases "n_label n") (auto simp: wfNode_def labelled_def)
  then have "?l \<noteq> []" "hd ?l = c"
    by (auto simp: rangeMapNodeToHighlight_def Let_def ellipsis_def range_map_limits)
  then have "trim ?l \<noteq> []"
    using c by (intro trim_not_Nil) simp_all
  moreover have "length (trim ?l) \<le> 128"
    using ellipsis_length [of 128] trim_length [of ?l]
    by (auto simp: rangeMapNodeToHighlight_def Let_def range_map_limits intro: order_trans)
  ultimately show ?thesis
    by (simp add: highlightLabel_def safeString_def limit_defs)
qed

lemma normalizeHighlight_rangeMap:
  assumes "wfNode n" "n_offset n < fs" "n_length n \<le> max 0 (fs - n_offset n)"
    and "pred_option (labelled MAX_RANGE_MAP_LABEL_LENGTH) ds"
    and "trimmedText MAX_LABEL_LENGTH False i" "i \<notin> ids"
  shows "normalizeHighlight \<lparr>fileSize = fs, contentSources = cs\<rparr> ids
      (highlightObject (rangeMapNodeToHighlight n i ds sel)) =
    (if n_length n > MAX_WEBVIEW_HEX_BYTES then None
     else Some (rangeMapNodeToHighlight n i ds sel
       \<lparr>h_label := trim (h_label (rangeMapNodeToHighlight n i ds sel))\<rparr>))"
proof -
  let ?h = "rangeMapNodeToHighlight n i ds sel"
  have "pred_option (trimmedText MAX_LABEL_LENGTH False) (h_source ?h)"
    using assms by (cases "n_source n"; cases ds)
      (auto simp: rangeMapNodeToHighlight_def Let_def sourceOr_def wfNode_def labelled_def
        trimmedText_def range_map_limits)
  moreover have f: "h_offset ?h = n_offset n" "h_length ?h = n_length n" "h_id ?h = i" "h_stale ?h = False"
    by (simp_all add: rangeMapNodeToHighlight_def Let_def)
  ultimately show ?thesis
    using assms
    by (auto simp: normalizeHighlight_def highlightObject_def safeString_trimmed source_field
        highlight_label [OF assms(1)] safeNonNegativeInteger_def wfNode_def isSafeInt_def
        safeExternalHighlightKind_Some [THEN iffD2] cong: option.case_cong)
qed

lemma highlightLoop_map:
  assumes "\<And>h ids. h \<in> set hs \<Longrightarrow> h_id h \<notin> ids \<Longrightarrow>
      normalizeHighlight ctx ids (highlightObject h) = (if bad h then None else Some (g h))"
    and "\<And>h. h_id (g h) = h_id h" "distinct (map h_id hs)" "set (map h_id hs) \<inter> ids = {}"
  shows "highlightLoop ctx ids (map highlightObject hs) =
    (if \<exists>h\<in>set hs. bad h then None else Some (map g hs))"
  using assms by (induction hs arbitrary: ids) auto

lemma defaultSourceOf_labelled:
  "wfDocument doc \<Longrightarrow> pred_option (labelled MAX_RANGE_MAP_LABEL_LENGTH) (defaultSourceOf doc)"
  by (auto simp: defaultSourceOf_def wfDocument_def Let_def labelled_def range_map_limits trim_def lit_def
      isJsSpace_def split: option.split)

lemma buildRangeMap_highlights:
  "highlights (buildRangeMap doc) = map (\<lambda>n. rangeMapNodeToHighlight n
     (idOf (assignIds (flattenRangeMapNodes (d_nodes doc)) 0 []) n) (defaultSourceOf doc) (d_selectedPath doc))
     (flattenRangeMapNodes (d_nodes doc))"
  by (simp add: buildRangeMap_def Let_def)

lemma buildRangeMap_id_text:
  assumes "wfDocument doc" "n \<in> set (flattenRangeMapNodes (d_nodes doc))"
  shows "trimmedText MAX_LABEL_LENGTH False (idOf (assignIds (flattenRangeMapNodes (d_nodes doc)) 0 []) n)"
proof -
  let ?ns = "flattenRangeMapNodes (d_nodes doc)"
  have "idOf (assignIds ?ns 0 []) n \<in> set (map snd (assignIds ?ns 0 []))"
    using assms idOf_assigned [OF _ assignIds_paths, of ?ns 0 "[]"]
    by (metis (no_types, lifting) image_eqI list.set_map wfDocument_def)
  moreover have "list_all (trimmedText MAX_LABEL_LENGTH False) (map snd (assignIds ?ns 0 []))"
    using assms(1) by (intro assignIds_text) (simp_all add: wfDocument_def Let_def MAX_RANGE_MAP_NODES_def)
  ultimately show ?thesis
    by (auto simp: list_all_iff)
qed

lemma assertRangeMapFitsFile_Inr:
  "assertRangeMapFitsFile p (NInt fs) = Inr () \<longleftrightarrow>
     isSafeInt fs \<and> 0 \<le> fs \<and> set_option (d_sourceFileSize (document p)) \<subseteq> {fs} \<and>
     (\<forall>n\<in>set (flattenRangeMapNodes (d_nodes (document p))).
        n_offset n < fs \<and> n_length n \<le> max 0 (fs - n_offset n))"
  by (auto simp: assertRangeMapFitsFile_def bindE_eq_Inr checkNodes_Inr split: option.split)

subsection \<open>A sample document\<close>


definition sampleText :: bytes where
  "sampleText = map of_char ''{\"format\":\"omega-edit.range-map\",\"version\":1,\"selectedPath\":\"a\",\"nodes\":[{\"path\":\"a\",\"offset\":0,\"length\":4,\"children\":[{\"path\":\"a.b\",\"offset\":1,\"length\":2}]}]}''"

definition sampleNodes :: "RangeMapNode list" where
  "sampleNodes =
     [RangeMapNode (lit ''a'') (lit ''a'') 0 4 KindParsed None None None
        [RangeMapNode (lit ''a.b'') (lit ''a.b'') 1 2 KindParsed None None None []]]"

lemma sample_json:
  "jsonParse NOther (textDecode sampleText) = Some (JObj
     [(lit ''format'', JStr (lit ''omega-edit.range-map'')), (lit ''version'', JNum (NInt 1)),
      (lit ''selectedPath'', JStr (lit ''a'')),
      (lit ''nodes'', JArr [JObj
         [(lit ''path'', JStr (lit ''a'')), (lit ''offset'', JNum (NInt 0)), (lit ''length'', JNum (NInt 4)),
          (lit ''children'', JArr [JObj
             [(lit ''path'', JStr (lit ''a.b'')), (lit ''offset'', JNum (NInt 1)),
              (lit ''length'', JNum (NInt 2))]])]])])"
proof -
  have "textDecode sampleText = map of_char ''{\"format\":\"omega-edit.range-map\",\"version\":1,\"selectedPath\":\"a\",\"nodes\":[{\"path\":\"a\",\"offset\":0,\"length\":4,\"children\":[{\"path\":\"a.b\",\"offset\":1,\"length\":2}]}]}''"
    by (simp add: sampleText_def textDecode_def stripBom_def toUtf16_def)
  then show ?thesis
    by (simp add: json_eval)
qed

lemma rmSafeString_lit:
  "rmSafeString (JStr (lit ''a'')) nm e mx = (if 1 \<le> mx then Inr (Some (lit ''a'')) else Inl (StringTooLong nm mx))"
  "rmSafeString (JStr (lit ''a.b'')) nm e mx = (if 3 \<le> mx then Inr (Some (lit ''a.b'')) else Inl (StringTooLong nm mx))"
  by (simp_all add: rmSafeString_def trim_def isJsSpace_def lit_def)

lemma sample_parsed:
  "parseRangeMapContent NOther sampleText = Inr (buildRangeMap
     \<lparr>d_source = None, d_sourceFileSize = None, d_selectedPath = Some (lit ''a''), d_nodes = sampleNodes\<rparr>)"
  by (simp add: parseRangeMapContent_def sample_json parseRangeMapValue_def rmIsRecord_def RANGE_MAP_FORMAT_def
      RANGE_MAP_VERSION_def rmOptionalString_def sourceFileSizeOf_def parseRangeMapNode.simps parseNodeFields_def
      rmSafeString_lit rmSafeString_def [of JUndefined] range_map_limits rmSafeNonNegativeInteger_def isSafeInt_def MAX_SAFE_INTEGER_def
      nodeLabel_def nodeKind_def safeHighlightKind_def oneOf_def safeValueText_def sampleNodes_def requireSelected_def Let_def)

lemma sample_fits: "assertRangeMapFitsFile (buildRangeMap
     \<lparr>d_source = None, d_sourceFileSize = None, d_selectedPath = Some (lit ''a''), d_nodes = sampleNodes\<rparr>)
     (NInt 10) = Inr ()"
  by (simp add: assertRangeMapFitsFile_Inr buildRangeMap_def Let_def sampleNodes_def isSafeInt_def
      MAX_SAFE_INTEGER_def)

subsection \<open>The properties\<close>

text \<open>C13: every range map that parses and fits the open file passes the highlight protocol, with the same ids,
  offsets, lengths, kinds and sources and with labels trimmed, unless one of its nodes is longer than
  the 16 MiB that the protocol allows for a highlight: then, and only then, the whole map is
  refused.\<close>

theorem range_map_reaches_webview:
  assumes "parseRangeMapContent fr content = Inr p" "assertRangeMapFitsFile p (NInt fs) = Inr ()"
  shows "normalizeExternalHighlights \<lparr>fileSize = fs, contentSources = None\<rparr>
      (JArr (map highlightObject (highlights p))) =
    (if \<exists>h\<in>set (highlights p). h_length h > MAX_WEBVIEW_HEX_BYTES then None
     else Some (map (\<lambda>h. h\<lparr>h_label := trim (h_label h)\<rparr>) (highlights p)))"
proof -
  let ?ctx = "\<lparr>fileSize = fs, contentSources = None\<rparr>" and ?ns = "flattenRangeMapNodes (d_nodes (document p))"
  have d: "p = buildRangeMap (document p)" "wfDocument (document p)"
    using parseRangeMapContent_Inr [OF assms(1)] by auto
  have h: "highlights p = map (\<lambda>n. rangeMapNodeToHighlight n (idOf (assignIds ?ns 0 []) n)
      (defaultSourceOf (document p)) (d_selectedPath (document p))) ?ns"
    using buildRangeMap_highlights [of "document p"] d(1) by simp
  have "distinct (map h_id (highlights p))"
    using buildRangeMap_ids [OF d(2)] d(1) assignIds_fresh [of ?ns 0 "[]"] by simp
  moreover have "normalizeHighlight ?ctx ids (highlightObject g) =
      (if h_length g > MAX_WEBVIEW_HEX_BYTES then None else Some (g\<lparr>h_label := trim (h_label g)\<rparr>))"
    if g: "g \<in> set (highlights p)" "h_id g \<notin> ids" for g ids
  proof -
    obtain n where n: "n \<in> set ?ns" "g = rangeMapNodeToHighlight n (idOf (assignIds ?ns 0 []) n)
      (defaultSourceOf (document p)) (d_selectedPath (document p))"
      using g(1) unfolding h by auto
    have f: "wfNode n" "n_offset n < fs" "n_length n \<le> max 0 (fs - n_offset n)"
      using d(2) n(1) assms(2) by (auto simp: assertRangeMapFitsFile_Inr wfDocument_def Let_def list_all_iff)
    have i: "h_id g = idOf (assignIds ?ns 0 []) n" "h_length g = n_length n"
      by (simp_all add: n(2) rangeMapNodeToHighlight_def Let_def)
    show ?thesis
      using normalizeHighlight_rangeMap [OF f defaultSourceOf_labelled [OF d(2)]
          buildRangeMap_id_text [OF d(2) n(1)]] g(2) i n(2) by simp
  qed
  ultimately have "highlightLoop ?ctx {} (map highlightObject (highlights p)) =
      (if \<exists>h\<in>set (highlights p). h_length h > MAX_WEBVIEW_HEX_BYTES then None
       else Some (map (\<lambda>h. h\<lparr>h_label := trim (h_label h)\<rparr>) (highlights p)))"
    by (intro highlightLoop_map) simp_all
  moreover have "length (highlights p) \<le> 512"
    using d(2) by (simp add: h wfDocument_def Let_def MAX_RANGE_MAP_NODES_def)
  ultimately show ?thesis
    by (simp add: normalizeExternalHighlights_def MAX_EXTERNAL_HIGHLIGHTS_def)
qed

lemma range_map_reaches_webview_witness:
  "\<exists>p hs. parseRangeMapContent NOther sampleText = Inr p \<and> assertRangeMapFitsFile p (NInt 10) = Inr () \<and>
     normalizeExternalHighlights \<lparr>fileSize = 10, contentSources = None\<rparr>
       (JArr (map highlightObject (highlights p))) = Some hs \<and> length hs = 2"
proof -
  let ?p = "buildRangeMap
     \<lparr>d_source = None, d_sourceFileSize = None, d_selectedPath = Some (lit ''a''), d_nodes = sampleNodes\<rparr>"
  have "length (highlights ?p) = 2" "\<forall>h\<in>set (highlights ?p). \<not> h_length h > MAX_WEBVIEW_HEX_BYTES"
    by (simp_all add: buildRangeMap_highlights sampleNodes_def rangeMapNodeToHighlight_def Let_def
        MAX_WEBVIEW_HEX_BYTES_def)
  then show ?thesis
    using range_map_reaches_webview [OF sample_parsed sample_fits] sample_parsed sample_fits
    by (intro exI [of _ ?p]) auto
qed

text \<open>C29: an accepted range map has at most 512 nodes nested at most 64 deep, no two with the same path; each
  node has a path and a label, a safe non-negative offset and a positive length, and texts within
  their limits; and there is one highlight per node.\<close>

theorem range_map_well_formed:
  assumes "parseRangeMapContent fr content = Inr p"
  shows "wfDocument (document p) \<and> nodeCount p = length (flattenRangeMapNodes (d_nodes (document p))) \<and>
    length (highlights p) = nodeCount p \<and> nodeCount p \<le> 512"
proof -
  have p: "p = buildRangeMap (document p)" "wfDocument (document p)"
    using parseRangeMapContent_Inr [OF assms] by auto
  have "nodeCount (buildRangeMap d) = length (flattenRangeMapNodes (d_nodes d)) \<and>
    length (highlights (buildRangeMap d)) = length (flattenRangeMapNodes (d_nodes d))" for d
    by (simp add: buildRangeMap_def Let_def)
  then have "nodeCount p = length (flattenRangeMapNodes (d_nodes (document p)))"
    "length (highlights p) = length (flattenRangeMapNodes (d_nodes (document p)))"
    using p(1) by metis+
  then show ?thesis
    using p(2) by (simp add: wfDocument_def Let_def MAX_RANGE_MAP_NODES_def)
qed

lemma range_map_well_formed_witness:
  "\<exists>p. parseRangeMapContent NOther sampleText = Inr p \<and> wfDocument (document p) \<and> nodeCount p \<le> 512"
  using range_map_well_formed [OF sample_parsed] sample_parsed by blast

text \<open>The rows of the webview's tree, children first.\<close>

fun visitRows :: "WebviewRangeMapNode \<Rightarrow> (ustring \<times> int \<times> int \<times> ExternalHighlightKind \<times> ustring option) list" where
  "visitRows (WebviewRangeMapNode i p l off len k s t v cs) =
     concat (map visitRows cs) @ [(i, off, len, k, s)]"

definition highlightRow :: "WebviewExternalHighlight \<Rightarrow> ustring \<times> int \<times> int \<times> ExternalHighlightKind \<times> ustring option" where
  "highlightRow h = (h_id h, h_offset h, h_length h, h_kind h, h_source h)"

lemma visitRows_node:
  "visitRows (rangeMapNodeToWebviewNode ids ds sel n) =
     map (\<lambda>m. highlightRow (rangeMapNodeToHighlight m (idOf ids m) ds sel)) (visit n)"
proof (induction n)
  case (RangeMapNode p l off len k s t v cs)
  then have "concat (map (visitRows \<circ> rangeMapNodeToWebviewNode ids ds sel) cs) =
      map (\<lambda>m. highlightRow (rangeMapNodeToHighlight m (idOf ids m) ds sel)) (concat (map visit cs))"
    by (induction cs) simp_all
  then show ?case
    by (simp add: Let_def highlightRow_def rangeMapNodeToHighlight_def)
qed

text \<open>C15: the ids of the highlights are pairwise distinct, even when a path looks like a generated id, and
  the tree shown beside the hex view refers to the same ids, with the same ranges, kinds and
  sources, in the same order.\<close>

theorem range_map_ids:
  assumes "parseRangeMapContent fr content = Inr p"
  shows "distinct (map h_id (highlights p)) \<and> concat (map visitRows (tree p)) = map highlightRow (highlights p)"
proof -
  have p: "p = buildRangeMap (document p)" "wfDocument (document p)"
    using parseRangeMapContent_Inr [OF assms] by auto
  have "concat (map visitRows (tree (buildRangeMap d))) = map highlightRow (highlights (buildRangeMap d))" for d
    by (simp add: buildRangeMap_def Let_def visitRows_node flattenRangeMapNodes_def map_concat comp_def)
  then have "concat (map visitRows (tree p)) = map highlightRow (highlights p)"
    using p(1) by metis
  moreover have "distinct (map h_id (highlights p))"
    using buildRangeMap_ids [OF p(2)] p(1) assignIds_fresh [of _ 0 "[]"] by metis
  ultimately show ?thesis by blast
qed

lemma range_map_ids_witness:
  "\<exists>p. parseRangeMapContent NOther sampleText = Inr p \<and> distinct (map h_id (highlights p)) \<and>
     concat (map visitRows (tree p)) = map highlightRow (highlights p)"
  using range_map_ids [OF sample_parsed] sample_parsed by blast

end
