(* ===== verification/Change_Log_Codec.thy ===== *)
theory Change_Log_Codec
  imports JS_Json "HOL-Library.Word" "HOL-Library.List_Lexorder"
begin

text \<open>
  The change log codec (\<^verbatim>\<open>packages/client/src/changeLog/codec.ts\<close> and \<^verbatim>\<open>types.ts\<close>): a document of
  unknown shape is checked against limits and normalised into a header, a list of entries and a
  summary. An error is the code of the \<^verbatim>\<open>ChangeLogCodecError\<close>. An object that threw is not used
  again, so the state of a validator is answered on success only. The cancellation signal is
  the sequence of the answers to the questions whether it is aborted.
\<close>

unbundle bit_operations_syntax

type_synonym code = string

section \<open>Types and limits\<close>

definition CHANGE_LOG_FORMAT :: string where "CHANGE_LOG_FORMAT = ''omega-edit.change-log''"
definition CHANGE_LOG_VERSION :: int where "CHANGE_LOG_VERSION = 2"
definition CHANGE_LOG_DEFAULT_DIGEST_PLUGIN_ID :: string where
  "CHANGE_LOG_DEFAULT_DIGEST_PLUGIN_ID = ''omega.example.openssl_digests''"
definition CHANGE_LOG_DIGEST_PLUGIN_ID_MAX_LENGTH :: nat where "CHANGE_LOG_DIGEST_PLUGIN_ID_MAX_LENGTH = 4096"
definition CHANGE_LOG_DIGEST_ALGORITHM_MAX_LENGTH :: nat where "CHANGE_LOG_DIGEST_ALGORITHM_MAX_LENGTH = 128"
definition CHANGE_LOG_DIGEST_VALUE_MAX_LENGTH :: nat where "CHANGE_LOG_DIGEST_VALUE_MAX_LENGTH = 4096"
definition MAX_INT64 :: int where "MAX_INT64 = 9223372036854775807"

datatype ChangeLogEntryKind = INSERT | DELETE | OVERWRITE | REPLACE | TRANSFORM

fun entryKindName :: "ChangeLogEntryKind \<Rightarrow> string" where
  "entryKindName INSERT = ''INSERT''" | "entryKindName DELETE = ''DELETE''"
| "entryKindName OVERWRITE = ''OVERWRITE''" | "entryKindName REPLACE = ''REPLACE''"
| "entryKindName TRANSFORM = ''TRANSFORM''"

definition entryKinds :: "ChangeLogEntryKind list" where
  "entryKinds = [INSERT, DELETE, OVERWRITE, REPLACE, TRANSFORM]"

record ChangeLogTransformDescriptor =
  transformId :: ustring
  optionsJson :: "ustring option"

record NormalizedChangeLogEntry =
  e_kind :: ChangeLogEntryKind
  e_offset :: ustring
  e_length :: ustring
  e_data :: ustring
  e_serial :: "ustring option"
  e_groupId :: "ustring option"
  e_transformDescriptor :: "ChangeLogTransformDescriptor option"

record ChangeLogDigest =
  dg_pluginId :: ustring
  dg_algorithm :: ustring
  dg_value :: ustring

record NormalizedChangeLogFingerprint =
  fp_byteLength :: ustring
  fp_digest :: ChangeLogDigest

record ChangeLogHeader =
  hd_complete :: bool
  hd_before :: NormalizedChangeLogFingerprint
  hd_after :: NormalizedChangeLogFingerprint
  hd_changeCount :: ustring
  hd_sourceChangeCount :: ustring
  hd_unavailableChangeCount :: ustring
  hd_unavailableChangeSerials :: "ustring list"

record ChangeLogPrimitiveCounts =
  pc_total :: nat
  pc_insert :: nat
  pc_delete :: nat
  pc_overwrite :: nat
  pc_replace :: nat
  pc_transform :: nat

record ChangeLogTransformDescriptorSummary =
  ts_index :: nat
  ts_serial :: "ustring option"
  ts_offset :: ustring
  ts_length :: ustring
  ts_transformId :: ustring
  ts_optionsJson :: "ustring option"

record ChangeLogScanDiagnostics =
  bytesRead :: nat
  maxBufferedChars :: nat
  maxValueChars :: nat

record ChangeLogScanResult =
  sr_header :: ChangeLogHeader
  sr_entryCount :: nat
  sr_primitiveCounts :: ChangeLogPrimitiveCounts
  sr_transformDescriptors :: "ChangeLogTransformDescriptorSummary list"
  sr_requiredPlugins :: "ustring list"
  sr_diagnostics :: ChangeLogScanDiagnostics

record ChangeLogCodecLimits =
  maxNesting :: int
  maxEntryCount :: int
  maxEntryChars :: int
  maxHeaderValueChars :: int
  maxStringChars :: int
  maxGroupIdChars :: int
  maxGroupCount :: int
  maxTransformCount :: int
  maxTransformIdBytes :: int
  maxTransformOptionsBytes :: int
  maxRequiredPluginCount :: int
  maxUnavailableSerialCount :: int

definition defaultLimitFields :: "(ustring \<times> jsval) list" where
  "defaultLimitFields = map (\<lambda>(k, n). (lit k, JNum (NInt n)))
     [(''maxNesting'', 256), (''maxEntryCount'', 1000000), (''maxEntryChars'', 134221824),
      (''maxHeaderValueChars'', 16777216), (''maxStringChars'', 134217728),
      (''maxGroupIdChars'', 256), (''maxGroupCount'', 65536), (''maxTransformCount'', 65536),
      (''maxTransformIdBytes'', 4096), (''maxTransformOptionsBytes'', 1048576),
      (''maxRequiredPluginCount'', 4096), (''maxUnavailableSerialCount'', 65536)]"

text \<open>The overrides are an object; its properties replace or extend the defaults, and all are checked.\<close>

definition limitValue :: "jsval \<Rightarrow> code + int" where
  "limitValue v = (case v of
     JNum (NInt i) \<Rightarrow> if isSafeInt i \<and> 0 < i then Inr i else Inl ''CHANGE_LOG_INVALID_LIMIT''
   | _ \<Rightarrow> Inl ''CHANGE_LOG_INVALID_LIMIT'')"

definition limitOf :: "(ustring \<times> jsval) list \<Rightarrow> string \<Rightarrow> int" where
  "limitOf ob k = (case getProp ob k of JNum (NInt i) \<Rightarrow> i | _ \<Rightarrow> 0)"

definition resolveChangeLogCodecLimits :: "(ustring \<times> jsval) list \<Rightarrow> code + ChangeLogCodecLimits" where
  "resolveChangeLogCodecLimits overrides =
     (let ob = foldl (\<lambda>ps (k, v). setProp k v ps) defaultLimitFields overrides in
      bindE (mapE (\<lambda>(k, v). limitValue v) ob) (\<lambda>_.
        Inr \<lparr>maxNesting = limitOf ob ''maxNesting'', maxEntryCount = limitOf ob ''maxEntryCount'',
             maxEntryChars = limitOf ob ''maxEntryChars'',
             maxHeaderValueChars = limitOf ob ''maxHeaderValueChars'',
             maxStringChars = limitOf ob ''maxStringChars'',
             maxGroupIdChars = limitOf ob ''maxGroupIdChars'',
             maxGroupCount = limitOf ob ''maxGroupCount'',
             maxTransformCount = limitOf ob ''maxTransformCount'',
             maxTransformIdBytes = limitOf ob ''maxTransformIdBytes'',
             maxTransformOptionsBytes = limitOf ob ''maxTransformOptionsBytes'',
             maxRequiredPluginCount = limitOf ob ''maxRequiredPluginCount'',
             maxUnavailableSerialCount = limitOf ob ''maxUnavailableSerialCount''\<rparr>))"

definition throwIfChangeLogCancelled :: "bool \<Rightarrow> code + unit" where
  "throwIfChangeLogCancelled aborted = orFail (\<not> aborted) ''CHANGE_LOG_CANCELLED''"

definition isChangeLogRecord :: "jsval \<Rightarrow> (ustring \<times> jsval) list option" where
  "isChangeLogRecord v = (case v of JObj ps \<Rightarrow> Some ps | _ \<Rightarrow> None)"

section \<open>Integers\<close>

definition parseChangeLogNonNegativeInt64 :: "jsval \<Rightarrow> code + int" where
  "parseChangeLogNonNegativeInt64 v =
     bindE (case v of
         JBigInt i \<Rightarrow> Inr i
       | JNum (NInt i) \<Rightarrow> if isSafeInt i then Inr i else Inl ''CHANGE_LOG_INVALID_INT64''
       | JStr s \<Rightarrow> if isCanonicalDecimal s then Inr (int (digitsValue s)) else Inl ''CHANGE_LOG_INVALID_INT64''
       | _ \<Rightarrow> Inl ''CHANGE_LOG_INVALID_INT64'') (\<lambda>parsed.
     if parsed < 0 \<or> parsed > MAX_INT64 then Inl ''CHANGE_LOG_INVALID_INT64'' else Inr parsed)"

definition parseChangeLogPositiveInt64 :: "jsval \<Rightarrow> code + int" where
  "parseChangeLogPositiveInt64 v =
     bindE (parseChangeLogNonNegativeInt64 v) (\<lambda>parsed.
       if parsed = 0 then Inl ''CHANGE_LOG_INVALID_INT64'' else Inr parsed)"

definition changeLogInt64ToDecimal :: "jsval \<Rightarrow> code + ustring" where
  "changeLogInt64ToDecimal v = bindE (parseChangeLogNonNegativeInt64 v) (\<lambda>i. Inr (bigintToString i))"

definition positiveInt64ToDecimal :: "jsval \<Rightarrow> code + ustring" where
  "positiveInt64ToDecimal v = bindE (parseChangeLogPositiveInt64 v) (\<lambda>i. Inr (bigintToString i))"

section \<open>Strings and nesting\<close>

fun assertValidUnicodeString :: "ustring \<Rightarrow> code + unit" where
  "assertValidUnicodeString [] = Inr ()"
| "assertValidUnicodeString [u] =
     (if isHighSurrogate u \<or> isLowSurrogate u then Inl ''CHANGE_LOG_INVALID_UNICODE'' else Inr ())"
| "assertValidUnicodeString (u # v # us) =
     (if isHighSurrogate u then
        (if isLowSurrogate v then assertValidUnicodeString us else Inl ''CHANGE_LOG_INVALID_UNICODE'')
      else if isLowSurrogate u then Inl ''CHANGE_LOG_INVALID_UNICODE''
      else assertValidUnicodeString (v # us))"

fun validateChangeLogJsonValue :: "ChangeLogCodecLimits \<Rightarrow> nat \<Rightarrow> jsval \<Rightarrow> code + unit"
  and validateItems :: "ChangeLogCodecLimits \<Rightarrow> nat \<Rightarrow> jsval list \<Rightarrow> code + unit"
  and validateProps :: "ChangeLogCodecLimits \<Rightarrow> nat \<Rightarrow> (ustring \<times> jsval) list \<Rightarrow> code + unit" where
  "validateChangeLogJsonValue limits depth v =
     (if int depth > maxNesting limits then Inl ''CHANGE_LOG_NESTING_LIMIT''
      else case v of
          JStr s \<Rightarrow>
            if int (length s) > maxStringChars limits then Inl ''CHANGE_LOG_STRING_LIMIT''
            else assertValidUnicodeString s
        | JArr xs \<Rightarrow> validateItems limits (depth + 1) xs
        | JObj ps \<Rightarrow> validateProps limits (depth + 1) ps
        | _ \<Rightarrow> Inr ())"
| "validateItems limits depth [] = Inr ()"
| "validateItems limits depth (x # xs) =
     bindE (validateChangeLogJsonValue limits depth x) (\<lambda>_. validateItems limits depth xs)"
| "validateProps limits depth [] = Inr ()"
| "validateProps limits depth ((k, x) # ps) =
     bindE (assertValidUnicodeString k) (\<lambda>_.
     bindE (validateChangeLogJsonValue limits depth x) (\<lambda>_. validateProps limits depth ps))"

declare validateChangeLogJsonValue.simps [simp del]

definition normalizeHex :: "jsval \<Rightarrow> code + ustring" where
  "normalizeHex v = (case v of
     JStr s \<Rightarrow>
       if length s mod 2 \<noteq> 0 \<or> \<not> list_all (\<lambda>u. hexDigitValue u \<noteq> None) s then Inl ''CHANGE_LOG_INVALID_HEX''
       else Inr (toLowerCase s)
   | _ \<Rightarrow> Inl ''CHANGE_LOG_INVALID_HEX'')"

definition hexCodeUnitToNibble :: "nat \<Rightarrow> nat" where
  "hexCodeUnitToNibble u = (if u \<le> 57 then u - 48 else (u AND 223) - 55)"

fun hexBytes :: "ustring \<Rightarrow> bytes" where
  "hexBytes (u # v # us) = of_nat (push_bit 4 (hexCodeUnitToNibble u) OR hexCodeUnitToNibble v) # hexBytes us"
| "hexBytes _ = []"

definition decodeHexUtf8 :: "ustring \<Rightarrow> code + ustring" where
  "decodeHexUtf8 s = required ''CHANGE_LOG_INVALID_UNICODE'' (textDecodeFatal (hexBytes s))"

section \<open>Entries\<close>

text \<open>\<^verbatim>\<open>typeof x !== 'string' || !x.trim()\<close> throws, otherwise the trimmed string.\<close>

definition requireText :: "code \<Rightarrow> jsval \<Rightarrow> code + ustring" where
  "requireText e v = (case v of
     JStr s \<Rightarrow> if trim s = [] then Inl e else Inr (trim s)
   | _ \<Rightarrow> Inl e)"

definition parseTransformDescriptor ::
    "(ustring \<Rightarrow> jsnum) \<Rightarrow> ChangeLogCodecLimits \<Rightarrow> ustring \<Rightarrow> code + ChangeLogTransformDescriptor" where
  "parseTransformDescriptor fr limits d =
     bindE (orFail (length d \<noteq> 0) ''CHANGE_LOG_INVALID_TRANSFORM'') (\<lambda>_.
     bindE (decodeHexUtf8 d) (\<lambda>t.
     bindE (required ''CHANGE_LOG_INVALID_TRANSFORM'' (jsonParse fr t)) (\<lambda>descriptor.
     bindE (validateChangeLogJsonValue limits 0 descriptor) (\<lambda>_.
     bindE (required ''CHANGE_LOG_INVALID_TRANSFORM'' (isChangeLogRecord descriptor)) (\<lambda>ps.
     bindE (requireText ''CHANGE_LOG_INVALID_TRANSFORM'' (getProp ps ''transformId'')) (\<lambda>normalizedTransformId.
     bindE (required ''CHANGE_LOG_INVALID_TRANSFORM''
       (if getProp ps ''args'' = JUndefined then Some [] else isChangeLogRecord (getProp ps ''args''))) (\<lambda>args.
     let options = (if length args > 0 then Some (jsonStringify (JObj args)) else None) in
     bindE (orFail (\<not> int (length (utf8Encode normalizedTransformId)) > maxTransformIdBytes limits)
       ''CHANGE_LOG_TRANSFORM_METADATA_LIMIT'') (\<lambda>_.
     bindE (orFail (case options of None \<Rightarrow> True
         | Some j \<Rightarrow> \<not> int (length (utf8Encode j)) > maxTransformOptionsBytes limits)
       ''CHANGE_LOG_TRANSFORM_METADATA_LIMIT'') (\<lambda>_.
       Inr \<lparr>transformId = normalizedTransformId, optionsJson = options\<rparr>)))))))))"

definition entryKindOf :: "jsval \<Rightarrow> ChangeLogEntryKind option" where
  "entryKindOf v = find (\<lambda>k. v = JStr (lit (entryKindName k))) entryKinds"

definition entrySerial :: "jsval \<Rightarrow> code + ustring option" where
  "entrySerial v =
     (if v = JUndefined then Inr None else bindE (positiveInt64ToDecimal v) (\<lambda>s. Inr (Some s)))"

definition entryGroupId :: "ChangeLogCodecLimits \<Rightarrow> jsval \<Rightarrow> code + ustring option" where
  "entryGroupId limits v =
     (if v = JUndefined then Inr None
      else bindE (requireText ''CHANGE_LOG_INVALID_ENTRY'' v) (\<lambda>g.
        if int (length g) > maxGroupIdChars limits then Inl ''CHANGE_LOG_GROUP_LIMIT'' else Inr (Some g)))"

definition legacyTransformFields :: "string list" where
  "legacyTransformFields =
     [''transformId'', ''optionsJson'', ''replacementLength'', ''computedFileSizeBefore'', ''computedFileSizeAfter'']"

definition entryDescriptor ::
    "(ustring \<Rightarrow> jsnum) \<Rightarrow> ChangeLogCodecLimits \<Rightarrow> ChangeLogEntryKind \<Rightarrow> (ustring \<times> jsval) list \<Rightarrow> ustring \<Rightarrow>
     code + ChangeLogTransformDescriptor option" where
  "entryDescriptor fr limits kind ps d =
     (if kind \<noteq> TRANSFORM then Inr None
      else if list_ex (\<lambda>f. map_of ps (lit f) \<noteq> None) legacyTransformFields
      then Inl ''CHANGE_LOG_INVALID_TRANSFORM''
      else bindE (parseTransformDescriptor fr limits d) (\<lambda>t. Inr (Some t)))"

definition normalizeChangeLogEntry ::
    "(ustring \<Rightarrow> jsnum) \<Rightarrow> ChangeLogCodecLimits \<Rightarrow> jsval \<Rightarrow> code + NormalizedChangeLogEntry" where
  "normalizeChangeLogEntry fr limits v =
     bindE (validateChangeLogJsonValue limits 0 v) (\<lambda>_.
     bindE (required ''CHANGE_LOG_INVALID_ENTRY'' (isChangeLogRecord v)) (\<lambda>ps.
     bindE (required ''CHANGE_LOG_INVALID_ENTRY'' (entryKindOf (getProp ps ''kind''))) (\<lambda>kind.
     bindE (changeLogInt64ToDecimal (getProp ps ''offset'')) (\<lambda>offset.
     bindE (changeLogInt64ToDecimal (getProp ps ''length'')) (\<lambda>len.
     bindE (normalizeHex (getProp ps ''data'')) (\<lambda>d.
     let dataLength = length d div 2 in
     bindE (orFail (\<not> (kind \<in> {INSERT, DELETE, OVERWRITE} \<and> dataLength = 0)) ''CHANGE_LOG_INVALID_ENTRY'') (\<lambda>_.
     bindE (orFail (\<not> (kind = DELETE \<and> dataLength \<noteq> digitsValue len)) ''CHANGE_LOG_INVALID_ENTRY'') (\<lambda>_.
     bindE (entrySerial (getProp ps ''serial'')) (\<lambda>serial.
     bindE (entryGroupId limits (getProp ps ''groupId'')) (\<lambda>groupId.
     bindE (entryDescriptor fr limits kind ps d) (\<lambda>descriptor.
       Inr \<lparr>e_kind = kind, e_offset = offset, e_length = len, e_data = d, e_serial = serial,
            e_groupId = groupId, e_transformDescriptor = descriptor\<rparr>)))))))))))"

section \<open>The header\<close>

definition isPluginIdUnit :: "nat \<Rightarrow> bool" where
  "isPluginIdUnit u \<longleftrightarrow> (65 \<le> u \<and> u \<le> 90) \<or> (97 \<le> u \<and> u \<le> 122) \<or> isDigit u \<or> u = 46 \<or> u = 95 \<or> u = 45"

definition isAlgorithmUnit :: "nat \<Rightarrow> bool" where
  "isAlgorithmUnit u \<longleftrightarrow> (97 \<le> u \<and> u \<le> 122) \<or> isDigit u \<or> u = 45"

definition isLowerHexUnit :: "nat \<Rightarrow> bool" where
  "isLowerHexUnit u \<longleftrightarrow> isDigit u \<or> (97 \<le> u \<and> u \<le> 102)"

definition textOr :: "jsval \<Rightarrow> ustring" where
  "textOr v = (case v of JStr s \<Rightarrow> trim s | _ \<Rightarrow> [])"

definition normalizeChangeLogFingerprint :: "jsval \<Rightarrow> code + NormalizedChangeLogFingerprint" where
  "normalizeChangeLogFingerprint v =
     bindE (required ''CHANGE_LOG_INVALID_FINGERPRINT'' (isChangeLogRecord v)) (\<lambda>ps.
     bindE (changeLogInt64ToDecimal (getProp ps ''byteLength'')) (\<lambda>byteLength.
     bindE (required ''CHANGE_LOG_INVALID_FINGERPRINT'' (isChangeLogRecord (getProp ps ''digest''))) (\<lambda>dg.
     let pluginId = textOr (if getProp dg ''pluginId'' = JUndefined \<or> getProp dg ''pluginId'' = JNull
           then JStr (lit CHANGE_LOG_DEFAULT_DIGEST_PLUGIN_ID) else getProp dg ''pluginId'');
         algorithm = toLowerCase (textOr (getProp dg ''algorithm''));
         digestValue = toLowerCase (textOr (getProp dg ''value''))
     in
     bindE (orFail (pluginId \<noteq> [] \<and> list_all isPluginIdUnit pluginId \<and>
         length pluginId \<le> CHANGE_LOG_DIGEST_PLUGIN_ID_MAX_LENGTH) ''CHANGE_LOG_INVALID_FINGERPRINT'') (\<lambda>_.
     bindE (orFail (algorithm \<noteq> [] \<and> list_all isAlgorithmUnit algorithm \<and>
         length algorithm \<le> CHANGE_LOG_DIGEST_ALGORITHM_MAX_LENGTH) ''CHANGE_LOG_INVALID_FINGERPRINT'') (\<lambda>_.
     bindE (orFail (digestValue \<noteq> [] \<and> list_all isLowerHexUnit digestValue \<and>
         length digestValue \<le> CHANGE_LOG_DIGEST_VALUE_MAX_LENGTH) ''CHANGE_LOG_INVALID_FINGERPRINT'') (\<lambda>_.
       Inr \<lparr>fp_byteLength = byteLength,
            fp_digest = \<lparr>dg_pluginId = pluginId, dg_algorithm = algorithm, dg_value = digestValue\<rparr>\<rparr>))))))"

fun unavailableLoop :: "int \<Rightarrow> ustring list \<Rightarrow> jsval list \<Rightarrow> code + ustring list" where
  "unavailableLoop sourceChangeCount seen [] = Inr []"
| "unavailableLoop sourceChangeCount seen (x # xs) =
     bindE (parseChangeLogPositiveInt64 x) (\<lambda>parsed.
       if parsed > sourceChangeCount then Inl ''CHANGE_LOG_INVALID_METADATA''
       else
         let decimal = bigintToString parsed in
         if decimal \<in> set seen then Inl ''CHANGE_LOG_INVALID_METADATA''
         else bindE (unavailableLoop sourceChangeCount (decimal # seen) xs) (\<lambda>ds. Inr (decimal # ds)))"

definition normalizeUnavailableChangeSerials ::
    "ChangeLogCodecLimits \<Rightarrow> int \<Rightarrow> jsval \<Rightarrow> code + ustring list" where
  "normalizeUnavailableChangeSerials limits sourceChangeCount v = (case v of
     JArr xs \<Rightarrow>
       if int (length xs) > maxUnavailableSerialCount limits then Inl ''CHANGE_LOG_UNAVAILABLE_SERIAL_LIMIT''
       else unavailableLoop sourceChangeCount [] xs
   | _ \<Rightarrow> Inl ''CHANGE_LOG_INVALID_METADATA'')"

definition asBool :: "jsval \<Rightarrow> bool option" where
  "asBool v = (case v of JBool b \<Rightarrow> Some b | _ \<Rightarrow> None)"

definition normalizeChangeLogHeader ::
    "ChangeLogCodecLimits \<Rightarrow> (ustring \<times> jsval) list \<Rightarrow> nat \<Rightarrow> code + ChangeLogHeader" where
  "normalizeChangeLogHeader limits document actualEntryCount =
     bindE (orFail (getProp document ''format'' = JStr (lit CHANGE_LOG_FORMAT)) ''CHANGE_LOG_UNSUPPORTED_FORMAT'') (\<lambda>_.
     bindE (orFail (getProp document ''version'' = JNum (NInt CHANGE_LOG_VERSION)) ''CHANGE_LOG_UNSUPPORTED_VERSION'') (\<lambda>_.
     bindE (required ''CHANGE_LOG_INVALID_METADATA'' (asBool (getProp document ''complete''))) (\<lambda>complete.
     bindE (parseChangeLogNonNegativeInt64 (getProp document ''changeCount'')) (\<lambda>changeCount.
     bindE (parseChangeLogNonNegativeInt64 (getProp document ''sourceChangeCount'')) (\<lambda>sourceChangeCount.
     bindE (parseChangeLogNonNegativeInt64 (getProp document ''unavailableChangeCount'')) (\<lambda>unavailableChangeCount.
     bindE (orFail (changeCount = int actualEntryCount) ''CHANGE_LOG_INVALID_METADATA'') (\<lambda>_.
     bindE (orFail (\<not> sourceChangeCount < changeCount) ''CHANGE_LOG_INVALID_METADATA'') (\<lambda>_.
     bindE (normalizeUnavailableChangeSerials limits sourceChangeCount (getProp document ''unavailableChangeSerials''))
       (\<lambda>serials.
     bindE (orFail (unavailableChangeCount = int (length serials)) ''CHANGE_LOG_INVALID_METADATA'') (\<lambda>_.
     bindE (orFail (complete = (unavailableChangeCount = 0)) ''CHANGE_LOG_INVALID_METADATA'') (\<lambda>_.
     bindE (normalizeChangeLogFingerprint (getProp document ''before'')) (\<lambda>before.
     bindE (normalizeChangeLogFingerprint (getProp document ''after'')) (\<lambda>after.
       Inr \<lparr>hd_complete = complete, hd_before = before, hd_after = after,
            hd_changeCount = bigintToString changeCount,
            hd_sourceChangeCount = bigintToString sourceChangeCount,
            hd_unavailableChangeCount = bigintToString unavailableChangeCount,
            hd_unavailableChangeSerials = serials\<rparr>)))))))))))))"

section \<open>The sequence of entries\<close>

record ChangeLogEntrySequenceValidator =
  serialMode :: "bool option"
  activeGroup :: "ustring option"
  closedGroups :: "ustring list"

definition newSequence :: ChangeLogEntrySequenceValidator where
  "newSequence = \<lparr>serialMode = None, activeGroup = None, closedGroups = []\<rparr>"

definition closeActiveGroup ::
    "ChangeLogCodecLimits \<Rightarrow> ChangeLogEntrySequenceValidator \<Rightarrow> code + ChangeLogEntrySequenceValidator" where
  "closeActiveGroup limits s = (case activeGroup s of
     None \<Rightarrow> Inr s
   | Some g \<Rightarrow>
       if int (length (closedGroups s)) \<ge> maxGroupCount limits then Inl ''CHANGE_LOG_GROUP_LIMIT''
       else Inr (s\<lparr>closedGroups := List.insert g (closedGroups s), activeGroup := None\<rparr>))"

definition acceptSerial ::
    "NormalizedChangeLogEntry \<Rightarrow> nat \<Rightarrow> ChangeLogEntrySequenceValidator \<Rightarrow> code + ChangeLogEntrySequenceValidator" where
  "acceptSerial entry index s =
     (let hasSerial = (e_serial entry \<noteq> None) in
      bindE (orFail (serialMode s = None \<or> serialMode s = Some hasSerial) ''CHANGE_LOG_INVALID_SERIALS'') (\<lambda>_.
      bindE (orFail (case e_serial entry of None \<Rightarrow> True | Some t \<Rightarrow> digitsValue t = index + 1)
        ''CHANGE_LOG_INVALID_SERIALS'') (\<lambda>_.
        Inr (s\<lparr>serialMode := Some hasSerial\<rparr>))))"

definition acceptGroup ::
    "ChangeLogCodecLimits \<Rightarrow> ustring option \<Rightarrow> ChangeLogEntrySequenceValidator \<Rightarrow> code + ChangeLogEntrySequenceValidator" where
  "acceptGroup limits groupId s = (case groupId of
     None \<Rightarrow> closeActiveGroup limits s
   | Some g \<Rightarrow>
       if g = [] then closeActiveGroup limits s
       else if activeGroup s = Some g then Inr s
       else if g \<in> set (closedGroups s) then Inl ''CHANGE_LOG_INVALID_GROUPS''
       else bindE (closeActiveGroup limits s) (\<lambda>s'. Inr (s'\<lparr>activeGroup := Some g\<rparr>)))"

definition acceptEntry ::
    "ChangeLogCodecLimits \<Rightarrow> NormalizedChangeLogEntry \<Rightarrow> nat \<Rightarrow> ChangeLogEntrySequenceValidator \<Rightarrow>
     code + ChangeLogEntrySequenceValidator" where
  "acceptEntry limits entry index s =
     bindE (acceptSerial entry index s) (\<lambda>s'. acceptGroup limits (e_groupId entry) s')"

section \<open>The scan\<close>

definition emptyPrimitiveCounts :: ChangeLogPrimitiveCounts where
  "emptyPrimitiveCounts =
     \<lparr>pc_total = 0, pc_insert = 0, pc_delete = 0, pc_overwrite = 0, pc_replace = 0, pc_transform = 0\<rparr>"

fun countKind :: "ChangeLogEntryKind \<Rightarrow> ChangeLogPrimitiveCounts \<Rightarrow> ChangeLogPrimitiveCounts" where
  "countKind INSERT c = c\<lparr>pc_total := pc_total c + 1, pc_insert := pc_insert c + 1\<rparr>"
| "countKind DELETE c = c\<lparr>pc_total := pc_total c + 1, pc_delete := pc_delete c + 1\<rparr>"
| "countKind OVERWRITE c = c\<lparr>pc_total := pc_total c + 1, pc_overwrite := pc_overwrite c + 1\<rparr>"
| "countKind REPLACE c = c\<lparr>pc_total := pc_total c + 1, pc_replace := pc_replace c + 1\<rparr>"
| "countKind TRANSFORM c = c\<lparr>pc_total := pc_total c + 1, pc_transform := pc_transform c + 1\<rparr>"

record ChangeLogScanAccumulator =
  primitiveCounts :: ChangeLogPrimitiveCounts
  transformDescriptors :: "ChangeLogTransformDescriptorSummary list"
  requiredPluginIds :: "ustring list"
  sequence :: ChangeLogEntrySequenceValidator

definition newAccumulator :: ChangeLogScanAccumulator where
  "newAccumulator = \<lparr>primitiveCounts = emptyPrimitiveCounts, transformDescriptors = [],
     requiredPluginIds = [], sequence = newSequence\<rparr>"

definition acceptDescriptor ::
    "ChangeLogCodecLimits \<Rightarrow> NormalizedChangeLogEntry \<Rightarrow> nat \<Rightarrow> ChangeLogScanAccumulator \<Rightarrow>
     code + ChangeLogScanAccumulator" where
  "acceptDescriptor limits entry index a =
     (case e_transformDescriptor entry of
        None \<Rightarrow> Inr a
      | Some descriptor \<Rightarrow>
          if e_kind entry \<noteq> TRANSFORM then Inr a
          else
            bindE (orFail (\<not> int (length (transformDescriptors a)) \<ge> maxTransformCount limits)
              ''CHANGE_LOG_TRANSFORM_LIMIT'') (\<lambda>_.
            let a' = a\<lparr>transformDescriptors := transformDescriptors a @
                  [\<lparr>ts_index = index, ts_serial = e_serial entry, ts_offset = e_offset entry,
                    ts_length = e_length entry, ts_transformId = transformId descriptor,
                    ts_optionsJson = optionsJson descriptor\<rparr>],
                requiredPluginIds := List.insert (transformId descriptor) (requiredPluginIds a)\<rparr>
            in bindE (orFail (\<not> int (length (requiredPluginIds a')) > maxRequiredPluginCount limits)
                 ''CHANGE_LOG_PLUGIN_LIMIT'') (\<lambda>_. Inr a')))"

definition accumulatorAccept ::
    "ChangeLogCodecLimits \<Rightarrow> NormalizedChangeLogEntry \<Rightarrow> nat \<Rightarrow> ChangeLogScanAccumulator \<Rightarrow>
     code + ChangeLogScanAccumulator" where
  "accumulatorAccept limits entry index a =
     bindE (orFail (\<not> int index \<ge> maxEntryCount limits) ''CHANGE_LOG_ENTRY_LIMIT'') (\<lambda>_.
     bindE (acceptEntry limits entry index (sequence a)) (\<lambda>s.
       acceptDescriptor limits entry index
         (a\<lparr>sequence := s, primitiveCounts := countKind (e_kind entry) (primitiveCounts a)\<rparr>)))"

definition accumulatorFinish ::
    "ChangeLogCodecLimits \<Rightarrow> (ustring \<times> jsval) list \<Rightarrow> ChangeLogScanDiagnostics \<Rightarrow> ChangeLogScanAccumulator \<Rightarrow>
     code + ChangeLogScanResult" where
  "accumulatorFinish limits document diagnostics a =
     bindE (normalizeChangeLogHeader limits document (pc_total (primitiveCounts a))) (\<lambda>header.
       Inr \<lparr>sr_header = header, sr_entryCount = pc_total (primitiveCounts a),
            sr_primitiveCounts = primitiveCounts a, sr_transformDescriptors = transformDescriptors a,
            sr_requiredPlugins = sort (requiredPluginIds a), sr_diagnostics = diagnostics\<rparr>)"

section \<open>Documents\<close>

record ChangeLogEntry =
  r_serial :: "jsval option"
  r_kind :: ChangeLogEntryKind
  r_offset :: jsval
  r_length :: jsval
  r_data :: ustring
  r_groupId :: "ustring option"

record SerializedChangeLogEntry =
  s_kind :: ChangeLogEntryKind
  s_offset :: ustring
  s_length :: ustring
  s_data :: ustring
  s_serial :: "ustring option"
  s_groupId :: "ustring option"

definition serializeChangeLogEntry :: "ChangeLogEntry \<Rightarrow> code + SerializedChangeLogEntry" where
  "serializeChangeLogEntry entry =
     bindE (changeLogInt64ToDecimal (r_offset entry)) (\<lambda>offset.
     bindE (changeLogInt64ToDecimal (r_length entry)) (\<lambda>len.
     bindE (normalizeHex (JStr (r_data entry))) (\<lambda>d.
     bindE (case r_serial entry of None \<Rightarrow> Inr None
        | Some v \<Rightarrow> bindE (positiveInt64ToDecimal v) (\<lambda>s. Inr (Some s))) (\<lambda>serial.
     bindE (case r_groupId entry of None \<Rightarrow> Inr None
        | Some g \<Rightarrow> if trim g = [] then Inl ''CHANGE_LOG_INVALID_ENTRY'' else Inr (Some (trim g))) (\<lambda>groupId.
       Inr \<lparr>s_kind = r_kind entry, s_offset = offset, s_length = len, s_data = d, s_serial = serial,
            s_groupId = groupId\<rparr>)))))"

text \<open>The loop over the entries; \<open>aborted n\<close> is the answer to the \<open>n\<close>-th question to the signal.\<close>

fun documentLoop ::
    "(ustring \<Rightarrow> jsnum) \<Rightarrow> (nat \<Rightarrow> bool) \<Rightarrow> ChangeLogCodecLimits \<Rightarrow> jsval list \<Rightarrow> nat \<Rightarrow> ChangeLogScanAccumulator \<Rightarrow>
     code + (NormalizedChangeLogEntry list \<times> ChangeLogScanAccumulator)" where
  "documentLoop fr aborted limits [] index a = Inr ([], a)"
| "documentLoop fr aborted limits (x # xs) index a =
     bindE (throwIfChangeLogCancelled (aborted (index + 1))) (\<lambda>_.
     bindE (normalizeChangeLogEntry fr limits x) (\<lambda>entry.
     bindE (accumulatorAccept limits entry index a) (\<lambda>a'.
     bindE (documentLoop fr aborted limits xs (index + 1) a') (\<lambda>(es, a'').
       Inr (entry # es, a'')))))"

record PreparedChangeLog =
  p_result :: ChangeLogScanResult
  p_changes :: "NormalizedChangeLogEntry list"

definition asArray :: "jsval \<Rightarrow> jsval list option" where
  "asArray v = (case v of JArr xs \<Rightarrow> Some xs | _ \<Rightarrow> None)"

definition normalizeChangeLogDocument ::
    "(ustring \<Rightarrow> jsnum) \<Rightarrow> (nat \<Rightarrow> bool) \<Rightarrow> (ustring \<times> jsval) list \<Rightarrow> jsval \<Rightarrow> code + PreparedChangeLog" where
  "normalizeChangeLogDocument fr aborted overrides v =
     bindE (throwIfChangeLogCancelled (aborted 0)) (\<lambda>_.
     bindE (resolveChangeLogCodecLimits overrides) (\<lambda>limits.
     bindE (validateChangeLogJsonValue limits 0 v) (\<lambda>_.
     bindE (required ''CHANGE_LOG_INVALID_DOCUMENT'' (isChangeLogRecord v)) (\<lambda>document.
     bindE (required ''CHANGE_LOG_INVALID_DOCUMENT'' (asArray (getProp document ''changes''))) (\<lambda>changes.
     bindE (documentLoop fr aborted limits changes 0 newAccumulator) (\<lambda>(es, a).
     bindE (accumulatorFinish limits document \<lparr>bytesRead = 0, maxBufferedChars = 0, maxValueChars = 0\<rparr> a)
       (\<lambda>result. Inr \<lparr>p_result = result, p_changes = es\<rparr>)))))))"

text \<open>The generator \<^verbatim>\<open>entries()\<close>: the entries yielded before the signal is aborted, and whether it was.\<close>

fun preparedEntries :: "(nat \<Rightarrow> bool) \<Rightarrow> nat \<Rightarrow> NormalizedChangeLogEntry list \<Rightarrow> NormalizedChangeLogEntry list \<times> bool" where
  "preparedEntries aborted n [] = ([], False)"
| "preparedEntries aborted n (e # es) =
     (if aborted n then ([], True) else (case preparedEntries aborted (n + 1) es of (ys, c) \<Rightarrow> (e # ys, c)))"

text \<open>The object of a serialized entry, with the properties in the order they are set.\<close>

definition entryObject :: "SerializedChangeLogEntry \<Rightarrow> jsval" where
  "entryObject e = JObj
     ([(lit ''kind'', JStr (lit (entryKindName (s_kind e)))), (lit ''offset'', JStr (s_offset e)),
       (lit ''length'', JStr (s_length e)), (lit ''data'', JStr (s_data e))] @
      (case s_serial e of None \<Rightarrow> [] | Some t \<Rightarrow> [(lit ''serial'', JStr t)]) @
      (case s_groupId e of None \<Rightarrow> [] | Some g \<Rightarrow> [(lit ''groupId'', JStr g)]))"

definition createChangeLogDocument ::
    "(ustring \<Rightarrow> jsnum) \<Rightarrow> (ustring \<times> jsval) list \<Rightarrow> ChangeLogEntry list \<Rightarrow> code + jsval" where
  "createChangeLogDocument fr header changes =
     bindE (mapE serializeChangeLogEntry changes) (\<lambda>es.
     let document = JObj (setProp (lit ''changes'') (JArr (map entryObject es)) header) in
     bindE (normalizeChangeLogDocument fr (\<lambda>_. False) [] document) (\<lambda>_. Inr document))"

definition normalizeFingerprintForChangeLog :: "jsval \<Rightarrow> code + NormalizedChangeLogFingerprint" where
  "normalizeFingerprintForChangeLog = normalizeChangeLogFingerprint"

section \<open>Lemmas on integers and text\<close>

lemma bigintToString_nat: "0 \<le> i \<Longrightarrow> bigintToString i = natDigits (nat i)"
  by (simp add: bigintToString_def)

lemma parseInt64_Inr: "parseChangeLogNonNegativeInt64 v = Inr i \<Longrightarrow> 0 \<le> i \<and> i \<le> MAX_INT64"
  by (auto simp: parseChangeLogNonNegativeInt64_def bindE_eq_Inr split: if_splits)

lemma parseInt64_decimal [simp]:
  "0 \<le> i \<Longrightarrow> i \<le> MAX_INT64 \<Longrightarrow> parseChangeLogNonNegativeInt64 (JStr (bigintToString i)) = Inr i"
  by (simp add: parseChangeLogNonNegativeInt64_def bigintToString_nat)

lemma parsePositive_decimal [simp]:
  "0 < i \<Longrightarrow> i \<le> MAX_INT64 \<Longrightarrow> parseChangeLogPositiveInt64 (JStr (bigintToString i)) = Inr i"
  by (simp add: parseChangeLogPositiveInt64_def)

lemma parsePositive_Inr: "parseChangeLogPositiveInt64 v = Inr i \<Longrightarrow> 0 < i \<and> i \<le> MAX_INT64"
  by (auto simp: parseChangeLogPositiveInt64_def bindE_eq_Inr dest!: parseInt64_Inr split: if_splits)

definition int64Text :: "ustring \<Rightarrow> bool" where
  "int64Text t \<longleftrightarrow> isCanonicalDecimal t \<and> int (digitsValue t) \<le> MAX_INT64"

lemma int64Text_decimal: "0 \<le> i \<Longrightarrow> i \<le> MAX_INT64 \<Longrightarrow> int64Text (bigintToString i)"
  by (simp add: int64Text_def bigintToString_nat)

lemma toDecimal_Inr:
  assumes "changeLogInt64ToDecimal v = Inr t"
  shows "int64Text t \<and> parseChangeLogNonNegativeInt64 v = Inr (int (digitsValue t))"
proof -
  obtain i where i: "parseChangeLogNonNegativeInt64 v = Inr i" "t = bigintToString i"
    using assms by (auto simp: changeLogInt64ToDecimal_def bindE_eq_Inr)
  then show ?thesis
    using parseInt64_Inr [OF i(1)] by (simp add: int64Text_def bigintToString_nat)
qed

lemma toDecimal_again: "int64Text t \<Longrightarrow> changeLogInt64ToDecimal (JStr t) = Inr t"
  by (simp add: int64Text_def changeLogInt64ToDecimal_def parseChangeLogNonNegativeInt64_def
      bigintToString_nat natDigits_digitsValue)

lemma positiveDecimal_Inr:
  "positiveInt64ToDecimal v = Inr t \<Longrightarrow> int64Text t \<and> 0 < digitsValue t"
  by (auto simp: positiveInt64ToDecimal_def bindE_eq_Inr int64Text_def bigintToString_nat
      dest!: parsePositive_Inr)

lemma positiveDecimal_again:
  "int64Text t \<Longrightarrow> 0 < digitsValue t \<Longrightarrow> positiveInt64ToDecimal (JStr t) = Inr t"
  by (simp add: int64Text_def positiveInt64ToDecimal_def parseChangeLogPositiveInt64_def
      parseChangeLogNonNegativeInt64_def bigintToString_nat natDigits_digitsValue)

text \<open>An integer of a change log, whether given as a number, a big integer or decimal text, is answered as
  its canonical decimal text below 2 to the 63, and reading that text again gives the same
  integer and the same text.\<close>

theorem int64_roundtrip:
  assumes "changeLogInt64ToDecimal v = Inr t"
  shows "isCanonicalDecimal t \<and> digitsValue t < 2 ^ 63 \<and>
    parseChangeLogNonNegativeInt64 (JStr t) = parseChangeLogNonNegativeInt64 v \<and>
    changeLogInt64ToDecimal (JStr t) = Inr t"
  using toDecimal_Inr [OF assms] toDecimal_again [of t]
  by (simp add: int64Text_def parseChangeLogNonNegativeInt64_def [of "JStr t"] MAX_INT64_def)

lemma int64_roundtrip_witness:
  "changeLogInt64ToDecimal (JNum (NInt 42)) = Inr (lit ''42'') \<and> changeLogInt64ToDecimal (JStr (lit ''42'')) = Inr (lit ''42'')"
proof -
  have e: "changeLogInt64ToDecimal (JNum (NInt 42)) = Inr (lit ''42'')"
    by (simp add: changeLogInt64ToDecimal_def parseChangeLogNonNegativeInt64_def isSafeInt_def
        MAX_SAFE_INTEGER_def MAX_INT64_def bigintToString_def natDigits.simps lit_def)
  show ?thesis using e int64_roundtrip [OF e] by blast
qed

section \<open>The order of entries\<close>

fun acceptAll ::
    "ChangeLogCodecLimits \<Rightarrow> NormalizedChangeLogEntry list \<Rightarrow> nat \<Rightarrow> ChangeLogEntrySequenceValidator \<Rightarrow>
     code + ChangeLogEntrySequenceValidator" where
  "acceptAll limits [] i s = Inr s"
| "acceptAll limits (e # es) i s = bindE (acceptEntry limits e i s) (acceptAll limits es (i + 1))"

lemma acceptAll_append:
  "acceptAll limits (es @ fs) i s = bindE (acceptAll limits es i s) (acceptAll limits fs (i + length es))"
proof (induction es arbitrary: i s)
  case (Cons e es)
  show ?case
    by (cases "acceptEntry limits e i s") (simp_all add: Cons.IH)
qed simp

text \<open>What a legal sequence is, without the validator.\<close>

definition serialsLegal :: "NormalizedChangeLogEntry list \<Rightarrow> bool" where
  "serialsLegal es \<longleftrightarrow>
     (\<forall>e\<in>set es. e_serial e = None) \<or>
     (\<forall>i < length es. \<exists>t. e_serial (es ! i) = Some t \<and> digitsValue t = i + 1)"

definition groupOf :: "NormalizedChangeLogEntry \<Rightarrow> ustring option" where
  "groupOf e = (case e_groupId e of None \<Rightarrow> None | Some g \<Rightarrow> if g = [] then None else Some g)"

definition groupsContiguous :: "ustring option list \<Rightarrow> bool" where
  "groupsContiguous gs \<longleftrightarrow>
     (\<forall>i j k g. i < j \<and> j < k \<and> k < length gs \<and> gs ! i = Some g \<and> gs ! k = Some g \<longrightarrow> gs ! j = Some g)"

definition lastGroup :: "ustring option list \<Rightarrow> ustring option" where
  "lastGroup gs = (if gs = [] then None else last gs)"

definition finishedGroups :: "ustring option list \<Rightarrow> ustring set" where
  "finishedGroups gs = {g. Some g \<in> set gs} - set_option (lastGroup gs)"

lemma finite_finished [simp]: "finite (finishedGroups gs)"
proof -
  have "{g. Some g \<in> set gs} = the ` (set gs \<inter> range Some)"
    by (force simp: image_iff)
  then have "finite {g. Some g \<in> set gs}"
    by (metis finite_Int finite_imageI List.finite_set)
  then show ?thesis by (simp add: finishedGroups_def)
qed

lemma finished_snoc:
  "finishedGroups (gs @ [g]) =
     (if lastGroup gs = g then finishedGroups gs else finishedGroups gs \<union> set_option (lastGroup gs) - set_option g)"
  by (cases gs rule: rev_cases) (auto simp: finishedGroups_def lastGroup_def)

lemma contiguousD:
  "groupsContiguous gs \<Longrightarrow> i < j \<Longrightarrow> j < k \<Longrightarrow> k < length gs \<Longrightarrow> gs ! i = Some g \<Longrightarrow> gs ! k = Some g \<Longrightarrow>
   gs ! j = Some g"
  unfolding groupsContiguous_def by blast

lemma contiguous_snoc_D:
  assumes "groupsContiguous (gs @ [g])"
  shows "groupsContiguous gs" "set_option g \<inter> finishedGroups gs = {}"
proof -
  show "groupsContiguous gs"
    unfolding groupsContiguous_def
  proof (intro allI impI)
    fix i j k x
    assume "i < j \<and> j < k \<and> k < length gs \<and> gs ! i = Some x \<and> gs ! k = Some x"
    then show "gs ! j = Some x"
      using contiguousD [OF assms, of i j k x] by (simp add: nth_append)
  qed
  show "set_option g \<inter> finishedGroups gs = {}"
  proof (rule ccontr)
    assume "set_option g \<inter> finishedGroups gs \<noteq> {}"
    then obtain x where x: "g = Some x" "Some x \<in> set gs" "lastGroup gs \<noteq> Some x"
      by (auto simp: finishedGroups_def)
    then obtain i where i: "i < length gs" "gs ! i = Some x"
      by (auto simp: in_set_conv_nth)
    have l: "gs ! (length gs - 1) \<noteq> Some x"
      using x i by (auto simp: lastGroup_def last_conv_nth split: if_splits)
    with i have "i < length gs - 1"
      by (cases "i = length gs - 1") auto
    then show False
      using contiguousD [OF assms, of i "length gs - 1" "length gs" x] i l x(1) by (simp add: nth_append)
  qed
qed

lemma contiguous_snoc_I:
  assumes "groupsContiguous gs" "set_option g \<inter> finishedGroups gs = {}"
  shows "groupsContiguous (gs @ [g])"
  unfolding groupsContiguous_def
proof (intro allI impI)
  fix i j k x
  assume a: "i < j \<and> j < k \<and> k < length (gs @ [g]) \<and> (gs @ [g]) ! i = Some x \<and> (gs @ [g]) ! k = Some x"
  then have ij: "i < length gs" "j < length gs" "gs ! i = Some x"
    by (auto simp: nth_append)
  have "gs ! j = Some x"
  proof (cases "k < length gs")
    case True
    then show ?thesis using a ij contiguousD [OF assms(1), of i j k x] by (simp add: nth_append)
  next
    case False
    with a have "g = Some x"
      by (auto simp: nth_append)
    moreover have "Some x \<in> set gs"
      using ij nth_mem by metis
    ultimately have "lastGroup gs = Some x"
      using assms(2) by (auto simp: finishedGroups_def)
    then have "gs ! (length gs - 1) = Some x"
      using ij by (auto simp: lastGroup_def last_conv_nth split: if_splits)
    then show ?thesis
      using contiguousD [OF assms(1), of i j "length gs - 1" x] ij a by (cases "j = length gs - 1") auto
  qed
  then show "(gs @ [g]) ! j = Some x" using ij by (simp add: nth_append)
qed

lemmas contiguous_snoc = contiguous_snoc_D contiguous_snoc_I

lemma serials_snoc:
  "serialsLegal (es @ [e]) \<longleftrightarrow> serialsLegal es \<and>
     (case e_serial e of None \<Rightarrow> (\<forall>x\<in>set es. e_serial x = None)
      | Some t \<Rightarrow> (\<forall>x\<in>set es. e_serial x \<noteq> None) \<and> digitsValue t = length es + 1)"
proof (cases "e_serial e")
  case None
  then have "\<not> (\<forall>i < length (es @ [e]). \<exists>t. e_serial ((es @ [e]) ! i) = Some t \<and> digitsValue t = i + 1)"
    by (auto intro!: exI [of _ "length es"] simp: nth_append)
  then show ?thesis using None by (auto simp: serialsLegal_def)
next
  case (Some t)
  have "(\<forall>i < length (es @ [e]). \<exists>t. e_serial ((es @ [e]) ! i) = Some t \<and> digitsValue t = i + 1) \<longleftrightarrow>
      (\<forall>i < length es. \<exists>t. e_serial (es ! i) = Some t \<and> digitsValue t = i + 1) \<and> digitsValue t = length es + 1"
    using Some by (auto simp: nth_append less_Suc_eq)
  then show ?thesis
    using Some unfolding serialsLegal_def by (auto simp: all_set_conv_all_nth)
qed

text \<open>The state of the validator after it accepted the entries \<open>es\<close>.\<close>

definition sequenceInv :: "NormalizedChangeLogEntry list \<Rightarrow> ChangeLogEntrySequenceValidator \<Rightarrow> bool" where
  "sequenceInv es s \<longleftrightarrow>
     serialMode s = (if es = [] then None else Some (e_serial (hd es) \<noteq> None)) \<and>
     activeGroup s = lastGroup (map groupOf es) \<and>
     set (closedGroups s) = finishedGroups (map groupOf es) \<and> distinct (closedGroups s)"

definition sequenceLegal :: "ChangeLogCodecLimits \<Rightarrow> NormalizedChangeLogEntry list \<Rightarrow> bool" where
  "sequenceLegal limits es \<longleftrightarrow>
     serialsLegal es \<and> groupsContiguous (map groupOf es) \<and>
     int (card (finishedGroups (map groupOf es))) \<le> maxGroupCount limits"

lemma serialMode_uniform:
  assumes "serialsLegal es" "es \<noteq> []"
  shows "(\<forall>x\<in>set es. e_serial x = None) \<longleftrightarrow> e_serial (hd es) = None"
    and "(\<forall>x\<in>set es. e_serial x \<noteq> None) \<longleftrightarrow> e_serial (hd es) \<noteq> None"
  using assms by (auto simp: serialsLegal_def all_set_conv_all_nth hd_conv_nth)

lemma acceptSerial_iff:
  assumes "serialsLegal es" "sequenceInv es s"
  shows "acceptSerial e (length es) s =
    (if serialsLegal (es @ [e]) then Inr (s\<lparr>serialMode := Some (e_serial e \<noteq> None)\<rparr>)
     else Inl ''CHANGE_LOG_INVALID_SERIALS'')"
proof (cases "es = []")
  case True
  then show ?thesis
    using assms by (auto simp: acceptSerial_def sequenceInv_def serialsLegal_def bindE_def orFail_def
        split: option.split)
next
  case False
  then show ?thesis
    using assms serialMode_uniform [OF assms(1) False]
    by (auto simp: acceptSerial_def sequenceInv_def serials_snoc bindE_def orFail_def split: option.split)
qed

lemma lastGroup_snoc [simp]: "lastGroup (gs @ [g]) = g"
  by (simp add: lastGroup_def)

lemma last_not_finished: "lastGroup gs = Some g \<Longrightarrow> g \<notin> finishedGroups gs"
  by (simp add: finishedGroups_def)

definition groupInv :: "ustring option list \<Rightarrow> ChangeLogEntrySequenceValidator \<Rightarrow> bool" where
  "groupInv gs s \<longleftrightarrow> activeGroup s = lastGroup gs \<and> set (closedGroups s) = finishedGroups gs \<and>
     distinct (closedGroups s)"

lemma groupInv_card: "groupInv gs s \<Longrightarrow> card (finishedGroups gs) = length (closedGroups s)"
  by (metis distinct_card groupInv_def)

lemma closeActiveGroup_ok:
  assumes "groupInv gs s" "int (card (finishedGroups gs)) \<le> maxGroupCount limits"
  shows "(\<exists>s'. closeActiveGroup limits s = Inr s') \<longleftrightarrow>
      int (card (finishedGroups (gs @ [None]))) \<le> maxGroupCount limits"
    and "closeActiveGroup limits s = Inr s' \<Longrightarrow> groupInv (gs @ [None]) s' \<and> serialMode s' = serialMode s"
proof -
  have c: "card (finishedGroups (gs @ [None])) =
      length (closedGroups s) + (if lastGroup gs = None then 0 else 1)"
    using groupInv_card [OF assms(1)] last_not_finished [of gs]
    by (auto simp: finished_snoc split: option.split)
  show "(\<exists>s'. closeActiveGroup limits s = Inr s') \<longleftrightarrow>
      int (card (finishedGroups (gs @ [None]))) \<le> maxGroupCount limits"
    unfolding c using assms groupInv_card [OF assms(1)]
    by (auto simp: closeActiveGroup_def groupInv_def split: option.splits)
  show "closeActiveGroup limits s = Inr s' \<Longrightarrow> groupInv (gs @ [None]) s' \<and> serialMode s' = serialMode s"
    using assms(1)
    by (auto simp: closeActiveGroup_def groupInv_def finished_snoc split: option.splits if_splits)
qed

text \<open>Entering a group that is neither open nor finished closes the open one first.\<close>

lemma finished_enter:
  "x \<notin> finishedGroups gs \<Longrightarrow> lastGroup gs \<noteq> Some x \<Longrightarrow> finishedGroups (gs @ [Some x]) = finishedGroups (gs @ [None])"
  by (auto simp: finished_snoc)

lemma acceptGroup_None: "groupOf e = None \<Longrightarrow> acceptGroup limits (e_groupId e) s = closeActiveGroup limits s"
  by (auto simp: groupOf_def acceptGroup_def split: option.splits if_splits)

lemma acceptGroup_Some:
  "groupOf e = Some g \<Longrightarrow> acceptGroup limits (e_groupId e) s =
     (if activeGroup s = Some g then Inr s
      else if g \<in> set (closedGroups s) then Inl ''CHANGE_LOG_INVALID_GROUPS''
      else bindE (closeActiveGroup limits s) (\<lambda>s'. Inr (s'\<lparr>activeGroup := Some g\<rparr>)))"
  by (auto simp: groupOf_def acceptGroup_def split: option.splits if_splits)

lemma acceptGroup_Inr:
  assumes "groupInv gs s" "int (card (finishedGroups gs)) \<le> maxGroupCount limits"
    and "acceptGroup limits (e_groupId e) s = Inr s'"
  shows "groupInv (gs @ [groupOf e]) s' \<and> serialMode s' = serialMode s"
proof (cases "groupOf e")
  case None
  then show ?thesis
    using assms closeActiveGroup_ok(2) [OF assms(1,2)] by (simp add: acceptGroup_None)
next
  case (Some g)
  show ?thesis
  proof (cases "activeGroup s = Some g")
    case True
    then have "s' = s" using assms(3) Some by (simp add: acceptGroup_Some)
    then show ?thesis
      using assms(1) Some True by (auto simp: groupInv_def finished_snoc)
  next
    case False
    with assms Some obtain c where c: "closeActiveGroup limits s = Inr c" "s' = c\<lparr>activeGroup := Some g\<rparr>"
      and g: "g \<notin> finishedGroups gs" "lastGroup gs \<noteq> Some g"
      by (auto simp: acceptGroup_Some bindE_eq_Inr groupInv_def split: if_splits)
    then show ?thesis
      using closeActiveGroup_ok(2) [OF assms(1,2) c(1)] Some finished_enter [OF g]
      by (simp add: groupInv_def)
  qed
qed

lemma acceptGroup_iff:
  assumes "groupInv gs s" "groupsContiguous gs" "int (card (finishedGroups gs)) \<le> maxGroupCount limits"
  shows "(\<exists>s'. acceptGroup limits (e_groupId e) s = Inr s') \<longleftrightarrow>
      groupsContiguous (gs @ [groupOf e]) \<and>
      int (card (finishedGroups (gs @ [groupOf e]))) \<le> maxGroupCount limits"
proof -
  have contig: "groupsContiguous (gs @ [g]) \<longleftrightarrow> set_option g \<inter> finishedGroups gs = {}" for g
    using contiguous_snoc assms(2) by blast
  note close = closeActiveGroup_ok(1) [OF assms(1,3)]
  consider (none) "groupOf e = None"
    | (same) g where "groupOf e = Some g" "lastGroup gs = Some g"
    | (old) g where "groupOf e = Some g" "lastGroup gs \<noteq> Some g" "g \<in> finishedGroups gs"
    | (enter) g where "groupOf e = Some g" "lastGroup gs \<noteq> Some g" "g \<notin> finishedGroups gs"
    by (cases "groupOf e") auto
  then show ?thesis
  proof cases
    case none
    then show ?thesis using close contig [of None] by (simp add: acceptGroup_None)
  next
    case same
    then show ?thesis
      using assms contig [of "Some g"] last_not_finished [OF same(2)]
      by (simp add: acceptGroup_Some groupInv_def finished_snoc)
  next
    case old
    then show ?thesis using assms(1) contig [of "Some g"] by (simp add: acceptGroup_Some groupInv_def)
  next
    case enter
    then have "(\<exists>s'. acceptGroup limits (e_groupId e) s = Inr s') \<longleftrightarrow> (\<exists>s'. closeActiveGroup limits s = Inr s')"
      using assms(1) by (auto simp: acceptGroup_Some groupInv_def bindE_eq_Inr)
    then show ?thesis
      using close contig [of "Some g"] enter finished_enter [OF enter(3,2)] by simp
  qed
qed

lemma sequenceInv_groupInv:
  "sequenceInv es s \<longleftrightarrow>
     serialMode s = (if es = [] then None else Some (e_serial (hd es) \<noteq> None)) \<and> groupInv (map groupOf es) s"
  by (auto simp: sequenceInv_def groupInv_def)

lemma acceptAll_snoc:
  "acceptAll limits (es @ [e]) 0 s = bindE (acceptAll limits es 0 s) (acceptEntry limits e (length es))"
  by (auto simp: acceptAll_append intro!: arg_cong [where f = "bindE _"] simp: bindE_def split: sum.split)

lemma legal_prefix: "sequenceLegal limits (es @ [e]) \<Longrightarrow> sequenceLegal limits es"
proof -
  assume a: "sequenceLegal limits (es @ [e])"
  let ?gs = "map groupOf es"
  have g: "groupsContiguous ?gs" "set_option (groupOf e) \<inter> finishedGroups ?gs = {}"
    using a contiguous_snoc_D [of ?gs "groupOf e"] by (auto simp: sequenceLegal_def)
  then have "finishedGroups ?gs \<subseteq> finishedGroups (?gs @ [groupOf e])"
    by (auto simp: finished_snoc)
  then have "card (finishedGroups ?gs) \<le> card (finishedGroups (?gs @ [groupOf e]))"
    by (intro card_mono) simp_all
  then show ?thesis
    using a g(1) by (auto simp: sequenceLegal_def serials_snoc)
qed

lemma serialMode_snoc:
  "serialsLegal (es @ [e]) \<Longrightarrow> (e_serial e \<noteq> None) = (e_serial (hd (es @ [e])) \<noteq> None)"
  unfolding serials_snoc by (cases es) (auto split: option.splits)

lemma acceptEntry_step:
  assumes "sequenceLegal limits es" "sequenceInv es s"
  shows "(\<exists>s'. acceptEntry limits e (length es) s = Inr s') \<longleftrightarrow> sequenceLegal limits (es @ [e])"
    and "acceptEntry limits e (length es) s = Inr s' \<Longrightarrow> sequenceInv (es @ [e]) s'"
proof -
  let ?gs = "map groupOf es" and ?t = "s\<lparr>serialMode := Some (e_serial e \<noteq> None)\<rparr>"
  have l: "serialsLegal es" "groupsContiguous ?gs" "int (card (finishedGroups ?gs)) \<le> maxGroupCount limits"
    using assms(1) by (auto simp: sequenceLegal_def)
  have t: "groupInv ?gs ?t"
    using assms(2) by (simp add: sequenceInv_groupInv groupInv_def)
  have a: "acceptEntry limits e (length es) s =
      (if serialsLegal (es @ [e]) then acceptGroup limits (e_groupId e) ?t else Inl ''CHANGE_LOG_INVALID_SERIALS'')"
    by (simp add: acceptEntry_def acceptSerial_iff [OF l(1) assms(2)])
  show "(\<exists>s'. acceptEntry limits e (length es) s = Inr s') \<longleftrightarrow> sequenceLegal limits (es @ [e])"
    using acceptGroup_iff [OF t l(2,3), of e] by (simp add: a sequenceLegal_def)
  show "acceptEntry limits e (length es) s = Inr s' \<Longrightarrow> sequenceInv (es @ [e]) s'"
    using acceptGroup_Inr [OF t l(3), of e s'] serialMode_snoc [of es e]
    by (auto simp: a sequenceInv_groupInv split: if_splits)
qed

lemma acceptAll_spec:
  assumes "0 \<le> maxGroupCount limits"
  shows "((\<exists>s. acceptAll limits es 0 newSequence = Inr s) \<longleftrightarrow> sequenceLegal limits es) \<and>
    (\<forall>s. acceptAll limits es 0 newSequence = Inr s \<longrightarrow> sequenceInv es s)"
proof (induction es rule: rev_induct)
  case Nil
  show ?case
    using assms by (simp add: sequenceLegal_def serialsLegal_def groupsContiguous_def sequenceInv_def newSequence_def
        finishedGroups_def lastGroup_def)
next
  case (snoc e es)
  show ?case
  proof (cases "sequenceLegal limits es")
    case True
    then obtain s where s: "acceptAll limits es 0 newSequence = Inr s" "sequenceInv es s"
      using snoc by blast
    then have "acceptAll limits (es @ [e]) 0 newSequence = acceptEntry limits e (length es) s"
      by (simp add: acceptAll_snoc)
    then show ?thesis
      using acceptEntry_step [OF True s(2)] by simp
  next
    case False
    then have "\<not> sequenceLegal limits (es @ [e])"
      using legal_prefix by blast
    moreover have "acceptAll limits (es @ [e]) 0 newSequence \<noteq> Inr s" for s
      using snoc False by (auto simp: acceptAll_snoc bindE_eq_Inr)
    ultimately show ?thesis by blast
  qed
qed

text \<open>C20: the validator accepts a list of entries exactly when it is a legal history: either no entry has a
  serial or the serials are 1, 2, 3, ...; the entries of a group are consecutive; and no more
  groups than the limit are finished. It decides this in one pass with the open group and the set
  of closed ones.\<close>

theorem sequence_validator_correct:
  assumes "0 < maxGroupCount limits"
  shows "(\<exists>s. acceptAll limits es 0 newSequence = Inr s) \<longleftrightarrow>
    ((\<forall>e\<in>set es. e_serial e = None) \<or>
     (\<forall>i < length es. \<exists>t. e_serial (es ! i) = Some t \<and> digitsValue t = i + 1)) \<and>
    groupsContiguous (map groupOf es) \<and>
    int (card (finishedGroups (map groupOf es))) \<le> maxGroupCount limits"
  using acceptAll_spec [of limits es] assms by (simp add: sequenceLegal_def serialsLegal_def)

definition sampleLimits :: ChangeLogCodecLimits where
  "sampleLimits = \<lparr>maxNesting = 8, maxEntryCount = 8, maxEntryChars = 64, maxHeaderValueChars = 64,
     maxStringChars = 64, maxGroupIdChars = 8, maxGroupCount = 1, maxTransformCount = 8,
     maxTransformIdBytes = 64, maxTransformOptionsBytes = 64, maxRequiredPluginCount = 8,
     maxUnavailableSerialCount = 8\<rparr>"

definition sampleEntry :: "ustring option \<Rightarrow> NormalizedChangeLogEntry" where
  "sampleEntry g = \<lparr>e_kind = INSERT, e_offset = lit ''0'', e_length = lit ''1'', e_data = lit ''41'',
     e_serial = None, e_groupId = g, e_transformDescriptor = None\<rparr>"

lemma sequence_validator_correct_witness:
  "0 < maxGroupCount sampleLimits \<and>
   (\<exists>s. acceptAll sampleLimits [sampleEntry (Some (lit ''a'')), sampleEntry None] 0 newSequence = Inr s) \<and>
   groupsContiguous (map groupOf [sampleEntry (Some (lit ''a'')), sampleEntry None])"
proof -
  have "\<exists>s. acceptAll sampleLimits [sampleEntry (Some (lit ''a'')), sampleEntry None] 0 newSequence = Inr s"
    by (simp add: acceptEntry_def acceptSerial_def acceptGroup_def closeActiveGroup_def sampleEntry_def
        sampleLimits_def newSequence_def lit_def Let_def)
  moreover have "0 < maxGroupCount sampleLimits"
    by (simp add: sampleLimits_def)
  ultimately show ?thesis
    using sequence_validator_correct [of sampleLimits "[sampleEntry (Some (lit ''a'')), sampleEntry None]"]
    by blast
qed

section \<open>The summary of a document\<close>

fun accumulateAll ::
    "ChangeLogCodecLimits \<Rightarrow> NormalizedChangeLogEntry list \<Rightarrow> nat \<Rightarrow> ChangeLogScanAccumulator \<Rightarrow>
     code + ChangeLogScanAccumulator" where
  "accumulateAll limits [] i a = Inr a"
| "accumulateAll limits (e # es) i a = bindE (accumulatorAccept limits e i a) (accumulateAll limits es (i + 1))"

lemma documentLoop_Inr:
  "documentLoop fr aborted limits xs i a = Inr (es, a') \<Longrightarrow>
     list_all2 (\<lambda>x e. normalizeChangeLogEntry fr limits x = Inr e) xs es \<and> accumulateAll limits es i a = Inr a'"
proof (induction xs arbitrary: i a es)
  case (Cons x xs)
  then obtain e b fs where "normalizeChangeLogEntry fr limits x = Inr e" "accumulatorAccept limits e i a = Inr b"
    "documentLoop fr aborted limits xs (i + 1) b = Inr (fs, a')" "es = e # fs"
    by (auto simp: bindE_eq_Inr)
  with Cons.IH show ?case by (auto simp: bindE_eq_Inr)
qed simp

definition entrySummary :: "nat \<Rightarrow> NormalizedChangeLogEntry \<Rightarrow> ChangeLogTransformDescriptorSummary list" where
  "entrySummary i e = (case e_transformDescriptor e of
     None \<Rightarrow> []
   | Some d \<Rightarrow> if e_kind e \<noteq> TRANSFORM then []
       else [\<lparr>ts_index = i, ts_serial = e_serial e, ts_offset = e_offset e, ts_length = e_length e,
              ts_transformId = transformId d, ts_optionsJson = optionsJson d\<rparr>])"

fun summaries :: "nat \<Rightarrow> NormalizedChangeLogEntry list \<Rightarrow> ChangeLogTransformDescriptorSummary list" where
  "summaries i [] = []"
| "summaries i (e # es) = entrySummary i e @ summaries (i + 1) es"

lemma acceptDescriptor_Inr:
  "acceptDescriptor limits e i a = Inr a' \<Longrightarrow>
     primitiveCounts a' = primitiveCounts a \<and> sequence a' = sequence a \<and>
     transformDescriptors a' = transformDescriptors a @ entrySummary i e \<and>
     set (requiredPluginIds a') = set (requiredPluginIds a) \<union> ts_transformId ` set (entrySummary i e) \<and>
     (distinct (requiredPluginIds a) \<longrightarrow> distinct (requiredPluginIds a'))"
  by (auto simp: acceptDescriptor_def entrySummary_def bindE_eq_Inr Let_def split: option.splits if_splits)

lemma accumulatorAccept_Inr:
  assumes "accumulatorAccept limits e i a = Inr a'"
  shows "acceptEntry limits e i (sequence a) = Inr (sequence a') \<and>
     primitiveCounts a' = countKind (e_kind e) (primitiveCounts a) \<and>
     transformDescriptors a' = transformDescriptors a @ entrySummary i e \<and>
     set (requiredPluginIds a') = set (requiredPluginIds a) \<union> ts_transformId ` set (entrySummary i e) \<and>
     (distinct (requiredPluginIds a) \<longrightarrow> distinct (requiredPluginIds a'))"
proof -
  obtain s where s: "acceptEntry limits e i (sequence a) = Inr s"
    "acceptDescriptor limits e i
       (a\<lparr>sequence := s, primitiveCounts := countKind (e_kind e) (primitiveCounts a)\<rparr>) = Inr a'"
    using assms by (auto simp: accumulatorAccept_def bindE_eq_Inr)
  show ?thesis using s(1) acceptDescriptor_Inr [OF s(2)] by simp
qed

definition kindCount :: "ChangeLogEntryKind \<Rightarrow> NormalizedChangeLogEntry list \<Rightarrow> nat" where
  "kindCount k es = length (filter (\<lambda>e. e_kind e = k) es)"

definition countsOf :: "NormalizedChangeLogEntry list \<Rightarrow> ChangeLogPrimitiveCounts" where
  "countsOf es = \<lparr>pc_total = length es, pc_insert = kindCount INSERT es, pc_delete = kindCount DELETE es,
     pc_overwrite = kindCount OVERWRITE es, pc_replace = kindCount REPLACE es,
     pc_transform = kindCount TRANSFORM es\<rparr>"

definition addCounts :: "ChangeLogPrimitiveCounts \<Rightarrow> ChangeLogPrimitiveCounts \<Rightarrow> ChangeLogPrimitiveCounts" where
  "addCounts c d = \<lparr>pc_total = pc_total c + pc_total d, pc_insert = pc_insert c + pc_insert d,
     pc_delete = pc_delete c + pc_delete d, pc_overwrite = pc_overwrite c + pc_overwrite d,
     pc_replace = pc_replace c + pc_replace d, pc_transform = pc_transform c + pc_transform d\<rparr>"

lemma countsOf_Cons: "addCounts (countKind (e_kind e) c) (countsOf es) = addCounts c (countsOf (e # es))"
  by (cases "e_kind e") (simp_all add: addCounts_def countsOf_def kindCount_def)

lemma accumulateAll_Inr:
  "accumulateAll limits es i a = Inr a' \<Longrightarrow>
     acceptAll limits es i (sequence a) = Inr (sequence a') \<and>
     primitiveCounts a' = addCounts (primitiveCounts a) (countsOf es) \<and>
     transformDescriptors a' = transformDescriptors a @ summaries i es \<and>
     set (requiredPluginIds a') = set (requiredPluginIds a) \<union> ts_transformId ` set (summaries i es) \<and>
     (distinct (requiredPluginIds a) \<longrightarrow> distinct (requiredPluginIds a'))"
proof (induction es arbitrary: i a)
  case Nil
  then show ?case by (simp add: addCounts_def countsOf_def kindCount_def)
next
  case (Cons e es)
  then obtain b where b: "accumulatorAccept limits e i a = Inr b" "accumulateAll limits es (i + 1) b = Inr a'"
    by (auto simp: bindE_eq_Inr)
  show ?case
    using accumulatorAccept_Inr [OF b(1)] Cons.IH [OF b(2)] by (auto simp: countsOf_Cons)
qed

lemma kind_counts_total:
  "kindCount INSERT es + kindCount DELETE es + kindCount OVERWRITE es + kindCount REPLACE es +
   kindCount TRANSFORM es = length es"
proof (induction es)
  case (Cons e es)
  then show ?case by (cases "e_kind e") (simp_all add: kindCount_def)
qed (simp add: kindCount_def)

subsection \<open>Limits\<close>

lemma setProp_keys: "fst ` set (setProp k v ps) = insert k (fst ` set ps)"
  by (induction ps rule: setProp.induct) auto

lemma overridden_keys: "fst ` set ps \<subseteq> fst ` set (foldl (\<lambda>ps (k, v). setProp k v ps) ps ov)"
proof (induction ov arbitrary: ps)
  case (Cons kv ov)
  have "fst ` set ps \<subseteq> fst ` set (case kv of (k, v) \<Rightarrow> setProp k v ps)"
    by (cases kv) (auto simp: setProp_keys)
  then show ?case using Cons.IH [of "case kv of (k, v) \<Rightarrow> setProp k v ps"] by simp
qed simp

lemma limitValue_Inr: "limitValue v = Inr i \<longleftrightarrow> v = JNum (NInt i) \<and> isSafeInt i \<and> 0 < i"
  by (auto simp: limitValue_def split: jsval.splits jsnum.splits)

lemma limitOf_positive:
  assumes "mapE (\<lambda>(k, v). limitValue v) ob = Inr ys" "lit k \<in> fst ` set ob"
  shows "0 < limitOf ob k"
proof -
  obtain v where v: "map_of ob (lit k) = Some v"
    using assms(2) by (metis domIff dom_map_of_conv_image_fst option.exhaust)
  then have "(lit k, v) \<in> set ob"
    by (rule map_of_SomeD)
  then obtain i where "limitValue v = Inr i"
    using assms(1) by (auto simp: mapE_Inr_iff list_all2_conv_all_nth in_set_conv_nth split: prod.splits)
  then show ?thesis
    using v by (simp add: limitOf_def getProp_def limitValue_Inr)
qed

lemma resolve_positive:
  assumes "resolveChangeLogCodecLimits ov = Inr limits"
  shows "0 < maxGroupCount limits" "0 < maxNesting limits" "0 < maxStringChars limits"
proof -
  let ?ob = "foldl (\<lambda>ps (k, v). setProp k v ps) defaultLimitFields ov"
  obtain ys where m: "mapE (\<lambda>(k, v). limitValue v) ?ob = Inr ys"
    and l: "maxGroupCount limits = limitOf ?ob ''maxGroupCount''" "maxNesting limits = limitOf ?ob ''maxNesting''"
      "maxStringChars limits = limitOf ?ob ''maxStringChars''"
    using assms by (auto simp: resolveChangeLogCodecLimits_def Let_def bindE_eq_Inr)
  have "lit k \<in> fst ` set ?ob" if "k \<in> {''maxGroupCount'', ''maxNesting'', ''maxStringChars''}" for k
    using that overridden_keys [of defaultLimitFields ov] by (auto simp: defaultLimitFields_def)
  then show "0 < maxGroupCount limits" "0 < maxNesting limits" "0 < maxStringChars limits"
    unfolding l by (auto intro!: limitOf_positive [OF m])
qed

lemma isChangeLogRecord_Some: "isChangeLogRecord v = Some ps \<longleftrightarrow> v = JObj ps"
  by (auto simp: isChangeLogRecord_def split: jsval.splits)

lemma asArray_Some: "asArray v = Some xs \<longleftrightarrow> v = JArr xs"
  by (auto simp: asArray_def split: jsval.splits)

lemma normalizeDocument_Inr:
  assumes "normalizeChangeLogDocument fr aborted ov v = Inr p"
  obtains limits document xs a where "resolveChangeLogCodecLimits ov = Inr limits" "v = JObj document"
    "getProp document ''changes'' = JArr xs" "validateChangeLogJsonValue limits 0 v = Inr ()"
    "documentLoop fr aborted limits xs 0 newAccumulator = Inr (p_changes p, a)"
    "accumulatorFinish limits document \<lparr>bytesRead = 0, maxBufferedChars = 0, maxValueChars = 0\<rparr> a = Inr (p_result p)"
proof -
  obtain limits document xs es a r where "resolveChangeLogCodecLimits ov = Inr limits" "v = JObj document"
    "getProp document ''changes'' = JArr xs" "validateChangeLogJsonValue limits 0 v = Inr ()"
    "documentLoop fr aborted limits xs 0 newAccumulator = Inr (es, a)"
    "accumulatorFinish limits document \<lparr>bytesRead = 0, maxBufferedChars = 0, maxValueChars = 0\<rparr> a = Inr r"
    "p = \<lparr>p_result = r, p_changes = es\<rparr>"
    using assms unfolding normalizeChangeLogDocument_def
    by (auto simp: bindE_eq_Inr required_eq_Inr isChangeLogRecord_Some asArray_Some)
  then show thesis using that by simp
qed

text \<open>C31: the summary of an accepted document describes its entries: they form a legal sequence; the counts per
  kind are right and add up to the number of entries; every transform is listed once with its
  index; and the required plugins are the transform ids, sorted and without repetition.\<close>

theorem change_log_summary:
  assumes "normalizeChangeLogDocument fr aborted ov v = Inr p"
  shows "\<exists>limits. resolveChangeLogCodecLimits ov = Inr limits \<and> sequenceLegal limits (p_changes p) \<and>
    sr_entryCount (p_result p) = length (p_changes p) \<and>
    sr_primitiveCounts (p_result p) = countsOf (p_changes p) \<and>
    sr_transformDescriptors (p_result p) = summaries 0 (p_changes p) \<and>
    sorted_wrt (<) (sr_requiredPlugins (p_result p)) \<and>
    set (sr_requiredPlugins (p_result p)) = ts_transformId ` set (summaries 0 (p_changes p)) \<and>
    hd_changeCount (sr_header (p_result p)) = natDigits (length (p_changes p))"
proof -
  obtain limits document xs a where l: "resolveChangeLogCodecLimits ov = Inr limits"
    and d: "documentLoop fr aborted limits xs 0 newAccumulator = Inr (p_changes p, a)"
    and f: "accumulatorFinish limits document \<lparr>bytesRead = 0, maxBufferedChars = 0, maxValueChars = 0\<rparr> a = Inr (p_result p)"
    using assms by (rule normalizeDocument_Inr)
  note acc = accumulateAll_Inr [OF documentLoop_Inr [OF d, THEN conjunct2]]
  have c: "primitiveCounts a = countsOf (p_changes p)" "pc_total (primitiveCounts a) = length (p_changes p)"
    using acc by (simp_all add: newAccumulator_def emptyPrimitiveCounts_def addCounts_def countsOf_def)
  obtain h where h: "normalizeChangeLogHeader limits document (pc_total (primitiveCounts a)) = Inr h"
    and r: "p_result p = \<lparr>sr_header = h, sr_entryCount = pc_total (primitiveCounts a),
      sr_primitiveCounts = primitiveCounts a, sr_transformDescriptors = transformDescriptors a,
      sr_requiredPlugins = sort (requiredPluginIds a),
      sr_diagnostics = \<lparr>bytesRead = 0, maxBufferedChars = 0, maxValueChars = 0\<rparr>\<rparr>"
    using f by (auto simp: accumulatorFinish_def bindE_eq_Inr)
  have "hd_changeCount h = natDigits (length (p_changes p))"
    using h unfolding c(2) by (auto simp: normalizeChangeLogHeader_def bindE_eq_Inr bigintToString_nat)
  moreover have "sequenceLegal limits (p_changes p)"
    using acceptAll_spec [of limits "p_changes p"] resolve_positive(1) [OF l] acc
    by (auto simp: newAccumulator_def)
  moreover have "sorted_wrt (<) (sort (requiredPluginIds a))"
    unfolding strict_sorted_iff using acc by (simp add: newAccumulator_def)
  ultimately show ?thesis
    using l r c acc by (auto simp: newAccumulator_def)
qed

section \<open>Normalised headers\<close>

definition wfDigest :: "ChangeLogDigest \<Rightarrow> bool" where
  "wfDigest d \<longleftrightarrow>
     dg_pluginId d \<noteq> [] \<and> list_all isPluginIdUnit (dg_pluginId d) \<and>
     length (dg_pluginId d) \<le> CHANGE_LOG_DIGEST_PLUGIN_ID_MAX_LENGTH \<and>
     dg_algorithm d \<noteq> [] \<and> list_all isAlgorithmUnit (dg_algorithm d) \<and>
     length (dg_algorithm d) \<le> CHANGE_LOG_DIGEST_ALGORITHM_MAX_LENGTH \<and>
     dg_value d \<noteq> [] \<and> list_all isLowerHexUnit (dg_value d) \<and>
     length (dg_value d) \<le> CHANGE_LOG_DIGEST_VALUE_MAX_LENGTH"

definition wfFingerprint :: "NormalizedChangeLogFingerprint \<Rightarrow> bool" where
  "wfFingerprint f \<longleftrightarrow> int64Text (fp_byteLength f) \<and> wfDigest (fp_digest f)"

definition wfHeader :: "ChangeLogCodecLimits \<Rightarrow> nat \<Rightarrow> ChangeLogHeader \<Rightarrow> bool" where
  "wfHeader limits n h \<longleftrightarrow>
     wfFingerprint (hd_before h) \<and> wfFingerprint (hd_after h) \<and>
     hd_changeCount h = natDigits n \<and> int64Text (hd_changeCount h) \<and>
     int64Text (hd_sourceChangeCount h) \<and> n \<le> digitsValue (hd_sourceChangeCount h) \<and>
     hd_unavailableChangeCount h = natDigits (length (hd_unavailableChangeSerials h)) \<and>
     int64Text (hd_unavailableChangeCount h) \<and>
     (hd_complete h \<longleftrightarrow> hd_unavailableChangeSerials h = []) \<and>
     int (length (hd_unavailableChangeSerials h)) \<le> maxUnavailableSerialCount limits \<and>
     distinct (hd_unavailableChangeSerials h) \<and>
     (\<forall>t\<in>set (hd_unavailableChangeSerials h).
        int64Text t \<and> 0 < digitsValue t \<and> digitsValue t \<le> digitsValue (hd_sourceChangeCount h))"

lemma fingerprint_wf: "normalizeChangeLogFingerprint v = Inr f \<Longrightarrow> wfFingerprint f"
  unfolding normalizeChangeLogFingerprint_def Let_def
  by (auto simp: bindE_eq_Inr wfFingerprint_def wfDigest_def dest: toDecimal_Inr)

lemma unavailableLoop_Inr:
  "unavailableLoop src seen xs = Inr ds \<Longrightarrow>
     length ds = length xs \<and> distinct ds \<and> set ds \<inter> set seen = {} \<and>
     (\<forall>t\<in>set ds. int64Text t \<and> 0 < digitsValue t \<and> int (digitsValue t) \<le> src)"
proof (induction xs arbitrary: seen ds)
  case (Cons x xs)
  then obtain i ts where i: "parseChangeLogPositiveInt64 x = Inr i" "\<not> i > src"
    "bigintToString i \<notin> set seen" "unavailableLoop src (bigintToString i # seen) xs = Inr ts"
    "ds = bigintToString i # ts"
    by (auto simp: bindE_eq_Inr Let_def split: if_splits)
  show ?case
    using Cons.IH [OF i(4)] i parsePositive_Inr [OF i(1)] int64Text_decimal [of i]
    by (auto simp: bigintToString_nat)
qed simp

lemma unavailableLoop_again:
  "distinct ds \<Longrightarrow> set ds \<inter> set seen = {} \<Longrightarrow>
   \<forall>t\<in>set ds. int64Text t \<and> 0 < digitsValue t \<and> int (digitsValue t) \<le> src \<Longrightarrow>
   unavailableLoop src seen (map JStr ds) = Inr ds"
proof (induction ds arbitrary: seen)
  case (Cons t ds)
  then have "parseChangeLogPositiveInt64 (JStr t) = Inr (int (digitsValue t))"
    "bigintToString (int (digitsValue t)) = t"
    by (simp_all add: int64Text_def parseChangeLogPositiveInt64_def parseChangeLogNonNegativeInt64_def
        bigintToString_nat natDigits_digitsValue)
  then show ?case
    using Cons by (simp add: Let_def)
qed simp

lemma header_wf:
  assumes "normalizeChangeLogHeader limits document n = Inr h"
  shows "wfHeader limits n h"
proof -
  obtain complete cc sc uc serials before after where
    p: "parseChangeLogNonNegativeInt64 (getProp document ''changeCount'') = Inr cc"
      "parseChangeLogNonNegativeInt64 (getProp document ''sourceChangeCount'') = Inr sc"
      "parseChangeLogNonNegativeInt64 (getProp document ''unavailableChangeCount'') = Inr uc"
    and c: "cc = int n" "\<not> sc < cc" "uc = int (length serials)" "complete = (uc = 0)"
    and u: "normalizeUnavailableChangeSerials limits sc (getProp document ''unavailableChangeSerials'') = Inr serials"
    and f: "normalizeChangeLogFingerprint (getProp document ''before'') = Inr before"
      "normalizeChangeLogFingerprint (getProp document ''after'') = Inr after"
    and h: "h = \<lparr>hd_complete = complete, hd_before = before, hd_after = after,
            hd_changeCount = bigintToString cc, hd_sourceChangeCount = bigintToString sc,
            hd_unavailableChangeCount = bigintToString uc, hd_unavailableChangeSerials = serials\<rparr>"
    using assms unfolding normalizeChangeLogHeader_def by (auto simp: bindE_eq_Inr required_eq_Inr)
  obtain xs where x: "int (length xs) \<le> maxUnavailableSerialCount limits" "unavailableLoop sc [] xs = Inr serials"
    using u by (auto simp: normalizeUnavailableChangeSerials_def not_less split: jsval.splits if_splits)
  note b = parseInt64_Inr [OF p(1)] parseInt64_Inr [OF p(2)] parseInt64_Inr [OF p(3)]
  have t: "int64Text (bigintToString cc)" "int64Text (bigintToString sc)" "int64Text (bigintToString uc)"
    using b by (simp_all add: int64Text_decimal)
  show ?thesis
    using unavailableLoop_Inr [OF x(2)] x(1) b t c fingerprint_wf [OF f(1)] fingerprint_wf [OF f(2)]
    by (auto simp: h wfHeader_def bigintToString_nat)
qed

text \<open>C32: the header of an accepted document is consistent: the change count is the number of entries and at
  most the source change count; the document is complete exactly when no serial is listed as
  unavailable; the listed serials are distinct, positive and within the source count, and their
  count is right; and both fingerprints are in canonical form.\<close>

theorem change_log_header:
  assumes "normalizeChangeLogDocument fr aborted ov v = Inr p"
  shows "\<exists>limits. resolveChangeLogCodecLimits ov = Inr limits \<and>
    wfHeader limits (length (p_changes p)) (sr_header (p_result p))"
proof -
  obtain limits document xs a where l: "resolveChangeLogCodecLimits ov = Inr limits"
    and d: "documentLoop fr aborted limits xs 0 newAccumulator = Inr (p_changes p, a)"
    and f: "accumulatorFinish limits document \<lparr>bytesRead = 0, maxBufferedChars = 0, maxValueChars = 0\<rparr> a = Inr (p_result p)"
    using assms by (rule normalizeDocument_Inr)
  have "pc_total (primitiveCounts a) = length (p_changes p)"
    using accumulateAll_Inr [OF documentLoop_Inr [OF d, THEN conjunct2]]
    by (simp add: newAccumulator_def emptyPrimitiveCounts_def addCounts_def countsOf_def)
  then have "normalizeChangeLogHeader limits document (length (p_changes p)) = Inr (sr_header (p_result p))"
    using f by (auto simp: accumulatorFinish_def bindE_eq_Inr dest!: sym [of _ "p_result p"])
  then show ?thesis using l header_wf by blast
qed

section \<open>A sample document\<close>

definition sampleFingerprint :: "int \<Rightarrow> jsval" where
  "sampleFingerprint n = JObj [(lit ''byteLength'', JNum (NInt n)),
     (lit ''digest'', JObj [(lit ''algorithm'', JStr (lit ''SHA256'')), (lit ''value'', JStr (lit ''aB'')),
                            (lit ''pluginId'', JStr (lit ''p.d''))])]"

definition sampleChange :: jsval where
  "sampleChange = JObj [(lit ''kind'', JStr (lit ''INSERT'')), (lit ''offset'', JNum (NInt 2)),
     (lit ''length'', JNum (NInt 1)), (lit ''data'', JStr (lit ''Ff''))]"

definition sampleFields :: "(ustring \<times> jsval) list" where
  "sampleFields = [(lit ''format'', JStr (lit CHANGE_LOG_FORMAT)), (lit ''version'', JNum (NInt 2)),
     (lit ''complete'', JBool False), (lit ''before'', sampleFingerprint 4), (lit ''after'', sampleFingerprint 5),
     (lit ''changeCount'', JNum (NInt 1)), (lit ''sourceChangeCount'', JStr (lit ''2'')),
     (lit ''unavailableChangeCount'', JNum (NInt 1)), (lit ''unavailableChangeSerials'', JArr [JNum (NInt 2)]),
     (lit ''changes'', JArr [sampleChange])]"

definition defaultLimits :: ChangeLogCodecLimits where
  "defaultLimits = \<lparr>maxNesting = 256, maxEntryCount = 1000000, maxEntryChars = 134221824,
     maxHeaderValueChars = 16777216, maxStringChars = 134217728, maxGroupIdChars = 256, maxGroupCount = 65536,
     maxTransformCount = 65536, maxTransformIdBytes = 4096, maxTransformOptionsBytes = 1048576,
     maxRequiredPluginCount = 4096, maxUnavailableSerialCount = 65536\<rparr>"

lemma resolve_default [simp]: "resolveChangeLogCodecLimits [] = Inr defaultLimits"
  by (simp add: resolveChangeLogCodecLimits_def defaultLimitFields_def limitOf_def limitValue_def
      defaultLimits_def isSafeInt_def MAX_SAFE_INTEGER_def Let_def getProp_Cons lit_inject)

lemma sample_parts:
  "getProp sampleFields ''changes'' = JArr [sampleChange]"
  "validateChangeLogJsonValue defaultLimits 0 (JObj sampleFields) = Inr ()"
  by (simp_all add: sampleFields_def sampleFingerprint_def sampleChange_def getProp_def
      validateChangeLogJsonValue.simps defaultLimits_def lit_def CHANGE_LOG_FORMAT_def
      isHighSurrogate_def isLowSurrogate_def)

definition sampleNormalized :: NormalizedChangeLogEntry where
  "sampleNormalized = \<lparr>e_kind = INSERT, e_offset = lit ''2'', e_length = lit ''1'', e_data = lit ''ff'',
     e_serial = None, e_groupId = None, e_transformDescriptor = None\<rparr>"

lemmas integer_eval = changeLogInt64ToDecimal_def parseChangeLogPositiveInt64_def parseChangeLogNonNegativeInt64_def
  isSafeInt_def MAX_SAFE_INTEGER_def MAX_INT64_def bigintToString_def natDigits.simps

lemma sample_change: "normalizeChangeLogEntry fr defaultLimits sampleChange = Inr sampleNormalized"
  by (simp add: normalizeChangeLogEntry_def sampleChange_def isChangeLogRecord_def entryKindOf_def entryKinds_def
      getProp_def entrySerial_def entryGroupId_def entryDescriptor_def normalizeHex_def
      validateChangeLogJsonValue.simps defaultLimits_def integer_eval sampleNormalized_def
      lit_def hexDigitValue_def toLowerCase_def lowerUnit_def isHighSurrogate_def isLowSurrogate_def)

lemmas fingerprint_eval = normalizeChangeLogFingerprint_def sampleFingerprint_def isChangeLogRecord_def getProp_def
  textOr_def CHANGE_LOG_DIGEST_PLUGIN_ID_MAX_LENGTH_def CHANGE_LOG_DIGEST_ALGORITHM_MAX_LENGTH_def
  CHANGE_LOG_DIGEST_VALUE_MAX_LENGTH_def isPluginIdUnit_def isAlgorithmUnit_def isLowerHexUnit_def isDigit_def
  trim_def isJsSpace_def toLowerCase_def lowerUnit_def integer_eval lit_def

definition normalizedFingerprint :: "ustring \<Rightarrow> NormalizedChangeLogFingerprint" where
  "normalizedFingerprint t = \<lparr>fp_byteLength = t,
     fp_digest = \<lparr>dg_pluginId = lit ''p.d'', dg_algorithm = lit ''sha256'', dg_value = lit ''ab''\<rparr>\<rparr>"

lemma sample_fingerprints:
  "normalizeChangeLogFingerprint (sampleFingerprint 4) = Inr (normalizedFingerprint (lit ''4''))"
  "normalizeChangeLogFingerprint (sampleFingerprint 5) = Inr (normalizedFingerprint (lit ''5''))"
  by (simp_all add: fingerprint_eval normalizedFingerprint_def)

definition sampleHeader :: ChangeLogHeader where
  "sampleHeader = \<lparr>hd_complete = False, hd_before = normalizedFingerprint (lit ''4''),
     hd_after = normalizedFingerprint (lit ''5''), hd_changeCount = lit ''1'', hd_sourceChangeCount = lit ''2'',
     hd_unavailableChangeCount = lit ''1'', hd_unavailableChangeSerials = [lit ''2'']\<rparr>"

lemma sample_header: "normalizeChangeLogHeader defaultLimits sampleFields 1 = Inr sampleHeader"
proof -
  have p: "getProp sampleFields ''format'' = JStr (lit CHANGE_LOG_FORMAT)"
    "getProp sampleFields ''version'' = JNum (NInt 2)" "getProp sampleFields ''complete'' = JBool False"
    "getProp sampleFields ''before'' = sampleFingerprint 4" "getProp sampleFields ''after'' = sampleFingerprint 5"
    "getProp sampleFields ''changeCount'' = JNum (NInt 1)" "getProp sampleFields ''sourceChangeCount'' = JStr (lit ''2'')"
    "getProp sampleFields ''unavailableChangeCount'' = JNum (NInt 1)"
    "getProp sampleFields ''unavailableChangeSerials'' = JArr [JNum (NInt 2)]"
    by (simp_all add: sampleFields_def getProp_Cons lit_inject)
  show ?thesis
    by (simp add: normalizeChangeLogHeader_def p sample_fingerprints asBool_def CHANGE_LOG_VERSION_def
        normalizeUnavailableChangeSerials_def)
      (simp add: integer_eval isCanonicalDecimal_def isDigit_def digitsValue_def sampleHeader_def lit_def
        defaultLimits_def Let_def)
qed

definition samplePrepared :: PreparedChangeLog where
  "samplePrepared = \<lparr>p_result = \<lparr>sr_header = sampleHeader, sr_entryCount = 1,
       sr_primitiveCounts = countKind INSERT emptyPrimitiveCounts, sr_transformDescriptors = [],
       sr_requiredPlugins = [], sr_diagnostics = \<lparr>bytesRead = 0, maxBufferedChars = 0, maxValueChars = 0\<rparr>\<rparr>,
     p_changes = [sampleNormalized]\<rparr>"

lemma default_entryCount: "maxEntryCount defaultLimits = 1000000"
  by (simp add: defaultLimits_def)

lemma sample_document:
  "normalizeChangeLogDocument fr (\<lambda>_. False) [] (JObj sampleFields) = Inr samplePrepared"
  using sample_header
  by (simp add: normalizeChangeLogDocument_def throwIfChangeLogCancelled_def isChangeLogRecord_def asArray_def
      sample_parts sample_change accumulatorAccept_def accumulatorFinish_def acceptDescriptor_def acceptEntry_def
      acceptSerial_def acceptGroup_def newAccumulator_def newSequence_def samplePrepared_def
      emptyPrimitiveCounts_def)
   (simp add: sampleNormalized_def closeActiveGroup_def default_entryCount)

lemma change_log_summary_witness:
  "normalizeChangeLogDocument NOther (\<lambda>_. False) [] (JObj sampleFields) = Inr samplePrepared \<and>
   sequenceLegal defaultLimits [sampleNormalized] \<and>
   countsOf [sampleNormalized] = countKind INSERT emptyPrimitiveCounts"
  using change_log_summary [OF sample_document [of NOther]] sample_document [of NOther] by (simp add: samplePrepared_def)

lemma change_log_header_witness:
  "normalizeChangeLogDocument NOther (\<lambda>_. False) [] (JObj sampleFields) = Inr samplePrepared \<and>
   wfHeader defaultLimits 1 sampleHeader"
  using change_log_header [OF sample_document [of NOther]] sample_document [of NOther] by (simp add: samplePrepared_def)

section \<open>Normalised documents are stable\<close>

text \<open>A normalised document written out as an object again.\<close>

definition fingerprintObject :: "NormalizedChangeLogFingerprint \<Rightarrow> jsval" where
  "fingerprintObject f = JObj [(lit ''byteLength'', JStr (fp_byteLength f)),
     (lit ''digest'', JObj [(lit ''pluginId'', JStr (dg_pluginId (fp_digest f))),
        (lit ''algorithm'', JStr (dg_algorithm (fp_digest f))), (lit ''value'', JStr (dg_value (fp_digest f)))])]"

definition headerFields :: "ChangeLogHeader \<Rightarrow> (ustring \<times> jsval) list" where
  "headerFields h = [(lit ''format'', JStr (lit CHANGE_LOG_FORMAT)), (lit ''version'', JNum (NInt CHANGE_LOG_VERSION)),
     (lit ''complete'', JBool (hd_complete h)), (lit ''before'', fingerprintObject (hd_before h)),
     (lit ''after'', fingerprintObject (hd_after h)), (lit ''changeCount'', JStr (hd_changeCount h)),
     (lit ''sourceChangeCount'', JStr (hd_sourceChangeCount h)),
     (lit ''unavailableChangeCount'', JStr (hd_unavailableChangeCount h)),
     (lit ''unavailableChangeSerials'', JArr (map JStr (hd_unavailableChangeSerials h)))]"

definition serializedOf :: "NormalizedChangeLogEntry \<Rightarrow> SerializedChangeLogEntry" where
  "serializedOf e = \<lparr>s_kind = e_kind e, s_offset = e_offset e, s_length = e_length e, s_data = e_data e,
     s_serial = e_serial e, s_groupId = e_groupId e\<rparr>"

definition documentObject :: "PreparedChangeLog \<Rightarrow> jsval" where
  "documentObject p = JObj (headerFields (sr_header (p_result p)) @
     [(lit ''changes'', JArr (map (\<lambda>e. entryObject (serializedOf e)) (p_changes p)))])"

subsection \<open>Text that passes the string check\<close>

definition textFits :: "ChangeLogCodecLimits \<Rightarrow> ustring \<Rightarrow> bool" where
  "textFits limits s \<longleftrightarrow> int (length s) \<le> maxStringChars limits \<and> assertValidUnicodeString s = Inr ()"

lemma valid_Cons: "\<not> isHighSurrogate u \<Longrightarrow> \<not> isLowSurrogate u \<Longrightarrow>
    assertValidUnicodeString (u # s) = assertValidUnicodeString s"
  by (cases s) simp_all

lemma valid_ascii: "list_all (\<lambda>u. u < 128) s \<Longrightarrow> assertValidUnicodeString s = Inr ()"
  by (induction s) (simp_all add: valid_Cons isHighSurrogate_def isLowSurrogate_def)

lemma valid_snoc:
  "assertValidUnicodeString (s @ [u]) = Inr () \<Longrightarrow> \<not> isLowSurrogate u \<Longrightarrow> assertValidUnicodeString s = Inr ()"
  by (induction s rule: assertValidUnicodeString.induct) (auto split: if_splits)

lemma space_not_surrogate: "isJsSpace u \<Longrightarrow> \<not> isHighSurrogate u \<and> \<not> isLowSurrogate u"
  by (auto simp: isJsSpace_def isHighSurrogate_def isLowSurrogate_def)

lemma valid_trim:
  assumes "assertValidUnicodeString s = Inr ()"
  shows "assertValidUnicodeString (trim s) = Inr ()"
proof -
  have f: "assertValidUnicodeString s = Inr () \<Longrightarrow> assertValidUnicodeString (dropWhile isJsSpace s) = Inr ()" for s
    by (induction s) (auto simp: valid_Cons dest!: space_not_surrogate)
  have b: "assertValidUnicodeString (rev s) = Inr () \<Longrightarrow>
      assertValidUnicodeString (rev (dropWhile isJsSpace s)) = Inr ()" for s
    by (induction s) (auto dest!: space_not_surrogate dest: valid_snoc)
  show ?thesis
    unfolding trim_def using b [of "rev (dropWhile isJsSpace s)"] f [OF assms] by simp
qed

lemma textFits_trim: "textFits limits s \<Longrightarrow> textFits limits (trim s)"
  using trim_length [of s] by (auto simp: textFits_def valid_trim)

lemma textFits_ascii:
  "list_all (\<lambda>u. u < 128) s \<Longrightarrow> int (length s) \<le> maxStringChars limits \<Longrightarrow> textFits limits s"
  by (simp add: textFits_def valid_ascii)

lemma int64Text_fits: "int64Text t \<Longrightarrow> 64 \<le> maxStringChars limits \<Longrightarrow> textFits limits t"
proof (rule textFits_ascii)
  assume t: "int64Text t"
  then have c: "isCanonicalDecimal t" "digitsValue t < 10 ^ 19" by (auto simp: int64Text_def MAX_INT64_def)
  then show "list_all (\<lambda>u. u < 128) t"
    by (auto simp: isCanonicalDecimal_def isDigit_def list_all_iff)
  have "length t \<le> 19" using natDigits_length [of "digitsValue t" 18] c by (simp add: natDigits_digitsValue)
  then show "int (length t) \<le> maxStringChars limits" if "64 \<le> maxStringChars limits" using that by simp
qed

subsection \<open>The nesting check\<close>

lemma validate_Str: "validateChangeLogJsonValue limits d (JStr s) = Inr () \<longleftrightarrow> int d \<le> maxNesting limits \<and> textFits limits s"
  by (auto simp: validateChangeLogJsonValue.simps textFits_def)

lemma validateItems_iff:
  "validateItems limits d xs = Inr () \<longleftrightarrow> (\<forall>x\<in>set xs. validateChangeLogJsonValue limits d x = Inr ())"
  by (induction xs) (auto simp: bindE_eq_Inr)

lemma validateProps_iff:
  "validateProps limits d ps = Inr () \<longleftrightarrow>
     (\<forall>(k, x)\<in>set ps. assertValidUnicodeString k = Inr () \<and> validateChangeLogJsonValue limits d x = Inr ())"
  by (induction ps) (auto simp: bindE_eq_Inr)

lemma validate_Arr:
  "validateChangeLogJsonValue limits d (JArr xs) = Inr () \<longleftrightarrow>
     int d \<le> maxNesting limits \<and> (\<forall>x\<in>set xs. validateChangeLogJsonValue limits (d + 1) x = Inr ())"
  by (auto simp: validateChangeLogJsonValue.simps [of _ _ "JArr xs"] validateItems_iff)

lemma validate_Obj:
  "validateChangeLogJsonValue limits d (JObj ps) = Inr () \<longleftrightarrow>
     int d \<le> maxNesting limits \<and> (\<forall>(k, x)\<in>set ps. assertValidUnicodeString k = Inr () \<and>
       validateChangeLogJsonValue limits (d + 1) x = Inr ())"
  by (auto simp: validateChangeLogJsonValue.simps [of _ _ "JObj ps"] validateProps_iff)

lemma validate_getProp:
  "validateChangeLogJsonValue limits d (JObj ps) = Inr () \<Longrightarrow> getProp ps k \<noteq> JUndefined \<Longrightarrow>
   validateChangeLogJsonValue limits (d + 1) (getProp ps k) = Inr ()"
  by (auto simp: validate_Obj getProp_def split: option.splits dest: map_of_SomeD)

subsection \<open>Entries\<close>

definition wfEntry :: "(ustring \<Rightarrow> jsnum) \<Rightarrow> ChangeLogCodecLimits \<Rightarrow> NormalizedChangeLogEntry \<Rightarrow> bool" where
  "wfEntry fr limits e \<longleftrightarrow>
     int64Text (e_offset e) \<and> int64Text (e_length e) \<and>
     textFits limits (e_data e) \<and> normalizeHex (JStr (e_data e)) = Inr (e_data e) \<and>
     (e_kind e \<in> {INSERT, DELETE, OVERWRITE} \<longrightarrow> length (e_data e) div 2 \<noteq> 0) \<and>
     (e_kind e = DELETE \<longrightarrow> length (e_data e) div 2 = digitsValue (e_length e)) \<and>
     (case e_serial e of None \<Rightarrow> True | Some t \<Rightarrow> int64Text t \<and> 0 < digitsValue t) \<and>
     (case e_groupId e of None \<Rightarrow> True
      | Some g \<Rightarrow> g \<noteq> [] \<and> trim g = g \<and> textFits limits g \<and> int (length g) \<le> maxGroupIdChars limits) \<and>
     (if e_kind e = TRANSFORM
      then \<exists>t. e_transformDescriptor e = Some t \<and> parseTransformDescriptor fr limits (e_data e) = Inr t
      else e_transformDescriptor e = None)"

lemma hexLower: "hexDigitValue u \<noteq> None \<Longrightarrow> hexDigitValue (lowerUnit u) \<noteq> None \<and> lowerUnit (lowerUnit u) = lowerUnit u \<and> lowerUnit u < 128"
  by (auto simp: hexDigitValue_def lowerUnit_def split: if_splits)

lemma normalizeHex_Inr:
  "normalizeHex v = Inr d \<Longrightarrow> \<exists>s. v = JStr s \<and> length s = length d \<and> normalizeHex (JStr d) = Inr d \<and>
     list_all (\<lambda>u. u < 128) d"
proof -
  assume "normalizeHex v = Inr d"
  then obtain s where s: "v = JStr s" "length s mod 2 = 0" "list_all (\<lambda>u. hexDigitValue u \<noteq> None) s" "d = toLowerCase s"
    by (auto simp: normalizeHex_def split: jsval.splits if_splits)
  then have "\<forall>u\<in>set s. hexDigitValue (lowerUnit u) \<noteq> None \<and> lowerUnit (lowerUnit u) = lowerUnit u \<and> lowerUnit u < 128"
    using hexLower by (auto simp: list_all_iff)
  then show ?thesis
    using s by (auto simp: normalizeHex_def toLowerCase_def list_all_iff)
qed

lemma entrySerial_Inr:
  "entrySerial v = Inr s \<Longrightarrow> case s of None \<Rightarrow> True | Some t \<Rightarrow> int64Text t \<and> 0 < digitsValue t"
  by (auto simp: entrySerial_def bindE_eq_Inr dest: positiveDecimal_Inr split: if_splits)

lemma entryGroupId_Inr:
  "entryGroupId limits v = Inr s \<Longrightarrow> (v \<noteq> JUndefined \<Longrightarrow> validateChangeLogJsonValue limits d v = Inr ()) \<Longrightarrow>
   case s of None \<Rightarrow> True
      | Some g \<Rightarrow> g \<noteq> [] \<and> trim g = g \<and> textFits limits g \<and> int (length g) \<le> maxGroupIdChars limits"
  by (auto simp: entryGroupId_def requireText_def bindE_eq_Inr validate_Str textFits_trim split: if_splits jsval.splits)

lemma entry_wf:
  assumes "normalizeChangeLogEntry fr limits v = Inr e"
  shows "wfEntry fr limits e"
proof -
  obtain ps where v: "v = JObj ps" "validateChangeLogJsonValue limits 0 (JObj ps) = Inr ()"
    and o: "changeLogInt64ToDecimal (getProp ps ''offset'') = Inr (e_offset e)"
    and l: "changeLogInt64ToDecimal (getProp ps ''length'') = Inr (e_length e)"
    and d: "normalizeHex (getProp ps ''data'') = Inr (e_data e)"
    and k: "\<not> (e_kind e \<in> {INSERT, DELETE, OVERWRITE} \<and> length (e_data e) div 2 = 0)"
      "\<not> (e_kind e = DELETE \<and> length (e_data e) div 2 \<noteq> digitsValue (e_length e))"
    and s: "entrySerial (getProp ps ''serial'') = Inr (e_serial e)"
    and g: "entryGroupId limits (getProp ps ''groupId'') = Inr (e_groupId e)"
    and t: "entryDescriptor fr limits (e_kind e) ps (e_data e) = Inr (e_transformDescriptor e)"
    using assms unfolding normalizeChangeLogEntry_def Let_def
    by (auto simp: bindE_eq_Inr required_eq_Inr isChangeLogRecord_Some)
  obtain w where w: "getProp ps ''data'' = JStr w" "length w = length (e_data e)"
    "normalizeHex (JStr (e_data e)) = Inr (e_data e)" "list_all (\<lambda>u. u < 128) (e_data e)"
    using normalizeHex_Inr [OF d] by auto
  then have "textFits limits (e_data e)"
    using validate_getProp [OF v(2), of "''data''"] by (auto simp: validate_Str textFits_def valid_ascii)
  moreover have "if e_kind e = TRANSFORM
      then \<exists>t. e_transformDescriptor e = Some t \<and> parseTransformDescriptor fr limits (e_data e) = Inr t
      else e_transformDescriptor e = None"
    using t by (auto simp: entryDescriptor_def bindE_eq_Inr split: if_splits)
  ultimately show ?thesis
    using toDecimal_Inr [OF o] toDecimal_Inr [OF l] w(3) k entrySerial_Inr [OF s]
      entryGroupId_Inr [OF g validate_getProp [OF v(2)]]
    by (cases "e_kind e") (simp_all add: wfEntry_def)
qed

lemma name_fits [simp]: "assertValidUnicodeString (lit s) = Inr ()" if "list_all (\<lambda>c. of_char c < (128 :: nat)) s"
  using that by (intro valid_ascii) (simp add: lit_def list_all_iff)

lemma kindName_fits: "64 \<le> maxStringChars limits \<Longrightarrow> textFits limits (lit (entryKindName k))"
  by (cases k) (simp_all add: textFits_def lit_def isHighSurrogate_def isLowSurrogate_def)

lemma entryObject_validates:
  assumes "wfEntry fr limits e" "64 \<le> maxStringChars limits" "int d + 1 \<le> maxNesting limits"
  shows "validateChangeLogJsonValue limits d (entryObject (serializedOf e)) = Inr ()"
  using assms
  by (auto simp: entryObject_def serializedOf_def wfEntry_def validate_Obj validate_Str kindName_fits int64Text_fits
      split: option.splits)

lemma entryKind_names:
  "entryKindOf (JStr (lit ''INSERT'')) = Some INSERT" "entryKindOf (JStr (lit ''DELETE'')) = Some DELETE"
  "entryKindOf (JStr (lit ''OVERWRITE'')) = Some OVERWRITE" "entryKindOf (JStr (lit ''REPLACE'')) = Some REPLACE"
  "entryKindOf (JStr (lit ''TRANSFORM'')) = Some TRANSFORM"
  by (simp_all add: entryKindOf_def entryKinds_def lit_inject)

lemma entryObject_props:
  "entryObject (serializedOf e) = JObj ps \<Longrightarrow>
     getProp ps ''kind'' = JStr (lit (entryKindName (e_kind e))) \<and> getProp ps ''offset'' = JStr (e_offset e) \<and>
     getProp ps ''length'' = JStr (e_length e) \<and> getProp ps ''data'' = JStr (e_data e) \<and>
     getProp ps ''serial'' = (case e_serial e of None \<Rightarrow> JUndefined | Some t \<Rightarrow> JStr t) \<and>
     getProp ps ''groupId'' = (case e_groupId e of None \<Rightarrow> JUndefined | Some g \<Rightarrow> JStr g) \<and>
     (\<forall>f\<in>set legacyTransformFields. map_of ps (lit f) = None)"
  by (auto simp: entryObject_def serializedOf_def getProp_Cons getProp_Nil lit_inject legacyTransformFields_def
      split: option.splits)

lemma entry_again:
  assumes "wfEntry fr limits e" "64 \<le> maxStringChars limits" "1 \<le> maxNesting limits"
  shows "normalizeChangeLogEntry fr limits (entryObject (serializedOf e)) = Inr e"
proof -
  obtain ps where ps: "entryObject (serializedOf e) = JObj ps" by (simp add: entryObject_def)
  note pr = entryObject_props [OF ps]
  have s: "entrySerial (getProp ps ''serial'') = Inr (e_serial e)"
    and g: "entryGroupId limits (getProp ps ''groupId'') = Inr (e_groupId e)"
    using pr assms(1) by (auto simp: wfEntry_def entrySerial_def positiveDecimal_again entryGroupId_def
        requireText_def split: option.splits)
  have t: "entryDescriptor fr limits (e_kind e) ps (e_data e) = Inr (e_transformDescriptor e)"
    using pr assms(1) by (auto simp: wfEntry_def entryDescriptor_def list_ex_iff split: if_splits)
  have "validateChangeLogJsonValue limits 0 (JObj ps) = Inr ()"
    using entryObject_validates [OF assms(1,2), of 0] assms(3) ps by simp
  then show ?thesis
    using pr s g t assms(1)
    by (cases "e_kind e") (simp_all add: normalizeChangeLogEntry_def ps isChangeLogRecord_def wfEntry_def toDecimal_again
        entryKind_names)
qed

subsection \<open>Headers\<close>

lemma digest_units:
  "isPluginIdUnit u \<Longrightarrow> \<not> isJsSpace u \<and> u < 128"
  "isAlgorithmUnit u \<Longrightarrow> \<not> isJsSpace u \<and> u < 128 \<and> lowerUnit u = u"
  "isLowerHexUnit u \<Longrightarrow> \<not> isJsSpace u \<and> u < 128 \<and> lowerUnit u = u"
  by (auto simp: isPluginIdUnit_def isAlgorithmUnit_def isLowerHexUnit_def isJsSpace_def isDigit_def lowerUnit_def)

lemma digest_texts:
  "list_all isPluginIdUnit s \<Longrightarrow> trim s = s \<and> list_all (\<lambda>u. u < 128) s"
  "list_all isAlgorithmUnit s \<Longrightarrow> trim s = s \<and> toLowerCase s = s \<and> list_all (\<lambda>u. u < 128) s"
  "list_all isLowerHexUnit s \<Longrightarrow> trim s = s \<and> toLowerCase s = s \<and> list_all (\<lambda>u. u < 128) s"
  by (auto simp: list_all_iff digest_units toLowerCase_def intro!: trim_plain map_idI)

lemma fingerprint_again: "wfFingerprint f \<Longrightarrow> normalizeChangeLogFingerprint (fingerprintObject f) = Inr f"
  by (simp add: normalizeChangeLogFingerprint_def fingerprintObject_def isChangeLogRecord_def getProp_Cons lit_inject
      wfFingerprint_def wfDigest_def toDecimal_again textOr_def digest_texts)

lemma fingerprint_validates:
  assumes "wfFingerprint f" "4096 \<le> maxStringChars limits" "int d + 2 \<le> maxNesting limits"
  shows "validateChangeLogJsonValue limits d (fingerprintObject f) = Inr ()"
  using assms
  by (auto simp: fingerprintObject_def wfFingerprint_def wfDigest_def validate_Obj validate_Str int64Text_fits digest_texts
      CHANGE_LOG_DIGEST_PLUGIN_ID_MAX_LENGTH_def CHANGE_LOG_DIGEST_ALGORITHM_MAX_LENGTH_def
      CHANGE_LOG_DIGEST_VALUE_MAX_LENGTH_def intro!: textFits_ascii)

lemma fingerprint_depth:
  assumes "normalizeChangeLogFingerprint v = Inr f" "validateChangeLogJsonValue limits d v = Inr ()"
  shows "int d + 2 \<le> maxNesting limits"
proof -
  obtain ps dg where d: "v = JObj ps" "getProp ps ''digest'' = JObj dg" "textOr (getProp dg ''algorithm'') \<noteq> []"
    using assms(1) unfolding normalizeChangeLogFingerprint_def Let_def
    by (auto simp: bindE_eq_Inr required_eq_Inr isChangeLogRecord_Some toLowerCase_def)
  then obtain s where v: "v = JObj ps" "getProp ps ''digest'' = JObj dg" "getProp dg ''algorithm'' = JStr s"
    by (auto simp: textOr_def split: jsval.splits)
  then have "validateChangeLogJsonValue limits (d + 1) (JObj dg) = Inr ()"
    using validate_getProp [of limits d ps "''digest''"] assms(2) by simp
  then have "validateChangeLogJsonValue limits (d + 1 + 1) (JStr s) = Inr ()"
    using validate_getProp [of limits "d + 1" dg "''algorithm''"] v(3) by simp
  then show ?thesis by (simp add: validate_Str)
qed

lemma int64_again: "int64Text t \<Longrightarrow> parseChangeLogNonNegativeInt64 (JStr t) = Inr (int (digitsValue t))"
  by (simp add: int64Text_def parseChangeLogNonNegativeInt64_def)

lemma int64_text: "int64Text t \<Longrightarrow> bigintToString (int (digitsValue t)) = t"
  by (simp add: int64Text_def bigintToString_nat natDigits_digitsValue)

lemma header_props:
  "getProp (headerFields h @ qs) ''format'' = JStr (lit CHANGE_LOG_FORMAT)"
  "getProp (headerFields h @ qs) ''version'' = JNum (NInt CHANGE_LOG_VERSION)"
  "getProp (headerFields h @ qs) ''complete'' = JBool (hd_complete h)"
  "getProp (headerFields h @ qs) ''before'' = fingerprintObject (hd_before h)"
  "getProp (headerFields h @ qs) ''after'' = fingerprintObject (hd_after h)"
  "getProp (headerFields h @ qs) ''changeCount'' = JStr (hd_changeCount h)"
  "getProp (headerFields h @ qs) ''sourceChangeCount'' = JStr (hd_sourceChangeCount h)"
  "getProp (headerFields h @ qs) ''unavailableChangeCount'' = JStr (hd_unavailableChangeCount h)"
  "getProp (headerFields h @ qs) ''unavailableChangeSerials'' = JArr (map JStr (hd_unavailableChangeSerials h))"
  by (simp_all add: headerFields_def getProp_Cons lit_inject)

lemma header_changes: "getProp (headerFields h @ [(lit ''changes'', v)]) ''changes'' = v"
  by (simp add: headerFields_def getProp_Cons lit_inject)

lemma header_again:
  assumes "wfHeader limits n h"
  shows "normalizeChangeLogHeader limits (headerFields h @ qs) n = Inr h"
proof -
  let ?src = "int (digitsValue (hd_sourceChangeCount h))"
  have u: "normalizeUnavailableChangeSerials limits ?src (JArr (map JStr (hd_unavailableChangeSerials h))) =
      Inr (hd_unavailableChangeSerials h)"
    using assms unavailableLoop_again [of "hd_unavailableChangeSerials h" "[]" ?src]
    by (simp add: wfHeader_def normalizeUnavailableChangeSerials_def)
  have wf: "int64Text (hd_changeCount h)" "digitsValue (hd_changeCount h) = n"
    "int64Text (hd_sourceChangeCount h)" "n \<le> digitsValue (hd_sourceChangeCount h)"
    "int64Text (hd_unavailableChangeCount h)"
    "digitsValue (hd_unavailableChangeCount h) = length (hd_unavailableChangeSerials h)"
    "hd_complete h \<longleftrightarrow> hd_unavailableChangeSerials h = []"
    "wfFingerprint (hd_before h)" "wfFingerprint (hd_after h)"
    using assms by (auto simp: wfHeader_def)
  show ?thesis
    using wf u int64_text [OF wf(1)] int64_text [OF wf(5)]
    by (simp add: normalizeChangeLogHeader_def header_props asBool_def int64_again int64_text fingerprint_again)
qed

lemma header_validates:
  assumes "wfHeader limits n h" "4096 \<le> maxStringChars limits" "3 \<le> maxNesting limits"
  shows "\<forall>(k, x)\<in>set (headerFields h). assertValidUnicodeString k = Inr () \<and> validateChangeLogJsonValue limits 1 x = Inr ()"
proof -
  have s: "textFits limits (lit CHANGE_LOG_FORMAT)"
    using assms(2) by (simp add: textFits_def CHANGE_LOG_FORMAT_def lit_def isHighSurrogate_def isLowSurrogate_def)
  have wf: "int64Text (hd_changeCount h)" "int64Text (hd_sourceChangeCount h)" "int64Text (hd_unavailableChangeCount h)"
    "\<forall>t\<in>set (hd_unavailableChangeSerials h). int64Text t"
    "wfFingerprint (hd_before h)" "wfFingerprint (hd_after h)"
    using assms(1) by (auto simp: wfHeader_def)
  show ?thesis
    using wf assms(2,3)
    by (simp add: headerFields_def fingerprint_validates validate_Str validate_Arr int64Text_fits s
        validateChangeLogJsonValue.simps [of _ _ "JNum _"] validateChangeLogJsonValue.simps [of _ _ "JBool _"])
qed

subsection \<open>Documents\<close>

lemma documentLoop_again:
  "\<forall>e\<in>set es. wfEntry fr limits e \<Longrightarrow> 64 \<le> maxStringChars limits \<Longrightarrow> 1 \<le> maxNesting limits \<Longrightarrow>
   accumulateAll limits es i a = Inr a' \<Longrightarrow>
   documentLoop fr (\<lambda>_. False) limits (map (\<lambda>e. entryObject (serializedOf e)) es) i a = Inr (es, a')"
  by (induction es arbitrary: i a)
    (auto simp: bindE_eq_Inr throwIfChangeLogCancelled_def entry_again)

lemma documentLoop_wf:
  "documentLoop fr aborted limits xs i a = Inr (es, a') \<Longrightarrow> \<forall>e\<in>set es. wfEntry fr limits e"
  by (induction xs arbitrary: i a es) (auto simp: bindE_eq_Inr dest: entry_wf)

text \<open>C19: a normalised document is stable: written out as an object again, with its integers as decimal text,
  its hexadecimal data in lower case and its texts trimmed, it is accepted and gives the same
  header, the same entries and the same summary.\<close>

theorem change_log_stable:
  assumes "normalizeChangeLogDocument fr aborted ov v = Inr p"
    and "resolveChangeLogCodecLimits ov = Inr limits" "4096 \<le> maxStringChars limits"
  shows "normalizeChangeLogDocument fr (\<lambda>_. False) ov (documentObject p) = Inr p"
proof -
  obtain document xs a where v: "v = JObj document" "validateChangeLogJsonValue limits 0 v = Inr ()"
    and d: "documentLoop fr aborted limits xs 0 newAccumulator = Inr (p_changes p, a)"
    and f: "accumulatorFinish limits document \<lparr>bytesRead = 0, maxBufferedChars = 0, maxValueChars = 0\<rparr> a = Inr (p_result p)"
    using assms(1,2) by (auto elim!: normalizeDocument_Inr)
  let ?h = "sr_header (p_result p)" and ?n = "pc_total (primitiveCounts a)"
  have h: "normalizeChangeLogHeader limits document ?n = Inr ?h"
    using f by (auto simp: accumulatorFinish_def bindE_eq_Inr dest!: sym [of _ "p_result p"])
  obtain b where fp: "normalizeChangeLogFingerprint (getProp document ''before'') = Inr b"
    using h by (auto simp: normalizeChangeLogHeader_def bindE_eq_Inr)
  have "getProp document ''before'' \<noteq> JUndefined"
    using fp by (auto simp: normalizeChangeLogFingerprint_def isChangeLogRecord_def)
  then have depth: "3 \<le> maxNesting limits"
    using fingerprint_depth [OF fp, of limits 1] validate_getProp [of limits 0 document] v by simp
  note wf = header_wf [OF h] documentLoop_wf [OF d]
  have val: "validateChangeLogJsonValue limits 0 (documentObject p) = Inr ()"
    using header_validates [OF wf(1) assms(3) depth] entryObject_validates [of fr limits _ "Suc (Suc 0)"] wf(2) depth assms(3)
    by (simp add: documentObject_def validate_Obj validate_Arr ball_Un)
  have loop: "documentLoop fr (\<lambda>_. False) limits (map (\<lambda>e. entryObject (serializedOf e)) (p_changes p)) 0 newAccumulator =
      Inr (p_changes p, a)"
    using documentLoop_again [OF wf(2) _ _ documentLoop_Inr [OF d, THEN conjunct2]] assms(3) depth by simp
  have fin: "accumulatorFinish limits (headerFields ?h @ qs) \<lparr>bytesRead = 0, maxBufferedChars = 0, maxValueChars = 0\<rparr> a =
      Inr (p_result p)" for qs
    using f h by (auto simp: accumulatorFinish_def header_again [OF wf(1)])
  show ?thesis
    using val loop fin assms(2)
    by (simp add: normalizeChangeLogDocument_def throwIfChangeLogCancelled_def documentObject_def isChangeLogRecord_def
        asArray_def header_changes)
qed

lemma change_log_stable_witness:
  "normalizeChangeLogDocument NOther (\<lambda>_. False) [] (JObj sampleFields) = Inr samplePrepared \<and>
   normalizeChangeLogDocument NOther (\<lambda>_. False) [] (documentObject samplePrepared) = Inr samplePrepared"
  using change_log_stable [OF sample_document [of NOther] resolve_default] sample_document [of NOther]
  by (simp add: defaultLimits_def)

end
