(* ===== verification/Change_Log_Stream.thy ===== *)
theory Change_Log_Stream
  imports Change_Log_Codec
begin

text \<open>
  The streaming scanner of change logs, \<^verbatim>\<open>packages/client/src/changeLog/stream.ts\<close>. The source is the
  list of the chunks that its iterator yields. The cursor keeps its buffer, its position and
  the streaming decoder as the class does; every loop is a function with a termination proof, whose
  measure is the number of code units that can still come. The generator answers the events
  it yields and the error that ends it, if any.
\<close>

section \<open>The streaming decoder\<close>

text \<open>\<^verbatim>\<open>decoder.decode(chunk, { stream: true })\<close>: the state of \<open>utf8Loop\<close> is kept between chunks.\<close>

function utf8Feed :: "nat \<Rightarrow> nat \<Rightarrow> nat \<Rightarrow> nat \<Rightarrow> nat list \<Rightarrow> nat option list \<times> nat \<times> nat \<times> nat \<times> nat" where
  "utf8Feed needed lower upper cp [] = ([], needed, lower, upper, cp)"
| "utf8Feed 0 lower upper cp (b # bs) =
     (if b < 128 then apfst ((#) (Some b)) (utf8Feed 0 0 0 0 bs)
      else if 194 \<le> b \<and> b \<le> 223 then utf8Feed 1 128 191 (b - 192) bs
      else if 224 \<le> b \<and> b \<le> 239
      then utf8Feed 2 (if b = 224 then 160 else 128) (if b = 237 then 159 else 191) (b - 224) bs
      else if 240 \<le> b \<and> b \<le> 244
      then utf8Feed 3 (if b = 240 then 144 else 128) (if b = 244 then 143 else 191) (b - 240) bs
      else apfst ((#) None) (utf8Feed 0 0 0 0 bs))"
| "utf8Feed (Suc n) lower upper cp (b # bs) =
     (if lower \<le> b \<and> b \<le> upper then
        (let cp' = cp * 64 + (b - 128) in
         if n = 0 then apfst ((#) (Some cp')) (utf8Feed 0 0 0 0 bs) else utf8Feed n 128 191 cp' bs)
      else apfst ((#) None) (utf8Feed 0 0 0 0 (b # bs)))"
  by pat_completeness auto
termination
  by (relation "measure (\<lambda>(needed, lower, upper, cp, bs). 2 * length bs + (if needed = 0 then 0 else 1))")
    auto

record decoder =
  d_needed :: nat
  d_lower :: nat
  d_upper :: nat
  d_cp :: nat
  d_bomSeen :: bool

definition newDecoder :: decoder where
  "newDecoder = \<lparr>d_needed = 0, d_lower = 0, d_upper = 0, d_cp = 0, d_bomSeen = False\<rparr>"

definition decodeStream :: "bytes \<Rightarrow> decoder \<Rightarrow> (ustring \<times> decoder) option" where
  "decodeStream bs d =
     (case utf8Feed (d_needed d) (d_lower d) (d_upper d) (d_cp d) (map unat bs) of
        (cs, n, l, u, c) \<Rightarrow>
          if None \<in> set cs then None
          else Some (concat (map toUtf16 (map the (if d_bomSeen d then cs else stripBom cs))),
            \<lparr>d_needed = n, d_lower = l, d_upper = u, d_cp = c, d_bomSeen = (d_bomSeen d \<or> cs \<noteq> [])\<rparr>))"

text \<open>\<^verbatim>\<open>decoder.decode()\<close> at the end: an unfinished sequence is an error.\<close>

definition decodeFlush :: "decoder \<Rightarrow> ustring option" where
  "decodeFlush d = (if d_needed d = 0 then Some [] else None)"

section \<open>The cursor\<close>

datatype chunk = Bytes bytes | Text ustring

record StreamingJsonCursor =
  source :: "chunk list"
  dec :: decoder
  buffer :: ustring
  position :: nat
  ended :: bool
  decoderFlushed :: bool
  c_bytesRead :: nat
  c_maxBufferedChars :: nat
  c_maxValueChars :: nat
  asked :: nat

definition newCursor :: "chunk list \<Rightarrow> StreamingJsonCursor" where
  "newCursor src = \<lparr>source = src, dec = newDecoder, buffer = [], position = 0, ended = False,
     decoderFlushed = False, c_bytesRead = 0, c_maxBufferedChars = 0, c_maxValueChars = 0, asked = 0\<rparr>"

definition diagnostics :: "StreamingJsonCursor \<Rightarrow> ChangeLogScanDiagnostics" where
  "diagnostics c = \<lparr>bytesRead = c_bytesRead c, maxBufferedChars = c_maxBufferedChars c,
     maxValueChars = c_maxValueChars c\<rparr>"

text \<open>A question to the cancellation signal; \<open>aborted n\<close> is the answer to the \<open>n\<close>-th.\<close>

definition ask :: "(nat \<Rightarrow> bool) \<Rightarrow> StreamingJsonCursor \<Rightarrow> code + StreamingJsonCursor" where
  "ask aborted c = bindE (throwIfChangeLogCancelled (aborted (asked c))) (\<lambda>_. Inr (c\<lparr>asked := asked c + 1\<rparr>))"

definition setBuffer :: "ustring \<Rightarrow> StreamingJsonCursor \<Rightarrow> StreamingJsonCursor" where
  "setBuffer t c = c\<lparr>buffer := t, position := 0, c_maxBufferedChars := max (c_maxBufferedChars c) (length t)\<rparr>"

definition nextChunk :: "chunk \<Rightarrow> StreamingJsonCursor \<Rightarrow> code + StreamingJsonCursor" where
  "nextChunk ch c = (case ch of
     Text t \<Rightarrow> Inr (setBuffer t (c\<lparr>c_bytesRead := c_bytesRead c + length (utf8Encode t)\<rparr>))
   | Bytes bs \<Rightarrow>
       (case decodeStream bs (dec c) of
          None \<Rightarrow> Inl ''CHANGE_LOG_INVALID_UNICODE''
        | Some (t, d) \<Rightarrow> Inr (setBuffer t (c\<lparr>c_bytesRead := c_bytesRead c + length bs, dec := d\<rparr>))))"

lemma setBuffer_simps [simp]:
  "source (setBuffer t c) = source c" "buffer (setBuffer t c) = t" "position (setBuffer t c) = 0"
  "ended (setBuffer t c) = ended c" "dec (setBuffer t c) = dec c" "decoderFlushed (setBuffer t c) = decoderFlushed c"
  by (simp_all add: setBuffer_def)

lemma nextChunk_source: "nextChunk ch c = Inr c' \<Longrightarrow> source c' = source c"
  by (auto simp: nextChunk_def split: chunk.splits option.splits)

lemma ask_Inr: "ask aborted c = Inr c' \<longleftrightarrow> \<not> aborted (asked c) \<and> c' = c\<lparr>asked := asked c + 1\<rparr>"
  by (auto simp: ask_def throwIfChangeLogCancelled_def bindE_eq_Inr)

text \<open>The loop of \<^verbatim>\<open>fill\<close>; the answer is whether there is a code unit at the position.\<close>

function fill :: "(nat \<Rightarrow> bool) \<Rightarrow> StreamingJsonCursor \<Rightarrow> code + (bool \<times> StreamingJsonCursor)" where
  "fill aborted c =
     (if position c \<ge> length (buffer c) \<and> \<not> ended c then
        bindE (ask aborted c) (\<lambda>c.
        case source c of
          [] \<Rightarrow>
            let c = c\<lparr>ended := True\<rparr> in
            if \<not> decoderFlushed c then
              bindE (required ''CHANGE_LOG_INVALID_UNICODE'' (decodeFlush (dec c))) (\<lambda>t.
                Inr (length t > 0, setBuffer t (c\<lparr>decoderFlushed := True\<rparr>)))
            else Inr (False, c)
        | ch # rest \<Rightarrow>
            bindE (nextChunk ch (c\<lparr>source := rest\<rparr>)) (\<lambda>c. fill aborted c))
      else Inr (position c < length (buffer c), c))"
  by pat_completeness auto
termination
  by (relation "measure (\<lambda>(aborted, c). length (source c))") (auto simp: ask_Inr dest!: nextChunk_source)

declare fill.simps [simp del]

definition peek :: "(nat \<Rightarrow> bool) \<Rightarrow> StreamingJsonCursor \<Rightarrow> code + (nat option \<times> StreamingJsonCursor)" where
  "peek aborted c = bindE (fill aborted c) (\<lambda>(b, c). Inr (if b then Some (buffer c ! position c) else None, c))"

definition advance :: "nat \<Rightarrow> StreamingJsonCursor \<Rightarrow> StreamingJsonCursor" where
  "advance n c = c\<lparr>position := position c + n\<rparr>"

definition take1 :: "(nat \<Rightarrow> bool) \<Rightarrow> StreamingJsonCursor \<Rightarrow> code + (nat option \<times> StreamingJsonCursor)" where
  "take1 aborted c = bindE (fill aborted c) (\<lambda>(b, c).
     Inr (if b then (Some (buffer c ! position c), advance 1 c) else (None, c)))"

subsection \<open>What can still come\<close>

fun chunkBound :: "chunk \<Rightarrow> nat" where
  "chunkBound (Bytes bs) = 2 * length bs"
| "chunkBound (Text t) = length t"

definition remaining :: "StreamingJsonCursor \<Rightarrow> nat" where
  "remaining c = (length (buffer c) - position c) + sum_list (map chunkBound (source c))"

lemma utf8Feed_emits: "length (filter (\<lambda>x. x \<noteq> None) (fst (utf8Feed n l u c bs))) \<le> length bs"
  by (induction n l u c bs rule: utf8Feed.induct) (auto simp: Let_def split: prod.splits)

lemma toUtf16_length: "length (toUtf16 c) \<le> 2"
  by (simp add: toUtf16_def)

lemma concat_toUtf16_length: "length (concat (map toUtf16 cs)) \<le> 2 * length cs"
proof (induction cs)
  case (Cons c cs)
  then show ?case using toUtf16_length [of c] by simp
qed simp

lemma stripBom_length: "length (stripBom cs) \<le> length cs"
  by (auto simp: stripBom_def split: list.splits option.splits)

lemma decodeStream_length:
  assumes "decodeStream bs d = Some (t, d')"
  shows "length t \<le> 2 * length bs"
proof -
  obtain cs st where f: "utf8Feed (d_needed d) (d_lower d) (d_upper d) (d_cp d) (map unat bs) = (cs, st)"
    by (metis surj_pair)
  then have cs: "None \<notin> set cs" and t: "t = concat (map toUtf16 (map the (if d_bomSeen d then cs else stripBom cs)))"
    using assms by (auto simp: decodeStream_def split: prod.splits if_splits)
  have "filter (\<lambda>x. x \<noteq> None) cs = cs"
    using cs by (intro filter_True) metis
  then have n: "length cs \<le> length bs"
    using utf8Feed_emits [of "d_needed d" "d_lower d" "d_upper d" "d_cp d" "map unat bs"] f by simp
  have "length t \<le> 2 * length (if d_bomSeen d then cs else stripBom cs)"
    using concat_toUtf16_length [of "map the (if d_bomSeen d then cs else stripBom cs)"] unfolding t by simp
  then show ?thesis using n stripBom_length [of cs] by (auto split: if_splits)
qed

lemma nextChunk_remaining:
  assumes "nextChunk ch c = Inr c'"
  shows "remaining c' \<le> chunkBound ch + sum_list (map chunkBound (source c))"
  using assms by (auto simp: nextChunk_def remaining_def split: chunk.splits option.splits dest: decodeStream_length)

lemma decodeFlush_Some: "decodeFlush d = Some t \<longleftrightarrow> d_needed d = 0 \<and> t = []"
  by (auto simp: decodeFlush_def)

lemma fill_Inr:
  "fill aborted c = Inr (b, c') \<Longrightarrow> remaining c' \<le> remaining c \<and> (b \<longleftrightarrow> position c' < length (buffer c'))"
proof (induction aborted c rule: fill.induct)
  case (1 aborted c)
  show ?case
  proof (cases "position c \<ge> length (buffer c) \<and> \<not> ended c")
    case False
    then show ?thesis using 1(2) by (auto simp: fill.simps [of aborted c] split: if_splits)
  next
    case True
    define c1 where "c1 = c\<lparr>asked := asked c + 1\<rparr>"
    have a: "ask aborted c = Inr c1"
      using 1(2) True by (cases "ask aborted c") (auto simp: fill.simps [of aborted c] ask_Inr c1_def)
    show ?thesis
    proof (cases "source c")
      case Nil
      then show ?thesis using 1(2) True a
        by (auto simp: fill.simps [of aborted c] bindE_eq_Inr c1_def required_eq_Inr decodeFlush_Some remaining_def Let_def
            split: if_splits)
    next
      case (Cons ch rest)
      then obtain c2 where c2: "nextChunk ch (c1\<lparr>source := rest\<rparr>) = Inr c2" "fill aborted c2 = Inr (b, c')"
        using 1(2) True a by (auto simp: fill.simps [of aborted c] bindE_eq_Inr c1_def)
      have "remaining c' \<le> remaining c2 \<and> (b \<longleftrightarrow> position c' < length (buffer c'))"
        using 1(1) [OF True a _ c2(1)] c2(2) Cons by (simp add: c1_def)
      then show ?thesis
        using nextChunk_remaining [OF c2(1)] Cons by (simp add: remaining_def c1_def)
    qed
  qed
qed

lemma peek_Inr:
  "peek aborted c = Inr (u, c') \<Longrightarrow> remaining c' \<le> remaining c \<and>
     (case u of None \<Rightarrow> \<not> position c' < length (buffer c')
      | Some v \<Rightarrow> position c' < length (buffer c') \<and> v = buffer c' ! position c')"
  by (auto simp: peek_def bindE_eq_Inr dest!: fill_Inr split: option.splits if_splits)

lemma remaining_advance:
  "n \<le> length (buffer c) - position c \<Longrightarrow> remaining (advance n c) = remaining c - n"
  by (simp add: remaining_def advance_def)

lemma advance_less: "position c < length (buffer c) \<Longrightarrow> remaining c \<le> m \<Longrightarrow> remaining (advance (Suc 0) c) < m"
  by (simp add: remaining_def advance_def)

lemma take1_Inr:
  "take1 aborted c = Inr (u, c') \<Longrightarrow> (case u of None \<Rightarrow> remaining c' \<le> remaining c | Some v \<Rightarrow> remaining c' < remaining c)"
  by (auto simp: take1_def bindE_eq_Inr advance_less dest!: fill_Inr
      split: if_splits option.splits)

subsection \<open>White space and expected characters\<close>

function skipWhitespace :: "(nat \<Rightarrow> bool) \<Rightarrow> StreamingJsonCursor \<Rightarrow> code + StreamingJsonCursor" where
  "skipWhitespace aborted c =
     bindE (peek aborted c) (\<lambda>(u, c).
       if u \<noteq> Some 32 \<and> u \<noteq> Some 10 \<and> u \<noteq> Some 13 \<and> u \<noteq> Some 9 then Inr c
       else skipWhitespace aborted (advance 1 c))"
  by pat_completeness auto
termination
proof (relation "measure (\<lambda>(aborted, c). remaining c)", goal_cases)
  case (2 aborted c p u c')
  then show ?case
    by (auto dest!: peek_Inr simp: advance_less split: option.splits)
qed simp

declare skipWhitespace.simps [simp del]

definition expect :: "(nat \<Rightarrow> bool) \<Rightarrow> nat \<Rightarrow> StreamingJsonCursor \<Rightarrow> code + StreamingJsonCursor" where
  "expect aborted expected c =
     bindE (skipWhitespace aborted c) (\<lambda>c.
     bindE (take1 aborted c) (\<lambda>(actual, c).
       if actual \<noteq> Some expected then Inl ''CHANGE_LOG_INVALID_JSON'' else Inr c))"

subsection \<open>Raw values\<close>

datatype mode = StringMode | ContainerMode | PrimitiveMode

record scan =
  inString :: bool
  escaped :: bool
  nesting :: int

definition isDelimiter :: "nat \<Rightarrow> bool" where
  "isDelimiter u \<longleftrightarrow> u = 44 \<or> u = 125 \<or> u = 93 \<or> u = 32 \<or> u = 10 \<or> u = 13 \<or> u = 9"

text \<open>The inner loop over the buffer: the number of code units passed, the state, and \<^verbatim>\<open>complete\<close>.\<close>

fun scanPiece :: "mode \<Rightarrow> int \<Rightarrow> scan \<Rightarrow> ustring \<Rightarrow> code + (nat \<times> scan \<times> bool)" where
  "scanPiece mode maxNest st [] = Inr (0, st, False)"
| "scanPiece mode maxNest st (u # us) =
     (let continue = (\<lambda>st. bindE (scanPiece mode maxNest st us) (\<lambda>(n, r). Inr (Suc n, r))) in
      if mode = PrimitiveMode \<and> \<not> inString st \<and> nesting st = 0 \<and> isDelimiter u then Inr (0, st, True)
      else if inString st then
        if escaped st then continue (st\<lparr>escaped := False\<rparr>)
        else if u = 92 then continue (st\<lparr>escaped := True\<rparr>)
        else if u = 34 then
          if mode = StringMode \<and> nesting st = 0 then Inr (1, st\<lparr>inString := False\<rparr>, True)
          else continue (st\<lparr>inString := False\<rparr>)
        else continue st
      else if u = 34 then continue (st\<lparr>inString := True\<rparr>)
      else if u = 123 \<or> u = 91 then
        if nesting st + 1 > maxNest then Inl ''CHANGE_LOG_NESTING_LIMIT''
        else continue (st\<lparr>nesting := nesting st + 1\<rparr>)
      else if u = 125 \<or> u = 93 then
        if nesting st - 1 < 0 then Inl ''CHANGE_LOG_INVALID_JSON''
        else if mode = ContainerMode \<and> nesting st - 1 = 0 then Inr (1, st\<lparr>nesting := nesting st - 1\<rparr>, True)
        else continue (st\<lparr>nesting := nesting st - 1\<rparr>)
      else continue st)"

definition rest :: "StreamingJsonCursor \<Rightarrow> ustring" where
  "rest c = drop (position c) (buffer c)"

text \<open>The accounting after a piece of \<open>n\<close> code units; \<open>len\<close> is the length of the value so far.\<close>

definition recordPiece :: "int \<Rightarrow> nat \<Rightarrow> StreamingJsonCursor \<Rightarrow> code + StreamingJsonCursor" where
  "recordPiece maxChars len c =
     (let c = c\<lparr>c_maxValueChars := max (c_maxValueChars c) len,
                c_maxBufferedChars := max (c_maxBufferedChars c) (len + length (buffer c) - position c)\<rparr> in
      if int len > maxChars then Inl ''CHANGE_LOG_VALUE_LIMIT'' else Inr c)"

lemma scanPiece_length: "scanPiece m mx st us = Inr (n, r, complete) \<Longrightarrow> n \<le> length us \<and> (\<not> complete \<longrightarrow> n = length us)"
proof (induction us arbitrary: st n r complete)
  case (Cons u us)
  then show ?case
    by (auto simp: Let_def bindE_eq_Inr split: if_splits dest!: Cons.IH)
qed simp

lemma remaining_asked [simp]: "remaining (c\<lparr>asked := n\<rparr>) = remaining c"
  by (simp add: remaining_def)

lemma recordPiece_Inr:
  "recordPiece mx len c = Inr c' \<Longrightarrow> int len \<le> mx \<and> buffer c' = buffer c \<and> position c' = position c \<and> source c' = source c \<and>
     dec c' = dec c \<and> ended c' = ended c \<and> decoderFlushed c' = decoderFlushed c"
  by (auto simp: recordPiece_def Let_def split: if_splits)

function readLoop ::
    "(nat \<Rightarrow> bool) \<Rightarrow> mode \<Rightarrow> int \<Rightarrow> int \<Rightarrow> ustring \<Rightarrow> scan \<Rightarrow> StreamingJsonCursor \<Rightarrow>
     code + (ustring \<times> StreamingJsonCursor)" where
  "readLoop aborted mode maxChars maxNest parts st c =
     bindE (ask aborted c) (\<lambda>c.
     bindE (fill aborted c) (\<lambda>(b, c).
       if \<not> b then
         if mode = PrimitiveMode \<and> length parts > 0 then Inr (parts, c) else Inl ''CHANGE_LOG_INVALID_JSON''
       else
         bindE (scanPiece mode maxNest st (rest c)) (\<lambda>(n, st, complete).
           let piece = take n (rest c); c = advance n c; parts = parts @ piece in
           bindE (if length piece > 0 then recordPiece maxChars (length parts) c else Inr c) (\<lambda>c.
             if complete then Inr (parts, c) else readLoop aborted mode maxChars maxNest parts st c))))"
  by pat_completeness auto
termination
proof (relation "measure (\<lambda>(aborted, mode, maxChars, maxNest, parts, st, c). remaining c)", goal_cases)
  case (2 aborted mode maxChars maxNest parts st c c1 bc b c2 q n r st' complete piece c3 ps c4)
  then have b: "remaining c2 \<le> remaining c" "position c2 < length (buffer c2)"
    by (auto simp: ask_Inr dest!: fill_Inr)
  have "n = length (rest c2)"
    using 2 scanPiece_length by auto
  then have "remaining (advance n c2) < remaining c2"
    using b(2) by (simp add: advance_def rest_def remaining_def)
  moreover have "remaining c4 = remaining (advance n c2)"
    using 2 by (auto simp: remaining_def dest!: recordPiece_Inr split: if_splits)
  ultimately show ?case using b(1) by simp
qed simp

declare readLoop.simps [simp del]

definition modeOf :: "nat \<Rightarrow> mode" where
  "modeOf u = (if u = 34 then StringMode else if u = 123 \<or> u = 91 then ContainerMode else PrimitiveMode)"

definition newScan :: scan where
  "newScan = \<lparr>inString = False, escaped = False, nesting = 0\<rparr>"

definition readRawValue ::
    "(nat \<Rightarrow> bool) \<Rightarrow> int \<Rightarrow> int \<Rightarrow> StreamingJsonCursor \<Rightarrow> code + (ustring \<times> StreamingJsonCursor)" where
  "readRawValue aborted maxChars maxNest c =
     bindE (skipWhitespace aborted c) (\<lambda>c.
     bindE (peek aborted c) (\<lambda>(first, c).
     bindE (required ''CHANGE_LOG_INVALID_JSON'' first) (\<lambda>u.
     bindE (readLoop aborted (modeOf u) maxChars maxNest [] newScan c) (\<lambda>(raw, c).
       if raw = [] then Inl ''CHANGE_LOG_INVALID_JSON'' else Inr (raw, c)))))"

section \<open>Duplicate properties\<close>

datatype container = ArrayContainer | ObjectContainer "ustring list"

text \<open>The loop to the closing quote: the literal after the opening quote, with the closing quote if
  there is one, and what follows.\<close>

fun spanString :: "bool \<Rightarrow> ustring \<Rightarrow> ustring \<times> ustring" where
  "spanString esc [] = ([], [])"
| "spanString esc (u # us) =
     (if \<not> esc \<and> u = 34 then ([u], us)
      else apfst ((#) u) (spanString (\<not> esc \<and> u = 92) us))"

lemma spanString_length: "length (snd (spanString esc us)) \<le> length us"
  by (induction us arbitrary: esc) (auto simp: le_SucI)

definition literalKey :: "(ustring \<Rightarrow> jsnum) \<Rightarrow> ustring \<Rightarrow> ustring option" where
  "literalKey fr literal = (case jsonParse fr literal of Some (JStr k) \<Rightarrow> Some k | _ \<Rightarrow> None)"

text \<open>The stack grows at the head of the list.\<close>

function duplicateLoop :: "(ustring \<Rightarrow> jsnum) \<Rightarrow> container list \<Rightarrow> ustring \<Rightarrow> code + unit" where
  "duplicateLoop fr stack [] = Inr ()"
| "duplicateLoop fr stack (u # us) =
     (if u = 123 then duplicateLoop fr (ObjectContainer [] # stack) us
      else if u = 91 then duplicateLoop fr (ArrayContainer # stack) us
      else if u = 125 \<or> u = 93 then duplicateLoop fr (tl stack) us
      else if u \<noteq> 34 then duplicateLoop fr stack us
      else
        let literal = u # fst (spanString False us); after = snd (spanString False us) in
        case (skipSpace after, stack) of
          (v # vs, ObjectContainer keys # outer) \<Rightarrow>
            if v \<noteq> 58 then duplicateLoop fr stack after
            else (case literalKey fr literal of
              None \<Rightarrow> duplicateLoop fr stack after
            | Some key \<Rightarrow>
                if key \<in> set keys then Inl ''CHANGE_LOG_DUPLICATE_PROPERTY''
                else duplicateLoop fr (ObjectContainer (key # keys) # outer) after)
        | _ \<Rightarrow> duplicateLoop fr stack after)"
  by pat_completeness auto
termination
  by (relation "measure (\<lambda>(fr, stack, s). length s)") (auto simp: less_Suc_eq_le spanString_length)

definition assertNoDuplicateJsonProperties :: "(ustring \<Rightarrow> jsnum) \<Rightarrow> ustring \<Rightarrow> code + unit" where
  "assertNoDuplicateJsonProperties fr raw = duplicateLoop fr [] raw"

definition parseRawJson :: "(ustring \<Rightarrow> jsnum) \<Rightarrow> ustring \<Rightarrow> code + jsval" where
  "parseRawJson fr raw =
     bindE (assertNoDuplicateJsonProperties fr raw) (\<lambda>_.
       required ''CHANGE_LOG_INVALID_JSON'' (jsonParse fr raw))"

definition asString :: "jsval \<Rightarrow> ustring option" where
  "asString v = (case v of JStr s \<Rightarrow> Some s | _ \<Rightarrow> None)"

definition readPropertyName ::
    "(ustring \<Rightarrow> jsnum) \<Rightarrow> (nat \<Rightarrow> bool) \<Rightarrow> ChangeLogCodecLimits \<Rightarrow> StreamingJsonCursor \<Rightarrow>
     code + (ustring \<times> StreamingJsonCursor)" where
  "readPropertyName fr aborted limits c =
     bindE (readRawValue aborted (min (maxHeaderValueChars limits) 65536) (maxNesting limits) c) (\<lambda>(raw, c).
     bindE (parseRawJson fr raw) (\<lambda>v.
     bindE (required ''CHANGE_LOG_INVALID_JSON'' (asString v)) (\<lambda>k. Inr (k, c))))"

section \<open>The scanner\<close>

datatype ChangeLogStreamEvent = EntryEvent NormalizedChangeLogEntry nat | CompleteEvent ChangeLogScanResult

text \<open>
  The object \<^verbatim>\<open>document\<close>: assigning \<^verbatim>\<open>__proto__\<close> sets its prototype (to an object, an array or
  \<^verbatim>\<open>null\<close>; other values are ignored), from which missing properties are then read.
\<close>

record document =
  own :: "(ustring \<times> jsval) list"
  proto :: "(ustring \<times> jsval) list"

definition newDocument :: document where
  "newDocument = \<lparr>own = [], proto = []\<rparr>"

definition assign :: "ustring \<Rightarrow> jsval \<Rightarrow> document \<Rightarrow> document" where
  "assign k v d =
     (if k = lit ''__proto__'' then (case v of JObj ps \<Rightarrow> d\<lparr>proto := ps\<rparr> | _ \<Rightarrow> d)
      else d\<lparr>own := setProp k v (own d)\<rparr>)"

definition documentFields :: "document \<Rightarrow> (ustring \<times> jsval) list" where
  "documentFields d = own d @ proto d"

text \<open>An entry is read, checked and accounted.\<close>

definition readEntry ::
    "(ustring \<Rightarrow> jsnum) \<Rightarrow> (nat \<Rightarrow> bool) \<Rightarrow> ChangeLogCodecLimits \<Rightarrow> nat \<Rightarrow> ChangeLogScanAccumulator \<Rightarrow> StreamingJsonCursor \<Rightarrow>
     code + ((NormalizedChangeLogEntry \<times> ChangeLogScanAccumulator) \<times> StreamingJsonCursor)" where
  "readEntry fr aborted limits index a c =
     bindE (readRawValue aborted (maxEntryChars limits) (maxNesting limits) c) (\<lambda>(raw, c).
     bindE (parseRawJson fr raw) (\<lambda>v.
     bindE (validateChangeLogJsonValue limits 0 v) (\<lambda>_.
     bindE (normalizeChangeLogEntry fr limits v) (\<lambda>entry.
     bindE (accumulatorAccept limits entry index a) (\<lambda>a. Inr ((entry, a), c))))))"

text \<open>After a value: the closing character ends the list, a comma must be followed by another value.\<close>

definition delimiter ::
    "(nat \<Rightarrow> bool) \<Rightarrow> nat \<Rightarrow> StreamingJsonCursor \<Rightarrow> code + (bool \<times> StreamingJsonCursor)" where
  "delimiter aborted close c =
     bindE (skipWhitespace aborted c) (\<lambda>c.
     bindE (take1 aborted c) (\<lambda>(u, c).
       if u = Some close then Inr (True, c)
       else if u \<noteq> Some 44 then Inl ''CHANGE_LOG_INVALID_JSON''
       else
         bindE (skipWhitespace aborted c) (\<lambda>c.
         bindE (peek aborted c) (\<lambda>(u, c).
           if u = Some close then Inl ''CHANGE_LOG_INVALID_JSON'' else Inr (False, c)))))"

definition headerValue ::
    "(ustring \<Rightarrow> jsnum) \<Rightarrow> (nat \<Rightarrow> bool) \<Rightarrow> ChangeLogCodecLimits \<Rightarrow> StreamingJsonCursor \<Rightarrow>
     code + (jsval \<times> StreamingJsonCursor)" where
  "headerValue fr aborted limits c =
     bindE (readRawValue aborted (maxHeaderValueChars limits) (maxNesting limits) c) (\<lambda>(raw, c).
     bindE (parseRawJson fr raw) (\<lambda>v.
     bindE (validateChangeLogJsonValue limits 0 v) (\<lambda>_. Inr (v, c))))"

subsection \<open>Generators\<close>

text \<open>A generator answers the events that it yields and its outcome.\<close>

type_synonym 'a gen = "ChangeLogStreamEvent list \<times> (code + 'a)"

definition liftG :: "code + 'a \<Rightarrow> 'a gen" where
  "liftG m = ([], m)"

definition bindG :: "'a gen \<Rightarrow> ('a \<Rightarrow> 'b gen) \<Rightarrow> 'b gen" where
  "bindG m f = (case snd m of Inl e \<Rightarrow> (fst m, Inl e) | Inr a \<Rightarrow> apfst ((@) (fst m)) (f a))"

definition yield :: "ChangeLogStreamEvent \<Rightarrow> unit gen" where
  "yield e = ([e], Inr ())"

lemma bindG_cong [fundef_cong]:
  "m = m' \<Longrightarrow> (\<And>a. snd m' = Inr a \<Longrightarrow> f a = g a) \<Longrightarrow> bindG m f = bindG m' g"
  by (auto simp: bindG_def split: sum.splits)

lemma snd_bindG_Inr: "snd (bindG m f) = Inr b \<longleftrightarrow> (\<exists>a. snd m = Inr a \<and> snd (f a) = Inr b)"
  by (auto simp: bindG_def split: sum.splits)

lemma snd_liftG [simp]: "snd (liftG m) = m"
  by (simp add: liftG_def)

lemma snd_yield [simp]: "snd (yield e) = Inr ()"
  by (simp add: yield_def)

subsection \<open>The loops consume the source\<close>

lemma skipWhitespace_le: "skipWhitespace aborted c = Inr c' \<Longrightarrow> remaining c' \<le> remaining c"
proof (induction aborted c rule: skipWhitespace.induct)
  case (1 aborted c)
  then obtain u c1 where p: "peek aborted c = Inr (u, c1)"
    and c': "c' = c1 \<or> (u = Some 32 \<or> u = Some 10 \<or> u = Some 13 \<or> u = Some 9) \<and> skipWhitespace aborted (advance 1 c1) = Inr c'"
    by (auto simp: skipWhitespace.simps [of aborted c] bindE_eq_Inr split: if_splits)
  then show ?case
    using peek_Inr [OF p] 1(1) [OF p refl] advance_less [of c1 "remaining c"] by (fastforce split: option.splits)
qed

lemma readLoop_remaining:
  "readLoop aborted m mc mn parts st c = Inr (raw, c') \<Longrightarrow> remaining c' + length raw \<le> remaining c + length parts"
proof (induction aborted m mc mn parts st c rule: readLoop.induct)
  case (1 aborted m mc mn parts st c)
  obtain c1 b c2 where a: "ask aborted c = Inr c1" and f: "fill aborted c1 = Inr (b, c2)"
    using 1(2) by (auto simp: readLoop.simps [of aborted m mc mn parts st c] bindE_eq_Inr)
  have le: "remaining c2 \<le> remaining c" using a f by (auto simp: ask_Inr dest!: fill_Inr)
  show ?case
  proof (cases b)
    case False
    then show ?thesis using 1(2) a f le
      by (auto simp: readLoop.simps [of aborted m mc mn parts st c] split: if_splits)
  next
    case True
    obtain n st' complete where sp: "scanPiece m mn st (rest c2) = Inr (n, st', complete)"
      using 1(2) a f True by (auto simp: readLoop.simps [of aborted m mc mn parts st c] bindE_eq_Inr)
    define ps where "ps = parts @ take n (rest c2)"
    obtain c4 where c4: "(if length (take n (rest c2)) > 0 then recordPiece mc (length ps) (advance n c2) else Inr (advance n c2)) = Inr c4"
      and out: "if complete then raw = ps \<and> c' = c4 else readLoop aborted m mc mn ps st' c4 = Inr (raw, c')"
      using 1(2) a f True sp
      by (auto simp: readLoop.simps [of aborted m mc mn parts st c] bindE_eq_Inr Let_def ps_def split: if_splits)
    have n: "n \<le> length (buffer c2) - position c2"
      using scanPiece_length [OF sp] by (simp add: rest_def)
    have r4: "remaining c4 = remaining c2 - n"
      using c4 n by (auto simp: remaining_def advance_def dest!: recordPiece_Inr split: if_splits)
    moreover have "length ps = length parts + n" "n \<le> remaining c2"
      using n by (auto simp: ps_def rest_def remaining_def)
    ultimately show ?thesis
      using out le 1(1) [OF a f refl _ sp refl refl _ _ _ c4 [unfolded ps_def]] True
      by (cases complete) (auto simp: ps_def)
  qed
qed

lemma readRawValue_less: "readRawValue aborted mc mn c = Inr (raw, c') \<Longrightarrow> remaining c' < remaining c"
  unfolding readRawValue_def
  by (auto simp: bindE_eq_Inr split: if_splits dest!: skipWhitespace_le peek_Inr readLoop_remaining) 
    (metis add_leE le_neq_implies_less le_trans length_greater_0_conv less_add_same_cancel1 not_less)

lemma take1_le: "take1 aborted c = Inr (u, c') \<Longrightarrow> remaining c' \<le> remaining c"
  by (drule take1_Inr) (auto split: option.splits)

lemma peek_le: "peek aborted c = Inr (u, c') \<Longrightarrow> remaining c' \<le> remaining c"
  by (drule peek_Inr) simp

lemma expect_le: "expect aborted e c = Inr c' \<Longrightarrow> remaining c' \<le> remaining c"
  unfolding expect_def
  by (auto simp: bindE_eq_Inr split: if_splits dest!: skipWhitespace_le take1_le)

lemma delimiter_le: "delimiter aborted e c = Inr (b, c') \<Longrightarrow> remaining c' \<le> remaining c"
  unfolding delimiter_def
  by (auto simp: bindE_eq_Inr split: if_splits dest!: skipWhitespace_le take1_le peek_le)

lemma readPropertyName_less: "readPropertyName fr aborted limits c = Inr (k, c') \<Longrightarrow> remaining c' < remaining c"
  unfolding readPropertyName_def by (auto simp: bindE_eq_Inr dest!: readRawValue_less)

lemma readEntry_less: "readEntry fr aborted limits i a c = Inr ((e, a'), c') \<Longrightarrow> remaining c' < remaining c"
  unfolding readEntry_def by (auto simp: bindE_eq_Inr dest!: readRawValue_less)

lemma headerValue_less: "headerValue fr aborted limits c = Inr (v, c') \<Longrightarrow> remaining c' < remaining c"
  unfolding headerValue_def by (auto simp: bindE_eq_Inr dest!: readRawValue_less)

subsection \<open>The generator\<close>

function entryLoop ::
    "(ustring \<Rightarrow> jsnum) \<Rightarrow> (nat \<Rightarrow> bool) \<Rightarrow> ChangeLogCodecLimits \<Rightarrow> nat \<Rightarrow> ChangeLogScanAccumulator \<Rightarrow> StreamingJsonCursor \<Rightarrow>
     (ChangeLogScanAccumulator \<times> StreamingJsonCursor) gen" where
  "entryLoop fr aborted limits index a c =
     bindG (liftG (readEntry fr aborted limits index a c)) (\<lambda>(r, c). case r of (entry, a) \<Rightarrow>
     bindG (yield (EntryEvent entry index)) (\<lambda>_.
     bindG (liftG (delimiter aborted 93 c)) (\<lambda>(closed, c).
       if closed then liftG (Inr (a, c)) else entryLoop fr aborted limits (index + 1) a c)))"
  by pat_completeness auto
termination
  by (relation "measure (\<lambda>(fr, aborted, limits, index, a, c). remaining c)")
    (auto dest!: readEntry_less delimiter_le)

declare entryLoop.simps [simp del]

definition changesArray ::
    "(ustring \<Rightarrow> jsnum) \<Rightarrow> (nat \<Rightarrow> bool) \<Rightarrow> ChangeLogCodecLimits \<Rightarrow> ChangeLogScanAccumulator \<Rightarrow> StreamingJsonCursor \<Rightarrow>
     (ChangeLogScanAccumulator \<times> StreamingJsonCursor) gen" where
  "changesArray fr aborted limits a c =
     bindG (liftG (expect aborted 91 c)) (\<lambda>c.
     bindG (liftG (skipWhitespace aborted c)) (\<lambda>c.
     bindG (liftG (peek aborted c)) (\<lambda>(u, c).
       if u = Some 93 then bindG (liftG (take1 aborted c)) (\<lambda>(_, c). liftG (Inr (a, c)))
       else entryLoop fr aborted limits 0 a c)))"

lemma entryLoop_le:
  "snd (entryLoop fr aborted limits i a c) = Inr (a', c') \<Longrightarrow> remaining c' \<le> remaining c"
proof (induction fr aborted limits i a c rule: entryLoop.induct)
  case (1 fr aborted limits i a c)
  from 1(2) obtain e a1 c1 closed c2 where r: "readEntry fr aborted limits i a c = Inr ((e, a1), c1)"
    and d: "delimiter aborted 93 c1 = Inr (closed, c2)"
    and out: "closed \<and> c' = c2 \<or> \<not> closed \<and> snd (entryLoop fr aborted limits (i + 1) a1 c2) = Inr (a', c')"
    by (auto simp: entryLoop.simps [of fr aborted limits i a c] snd_bindG_Inr split: if_splits)
  show ?case
    using out readEntry_less [OF r] delimiter_le [OF d]
      1(1) [of "((e, a1), c1)" "(e, a1)" c1 e a1 "()" "(closed, c2)" closed c2] r d
    by auto
qed

lemma changesArray_le:
  "snd (changesArray fr aborted limits a c) = Inr (a', c') \<Longrightarrow> remaining c' \<le> remaining c"
  unfolding changesArray_def
  by (auto simp: snd_bindG_Inr split: if_splits dest!: expect_le skipWhitespace_le peek_le take1_le entryLoop_le)

text \<open>One value after the colon: the entries, or a property of the header.\<close>

definition propertyValue ::
    "(ustring \<Rightarrow> jsnum) \<Rightarrow> (nat \<Rightarrow> bool) \<Rightarrow> ChangeLogCodecLimits \<Rightarrow> ustring \<Rightarrow> bool \<Rightarrow> document \<Rightarrow> ChangeLogScanAccumulator \<Rightarrow>
     StreamingJsonCursor \<Rightarrow> ((bool \<times> document \<times> ChangeLogScanAccumulator) \<times> StreamingJsonCursor) gen" where
  "propertyValue fr aborted limits property sawChanges doc a c =
     (if property = lit ''changes'' then
        bindG (changesArray fr aborted limits a c) (\<lambda>(a, c). liftG (Inr ((True, doc, a), c)))
      else
        bindG (liftG (headerValue fr aborted limits c)) (\<lambda>(v, c).
          liftG (Inr ((sawChanges, assign property v doc, a), c))))"

lemma propertyValue_le:
  "snd (propertyValue fr aborted limits k saw doc a c) = Inr ((saw', doc', a'), c') \<Longrightarrow> remaining c' \<le> remaining c"
  unfolding propertyValue_def
  by (auto simp: snd_bindG_Inr split: if_splits dest!: changesArray_le headerValue_less)

function propertyLoop ::
    "(ustring \<Rightarrow> jsnum) \<Rightarrow> (nat \<Rightarrow> bool) \<Rightarrow> ChangeLogCodecLimits \<Rightarrow> ustring list \<Rightarrow> bool \<Rightarrow> document \<Rightarrow>
     ChangeLogScanAccumulator \<Rightarrow> StreamingJsonCursor \<Rightarrow>
     ((bool \<times> document \<times> ChangeLogScanAccumulator) \<times> StreamingJsonCursor) gen" where
  "propertyLoop fr aborted limits seenProperties sawChanges doc a c =
     bindG (liftG (ask aborted c)) (\<lambda>c.
     bindG (liftG (readPropertyName fr aborted limits c)) (\<lambda>(property, c).
     bindG (liftG (orFail (property \<notin> set seenProperties) ''CHANGE_LOG_DUPLICATE_PROPERTY'')) (\<lambda>_.
     bindG (liftG (expect aborted 58 c)) (\<lambda>c.
     bindG (propertyValue fr aborted limits property sawChanges doc a c) (\<lambda>(r, c). case r of (sawChanges, doc, a) \<Rightarrow>
     bindG (liftG (delimiter aborted 125 c)) (\<lambda>(closed, c).
       if closed then liftG (Inr ((sawChanges, doc, a), c))
       else propertyLoop fr aborted limits (property # seenProperties) sawChanges doc a c))))))"
  by pat_completeness auto
termination
  by (relation "measure (\<lambda>(fr, aborted, limits, seen, saw, doc, a, c). remaining c)")
    (auto simp: ask_Inr dest!: readPropertyName_less expect_le propertyValue_le delimiter_le)

declare propertyLoop.simps [simp del]

definition scanProperties ::
    "(ustring \<Rightarrow> jsnum) \<Rightarrow> (nat \<Rightarrow> bool) \<Rightarrow> ChangeLogCodecLimits \<Rightarrow> StreamingJsonCursor \<Rightarrow>
     ((bool \<times> document \<times> ChangeLogScanAccumulator) \<times> StreamingJsonCursor) gen" where
  "scanProperties fr aborted limits c =
     bindG (liftG (expect aborted 123 c)) (\<lambda>c.
     bindG (liftG (skipWhitespace aborted c)) (\<lambda>c.
     bindG (liftG (peek aborted c)) (\<lambda>(u, c).
       if u = Some 125 then
         bindG (liftG (take1 aborted c)) (\<lambda>(_, c). liftG (Inr ((False, newDocument, newAccumulator), c)))
       else propertyLoop fr aborted limits [] False newDocument newAccumulator c)))"

definition scanChangeLogJson ::
    "(ustring \<Rightarrow> jsnum) \<Rightarrow> (nat \<Rightarrow> bool) \<Rightarrow> (ustring \<times> jsval) list \<Rightarrow> chunk list \<Rightarrow> unit gen" where
  "scanChangeLogJson fr aborted overrides src =
     bindG (liftG (resolveChangeLogCodecLimits overrides)) (\<lambda>limits.
     bindG (scanProperties fr aborted limits (newCursor src)) (\<lambda>(r, c). case r of (sawChanges, doc, a) \<Rightarrow>
     bindG (liftG (orFail sawChanges ''CHANGE_LOG_INVALID_DOCUMENT'')) (\<lambda>_.
     bindG (liftG (skipWhitespace aborted c)) (\<lambda>c.
     bindG (liftG (peek aborted c)) (\<lambda>(u, c).
     bindG (liftG (orFail (u = None) ''CHANGE_LOG_TRAILING_DATA'')) (\<lambda>_.
     bindG (liftG (accumulatorFinish limits (documentFields doc) (diagnostics c) a)) (\<lambda>result.
       yield (CompleteEvent result))))))))"

fun completeResult :: "ChangeLogStreamEvent list \<Rightarrow> ChangeLogScanResult option \<Rightarrow> ChangeLogScanResult option" where
  "completeResult [] result = result"
| "completeResult (CompleteEvent r # es) result = completeResult es (Some r)"
| "completeResult (EntryEvent e i # es) result = completeResult es result"

definition scanChangeLogJsonToResult ::
    "(ustring \<Rightarrow> jsnum) \<Rightarrow> (nat \<Rightarrow> bool) \<Rightarrow> (ustring \<times> jsval) list \<Rightarrow> chunk list \<Rightarrow> code + ChangeLogScanResult" where
  "scanChangeLogJsonToResult fr aborted overrides src =
     (case scanChangeLogJson fr aborted overrides src of
        (es, Inl e) \<Rightarrow> Inl e
      | (es, Inr _) \<Rightarrow> required ''CHANGE_LOG_INCOMPLETE_SCAN'' (completeResult es None))"

end
