(* ===== verification/Change_Log_Scan.thy ===== *)
theory Change_Log_Scan
  imports Change_Log_Stream
begin

text \<open>
  What the streaming scanner computes. A scanner on the whole text is the specification; the
  cursor over chunks refines it operation by operation, whatever the chunks are and wherever they
  cut a character (\<open>agrees\<close>). The text scanner in turn agrees with parsing the
  whole text by \<^verbatim>\<open>JSON.parse\<close> and normalising the document.
\<close>

section \<open>The scanner on whole text\<close>

text \<open>
  The specification: the same document read from the whole text, with no chunks, buffers or
  cancellation. A reader answers its value and the text that is left, or fails.
\<close>

definition tRaw :: "int \<Rightarrow> int \<Rightarrow> ustring \<Rightarrow> (ustring \<times> ustring) option" where
  "tRaw maxChars maxNest t =
     (let t = skipSpace t in
      case t of [] \<Rightarrow> None
      | u # us \<Rightarrow>
          (case scanPiece (modeOf u) maxNest newScan t of
             Inl e \<Rightarrow> None
           | Inr (n, st, complete) \<Rightarrow>
               if n = 0 \<or> int n > maxChars \<or> \<not> complete \<and> modeOf u \<noteq> PrimitiveMode then None
               else Some (take n t, drop n t)))"

definition startsWith :: "nat \<Rightarrow> ustring \<Rightarrow> bool" where
  "startsWith u t \<longleftrightarrow> t \<noteq> [] \<and> hd t = u"

definition tExpect :: "nat \<Rightarrow> ustring \<Rightarrow> ustring option" where
  "tExpect e t = (case skipSpace t of [] \<Rightarrow> None | u # us \<Rightarrow> if u = e then Some us else None)"

definition tDelimiter :: "nat \<Rightarrow> ustring \<Rightarrow> (bool \<times> ustring) option" where
  "tDelimiter close t =
     (case skipSpace t of
        [] \<Rightarrow> None
      | u # us \<Rightarrow>
          if u = close then Some (True, us)
          else if u \<noteq> 44 \<or> startsWith close (skipSpace us) then None
          else Some (False, skipSpace us))"

definition succeed :: "code + 'a \<Rightarrow> 'a option" where
  "succeed m = (case m of Inl e \<Rightarrow> None | Inr a \<Rightarrow> Some a)"

definition tName :: "(ustring \<Rightarrow> jsnum) \<Rightarrow> ChangeLogCodecLimits \<Rightarrow> ustring \<Rightarrow> (ustring \<times> ustring) option" where
  "tName fr limits t =
     Option.bind (tRaw (min (maxHeaderValueChars limits) 65536) (maxNesting limits) t) (\<lambda>(raw, t).
     Option.bind (succeed (parseRawJson fr raw)) (\<lambda>v.
     Option.bind (asString v) (\<lambda>k. Some (k, t))))"

definition tEntry ::
    "(ustring \<Rightarrow> jsnum) \<Rightarrow> ChangeLogCodecLimits \<Rightarrow> nat \<Rightarrow> ChangeLogScanAccumulator \<Rightarrow> ustring \<Rightarrow>
     ((NormalizedChangeLogEntry \<times> ChangeLogScanAccumulator) \<times> ustring) option" where
  "tEntry fr limits index a t =
     Option.bind (tRaw (maxEntryChars limits) (maxNesting limits) t) (\<lambda>(raw, t).
     Option.bind (succeed (parseRawJson fr raw)) (\<lambda>v.
     Option.bind (succeed (validateChangeLogJsonValue limits 0 v)) (\<lambda>_.
     Option.bind (succeed (normalizeChangeLogEntry fr limits v)) (\<lambda>entry.
     Option.bind (succeed (accumulatorAccept limits entry index a)) (\<lambda>a. Some ((entry, a), t))))))"

definition tHeader :: "(ustring \<Rightarrow> jsnum) \<Rightarrow> ChangeLogCodecLimits \<Rightarrow> ustring \<Rightarrow> (jsval \<times> ustring) option" where
  "tHeader fr limits t =
     Option.bind (tRaw (maxHeaderValueChars limits) (maxNesting limits) t) (\<lambda>(raw, t).
     Option.bind (succeed (parseRawJson fr raw)) (\<lambda>v.
     Option.bind (succeed (validateChangeLogJsonValue limits 0 v)) (\<lambda>_. Some (v, t))))"

lemma skipSpace_length: "length (skipSpace t) \<le> length t"
  by (simp add: skipSpace_def length_dropWhile_le)

lemma tRaw_less: "tRaw mc mn t = Some (raw, t') \<Longrightarrow> length t' < length t"
  using skipSpace_length [of t] by (auto simp: tRaw_def Let_def split: list.splits sum.splits prod.splits if_splits)

lemma tDelimiter_le: "tDelimiter e t = Some (b, t') \<Longrightarrow> length t' \<le> length t"
  using skipSpace_length [of t] skipSpace_length [of "tl (skipSpace t)"]
  by (auto simp: tDelimiter_def split: list.splits if_splits)

lemma tExpect_le: "tExpect e t = Some t' \<Longrightarrow> length t' \<le> length t"
  using skipSpace_length [of t] by (auto simp: tExpect_def split: list.splits if_splits)

lemma tEntry_less: "tEntry fr limits i a t = Some (x, t') \<Longrightarrow> length t' < length t"
  unfolding tEntry_def by (auto simp: bind_Some dest!: tRaw_less)

lemma tName_less: "tName fr limits t = Some (x, t') \<Longrightarrow> length t' < length t"
  unfolding tName_def by (auto simp: bind_Some dest!: tRaw_less)

lemma tHeader_less: "tHeader fr limits t = Some (x, t') \<Longrightarrow> length t' < length t"
  unfolding tHeader_def by (auto simp: bind_Some dest!: tRaw_less)

lemma option_bind_cong [fundef_cong]:
  "m = m' \<Longrightarrow> (\<And>a. m' = Some a \<Longrightarrow> f a = g a) \<Longrightarrow> Option.bind m f = Option.bind m' g"
  by (cases m') auto

function tEntries ::
    "(ustring \<Rightarrow> jsnum) \<Rightarrow> ChangeLogCodecLimits \<Rightarrow> nat \<Rightarrow> ChangeLogScanAccumulator \<Rightarrow> ustring \<Rightarrow>
     ((ChangeLogStreamEvent list \<times> ChangeLogScanAccumulator) \<times> ustring) option" where
  "tEntries fr limits index a t =
     Option.bind (tEntry fr limits index a t) (\<lambda>(r, t). case r of (entry, a) \<Rightarrow>
     Option.bind (tDelimiter 93 t) (\<lambda>(closed, t).
       if closed then Some (([EntryEvent entry index], a), t)
       else Option.bind (tEntries fr limits (index + 1) a t) (\<lambda>(r, t). Some ((EntryEvent entry index # fst r, snd r), t))))"
  by pat_completeness auto
termination
  by (relation "measure (\<lambda>(fr, limits, index, a, t). length t)") (auto dest!: tEntry_less tDelimiter_le)

declare tEntries.simps [simp del]

lemma tEntries_le: "tEntries fr limits i a t = Some (x, t') \<Longrightarrow> length t' \<le> length t"
proof (induction fr limits i a t arbitrary: x rule: tEntries.induct)
  case (1 fr limits i a t)
  from 1(2) obtain e a1 t1 closed t2 where r: "tEntry fr limits i a t = Some ((e, a1), t1)"
    and d: "tDelimiter 93 t1 = Some (closed, t2)"
    and out: "closed \<and> t' = t2 \<or> \<not> closed \<and> (\<exists>y. tEntries fr limits (i + 1) a1 t2 = Some (y, t'))"
    by (auto simp: tEntries.simps [of fr limits i a t] bind_Some split: if_splits)
  show ?case
    using out tEntry_less [OF r] tDelimiter_le [OF d] 1(1) [OF r refl refl d refl] by fastforce
qed

definition tChanges ::
    "(ustring \<Rightarrow> jsnum) \<Rightarrow> ChangeLogCodecLimits \<Rightarrow> ChangeLogScanAccumulator \<Rightarrow> ustring \<Rightarrow>
     ((ChangeLogStreamEvent list \<times> ChangeLogScanAccumulator) \<times> ustring) option" where
  "tChanges fr limits a t =
     Option.bind (tExpect 91 t) (\<lambda>t.
       if startsWith 93 (skipSpace t) then Some (([], a), tl (skipSpace t))
       else tEntries fr limits 0 a (skipSpace t))"

definition tValue ::
    "(ustring \<Rightarrow> jsnum) \<Rightarrow> ChangeLogCodecLimits \<Rightarrow> ustring \<Rightarrow> bool \<Rightarrow> document \<Rightarrow> ChangeLogScanAccumulator \<Rightarrow> ustring \<Rightarrow>
     ((ChangeLogStreamEvent list \<times> bool \<times> document \<times> ChangeLogScanAccumulator) \<times> ustring) option" where
  "tValue fr limits k saw doc a t =
     (if k = lit ''changes'' then Option.bind (tChanges fr limits a t) (\<lambda>(r, t). Some ((fst r, True, doc, snd r), t))
      else Option.bind (tHeader fr limits t) (\<lambda>(v, t). Some (([], saw, assign k v doc, a), t)))"

lemma tChanges_le: "tChanges fr limits a t = Some (x, t') \<Longrightarrow> length t' \<le> length t"
proof -
  assume "tChanges fr limits a t = Some (x, t')"
  then obtain t1 where t1: "tExpect 91 t = Some t1"
    and "t' = tl (skipSpace t1) \<or> (\<exists>y. tEntries fr limits 0 a (skipSpace t1) = Some (y, t'))"
    by (auto simp: tChanges_def bind_Some split: if_splits)
  then have "length t' \<le> length (skipSpace t1)"
    by (auto dest: tEntries_le)
  then show ?thesis
    using tExpect_le [OF t1] skipSpace_length [of t1] by linarith
qed

lemma tValue_le: "tValue fr limits k saw doc a t = Some (x, t') \<Longrightarrow> length t' \<le> length t"
  unfolding tValue_def by (auto simp: bind_Some split: if_splits dest!: tChanges_le tHeader_less)

function tProps ::
    "(ustring \<Rightarrow> jsnum) \<Rightarrow> ChangeLogCodecLimits \<Rightarrow> ustring list \<Rightarrow> bool \<Rightarrow> document \<Rightarrow> ChangeLogScanAccumulator \<Rightarrow> ustring \<Rightarrow>
     ((ChangeLogStreamEvent list \<times> bool \<times> document \<times> ChangeLogScanAccumulator) \<times> ustring) option" where
  "tProps fr limits seen saw doc a t =
     Option.bind (tName fr limits t) (\<lambda>(k, t).
     if k \<in> set seen then None
     else
       Option.bind (tExpect 58 t) (\<lambda>t.
       Option.bind (tValue fr limits k saw doc a t) (\<lambda>(r, t). case r of (es, saw, doc, a) \<Rightarrow>
       Option.bind (tDelimiter 125 t) (\<lambda>(closed, t).
         if closed then Some ((es, saw, doc, a), t)
         else Option.bind (tProps fr limits (k # seen) saw doc a t) (\<lambda>(r, t). Some ((es @ fst r, snd r), t))))))"
  by pat_completeness auto
termination
  by (relation "measure (\<lambda>(fr, limits, seen, saw, doc, a, t). length t)")
    (auto dest!: tName_less tExpect_le tValue_le tDelimiter_le)

declare tProps.simps [simp del]

definition tDocument ::
    "(ustring \<Rightarrow> jsnum) \<Rightarrow> ChangeLogCodecLimits \<Rightarrow> ustring \<Rightarrow>
     ((ChangeLogStreamEvent list \<times> bool \<times> document \<times> ChangeLogScanAccumulator) \<times> ustring) option" where
  "tDocument fr limits t =
     Option.bind (tExpect 123 t) (\<lambda>t.
       if startsWith 125 (skipSpace t) then Some (([], False, newDocument, newAccumulator), tl (skipSpace t))
       else tProps fr limits [] False newDocument newAccumulator (skipSpace t))"

definition tScan ::
    "(ustring \<Rightarrow> jsnum) \<Rightarrow> ChangeLogCodecLimits \<Rightarrow> ustring \<Rightarrow>
     (ChangeLogStreamEvent list \<times> document \<times> ChangeLogScanAccumulator) option" where
  "tScan fr limits t =
     Option.bind (tDocument fr limits t) (\<lambda>(r, t). case r of (es, saw, doc, a) \<Rightarrow>
       if saw \<and> skipSpace t = [] then Some (es, doc, a) else None)"

section \<open>The cursor refines the text\<close>

text \<open>The text that the chunks still hold, if they decode.\<close>

fun restText :: "decoder \<Rightarrow> chunk list \<Rightarrow> ustring option" where
  "restText d [] = decodeFlush d"
| "restText d (Text t # cs) = map_option ((@) t) (restText d cs)"
| "restText d (Bytes bs # cs) =
     (case decodeStream bs d of None \<Rightarrow> None | Some (t, d') \<Rightarrow> map_option ((@) t) (restText d' cs))"

definition sourceText :: "chunk list \<Rightarrow> ustring option" where
  "sourceText src = restText newDecoder src"

definition textOf :: "StreamingJsonCursor \<Rightarrow> ustring option" where
  "textOf c = (if ended c then Some (rest c) else map_option ((@) (rest c)) (restText (dec c) (source c)))"

definition cursorOk :: "StreamingJsonCursor \<Rightarrow> bool" where
  "cursorOk c \<longleftrightarrow> (decoderFlushed c \<longrightarrow> ended c)"

abbreviation never :: "nat \<Rightarrow> bool" where
  "never \<equiv> \<lambda>_. False"

lemma map_append_Nil [simp]: "map_option ((@) []) x = x"
  by (cases x) simp_all

lemma cursor_new: "cursorOk (newCursor src)" "textOf (newCursor src) = sourceText src"
  by (simp_all add: cursorOk_def textOf_def newCursor_def rest_def sourceText_def map_append_Nil)

lemma ask_never [simp]: "ask never c = Inr (c\<lparr>asked := asked c + 1\<rparr>)"
  by (simp add: ask_Inr)

lemma asked_update [simp]:
  "textOf (c\<lparr>asked := n\<rparr>) = textOf c" "cursorOk (c\<lparr>asked := n\<rparr>) = cursorOk c" "rest (c\<lparr>asked := n\<rparr>) = rest c"
  by (simp_all add: textOf_def cursorOk_def rest_def)

lemma nextChunk_text:
  assumes "rest c = []" "\<not> ended c" "cursorOk c" "source c = ch # cs"
  shows "case nextChunk ch (c\<lparr>source := cs\<rparr>) of
      Inl e \<Rightarrow> textOf c = None | Inr c' \<Rightarrow> cursorOk c' \<and> textOf c' = textOf c"
  using assms
  by (auto simp: nextChunk_def textOf_def cursorOk_def rest_def map_append_Nil split: chunk.splits option.splits)

lemma fill_text:
  "aborted = never \<Longrightarrow> cursorOk c \<Longrightarrow>
   case fill aborted c of Inl e \<Rightarrow> textOf c = None
   | Inr (b, c') \<Rightarrow> cursorOk c' \<and> textOf c' = textOf c \<and> (b \<longleftrightarrow> rest c' \<noteq> []) \<and> (\<not> b \<longrightarrow> textOf c' = Some [])"
proof (induction aborted c rule: fill.induct)
  case (1 aborted c)
  show ?case
  proof (cases "position c \<ge> length (buffer c) \<and> \<not> ended c")
    case False
    then show ?thesis using 1(2,3) by (auto simp: fill.simps [of _ c] textOf_def rest_def)
  next
    case True
    then have r: "rest c = []" "\<not> ended c" by (simp_all add: rest_def)
    define c1 where "c1 = c\<lparr>asked := asked c + 1\<rparr>"
    have a: "ask aborted c = Inr c1" using 1(2) by (simp add: c1_def)
    have t1: "textOf c1 = textOf c" "rest c1 = []" "cursorOk c1" "\<not> ended c1" using r 1(3) by (simp_all add: c1_def)
    show ?thesis
    proof (cases "source c1")
      case Nil
      have tt: "textOf c = decodeFlush (dec c1)"
        using t1(2,4) Nil unfolding t1(1) [symmetric] by (simp add: textOf_def)
      have "\<not> decoderFlushed c1" using t1 by (simp add: cursorOk_def)
      then show ?thesis
        using True a Nil
        by (cases "d_needed (dec c1) = 0")
          (auto simp: fill.simps [of aborted c] tt decodeFlush_def required_simps cursorOk_def
            textOf_def [of "setBuffer _ _"] rest_def)
    next
      case (Cons ch cs)
      note n = nextChunk_text [OF t1(2,4,3) Cons]
      show ?thesis
      proof (cases "nextChunk ch (c1\<lparr>source := cs\<rparr>)")
        case (Inl e)
        then show ?thesis using n True a Cons t1(1) by (simp add: fill.simps [of aborted c])
      next
        case (Inr c2)
        then have "cursorOk c2" "textOf c2 = textOf c" using n t1(1) by simp_all
        then show ?thesis
          using 1(1) [OF True a Cons Inr 1(2)] True a Cons Inr
          by (auto simp: fill.simps [of aborted c] split: sum.splits)
      qed
    qed
  qed
qed

text \<open>
  An operation of the cursor agrees with a reader of text: it fails when the reader fails or the
  chunks do not decode, and otherwise answers the same and leaves the same text.
\<close>

definition agrees ::
    "code + ('a \<times> StreamingJsonCursor) \<Rightarrow> ustring option \<Rightarrow> (ustring \<Rightarrow> ('a \<times> ustring) option) \<Rightarrow> bool" where
  "agrees m ot f = (case m of
     Inl e \<Rightarrow> (\<forall>t. ot = Some t \<longrightarrow> f t = None)
   | Inr (a, c) \<Rightarrow> cursorOk c \<and>
       (case ot of None \<Rightarrow> textOf c = None | Some t \<Rightarrow> \<exists>t'. f t = Some (a, t') \<and> textOf c = Some t'))"

definition agreesU :: "code + StreamingJsonCursor \<Rightarrow> ustring option \<Rightarrow> (ustring \<Rightarrow> ustring option) \<Rightarrow> bool" where
  "agreesU m ot f = (case m of
     Inl e \<Rightarrow> (\<forall>t. ot = Some t \<longrightarrow> f t = None)
   | Inr c \<Rightarrow> cursorOk c \<and> (case ot of None \<Rightarrow> textOf c = None | Some t \<Rightarrow> \<exists>t'. f t = Some t' \<and> textOf c = Some t'))"

lemma agrees_Inl: "(\<And>t. ot = Some t \<Longrightarrow> f t = None) \<Longrightarrow> agrees (Inl e) ot f"
  by (simp add: agrees_def)

lemma agrees_return: "cursorOk c \<Longrightarrow> agrees (Inr (a, c)) (textOf c) (\<lambda>t. Some (a, t))"
  by (simp add: agrees_def split: option.splits)

lemma agreesU_return: "cursorOk c \<Longrightarrow> agreesU (Inr c) (textOf c) Some"
  by (simp add: agreesU_def split: option.splits)

lemma agrees_bind:
  assumes "agrees m ot f"
    and "\<And>a c. m = Inr (a, c) \<Longrightarrow> cursorOk c \<Longrightarrow> agrees (g (a, c)) (textOf c) (h a)"
  shows "agrees (bindE m g) ot (\<lambda>t. Option.bind (f t) (\<lambda>(a, t). h a t))"
proof (cases m)
  case (Inl e)
  then show ?thesis using assms(1) by (simp add: agrees_def)
next
  case (Inr p)
  then obtain a c where m: "m = Inr (a, c)" by (cases p) simp
  then show ?thesis
    using assms(1) assms(2) [OF m] by (auto simp: agrees_def split: sum.splits option.splits)
qed

lemma agreesU_bind:
  assumes "agreesU m ot f" and "\<And>c. m = Inr c \<Longrightarrow> cursorOk c \<Longrightarrow> agrees (g c) (textOf c) h"
  shows "agrees (bindE m g) ot (\<lambda>t. Option.bind (f t) h)"
  using assms by (cases m) (auto simp: agrees_def agreesU_def split: sum.splits option.splits)

lemma agreesU_bindU:
  assumes "agreesU m ot f" and "\<And>c. m = Inr c \<Longrightarrow> cursorOk c \<Longrightarrow> agreesU (g c) (textOf c) h"
  shows "agreesU (bindE m g) ot (\<lambda>t. Option.bind (f t) h)"
  using assms by (cases m) (auto simp: agreesU_def split: sum.splits option.splits)

lemma agrees_bindU:
  assumes "agrees m ot f"
    and "\<And>a c. m = Inr (a, c) \<Longrightarrow> cursorOk c \<Longrightarrow> agreesU (g (a, c)) (textOf c) (h a)"
  shows "agreesU (bindE m g) ot (\<lambda>t. Option.bind (f t) (\<lambda>(a, t). h a t))"
proof (cases m)
  case (Inl e)
  then show ?thesis using assms(1) by (simp add: agrees_def agreesU_def)
next
  case (Inr p)
  then obtain a c where m: "m = Inr (a, c)" by (cases p) simp
  then show ?thesis
    using assms(1) assms(2) [OF m] by (auto simp: agrees_def agreesU_def split: sum.splits option.splits)
qed

lemma agrees_pure:
  assumes "\<And>a. m = Inr a \<Longrightarrow> agrees (g a) ot (h a)"
  shows "agrees (bindE m g) ot (\<lambda>t. Option.bind (succeed m) (\<lambda>a. h a t))"
  using assms by (cases m) (auto simp: succeed_def agrees_def)

lemma agrees_required:
  assumes "\<And>a. m = Some a \<Longrightarrow> agrees (g a) ot (h a)"
  shows "agrees (bindE (required e m) g) ot (\<lambda>t. Option.bind m (\<lambda>a. h a t))"
  using assms by (cases m) (auto simp: required_simps agrees_def)

lemma agrees_eq: "agrees m ot f \<Longrightarrow> (\<And>t. ot = Some t \<Longrightarrow> f t = g t) \<Longrightarrow> agrees m ot g"
  by (auto simp: agrees_def split: sum.splits option.splits)

lemma agreesU_eq: "agreesU m ot f \<Longrightarrow> (\<And>t. ot = Some t \<Longrightarrow> f t = g t) \<Longrightarrow> agreesU m ot g"
  by (auto simp: agreesU_def split: sum.splits option.splits)

subsection \<open>One law per operation\<close>

lemma text_rest: "textOf c = Some t \<Longrightarrow> \<exists>t2. t = rest c @ t2"
  by (auto simp: textOf_def split: if_splits)

lemma text_hd: "textOf c = Some t \<Longrightarrow> rest c \<noteq> [] \<Longrightarrow> t \<noteq> [] \<and> hd t = hd (rest c)"
  by (auto dest: text_rest)

lemma head_rest: "rest c \<noteq> [] \<Longrightarrow> buffer c ! position c = hd (rest c)"
  by (simp add: rest_def hd_drop_conv_nth)

lemma advance_text:
  assumes "n \<le> length (rest c)"
  shows "textOf (advance n c) = map_option (drop n) (textOf c)" "cursorOk (advance n c) = cursorOk c"
    "rest (advance n c) = drop n (rest c)"
proof -
  show r: "rest (advance n c) = drop n (rest c)"
    by (simp add: rest_def advance_def add.commute)
  have s: "ended (advance n c) = ended c" "dec (advance n c) = dec c" "source (advance n c) = source c"
    by (simp_all add: advance_def)
  show "textOf (advance n c) = map_option (drop n) (textOf c)"
    using assms unfolding textOf_def r s by (cases "restText (dec c) (source c)") auto
  show "cursorOk (advance n c) = cursorOk c"
    by (simp add: cursorOk_def advance_def)
qed

lemma advance_one:
  assumes "rest c \<noteq> []"
  shows "textOf (advance (Suc 0) c) = map_option tl (textOf c)" "cursorOk (advance (Suc 0) c) = cursorOk c"
proof -
  have n: "Suc 0 \<le> length (rest c)" using assms by (cases "rest c") auto
  show "textOf (advance (Suc 0) c) = map_option tl (textOf c)"
    using advance_text(1) [OF n] by (cases "textOf c") (simp_all add: drop_Suc)
  show "cursorOk (advance (Suc 0) c) = cursorOk c" by (rule advance_text(2) [OF n])
qed

lemma peek_text:
  assumes "cursorOk c"
  shows "agrees (peek never c) (textOf c) (\<lambda>t. Some (if t = [] then None else Some (hd t), t))"
proof (cases "fill never c")
  case (Inl e)
  then show ?thesis using fill_text [OF refl assms] by (auto simp: peek_def agrees_def)
next
  case (Inr p)
  then obtain b c' where f: "fill never c = Inr (b, c')" by (cases p) simp
  then have c': "cursorOk c'" "textOf c' = textOf c" "b \<longleftrightarrow> rest c' \<noteq> []" "\<not> b \<longrightarrow> textOf c' = Some []"
    using fill_text [OF refl assms] by auto
  then show ?thesis
    using f by (auto simp: peek_def agrees_def head_rest split: option.splits dest: text_hd)
qed

lemma take1_text:
  assumes "cursorOk c"
  shows "agrees (take1 never c) (textOf c) (\<lambda>t. Some (if t = [] then None else Some (hd t), tl t))"
proof (cases "fill never c")
  case (Inl e)
  then show ?thesis using fill_text [OF refl assms] by (auto simp: take1_def agrees_def)
next
  case (Inr p)
  then obtain b c' where f: "fill never c = Inr (b, c')" by (cases p) simp
  then have c': "cursorOk c'" "textOf c' = textOf c" "b \<longleftrightarrow> rest c' \<noteq> []" "\<not> b \<longrightarrow> textOf c' = Some []"
    using fill_text [OF refl assms] by auto
  show ?thesis
  proof (cases b)
    case False
    then have "textOf c = Some []" "textOf c' = Some []" using c' by simp_all
    then show ?thesis using f c'(1) False by (simp add: take1_def agrees_def)
  next
    case True
    then have ne: "rest c' \<noteq> []" using c'(3) by simp
    show ?thesis
    proof (cases "textOf c'")
      case None
      then show ?thesis using f c' True by (simp add: take1_def agrees_def advance_one [OF ne])
    next
      case (Some t)
      then show ?thesis
        using f c' True text_hd [OF Some ne] by (simp add: take1_def agrees_def advance_one [OF ne] head_rest [OF ne])
    qed
  qed
qed

lemma skipSpace_Cons: "skipSpace (u # us) = (if isJsonSpace u then skipSpace us else u # us)"
  by (simp add: skipSpace_def)

lemma skipWhitespace_text:
  "aborted = never \<Longrightarrow> cursorOk c \<Longrightarrow> agreesU (skipWhitespace aborted c) (textOf c) (\<lambda>t. Some (skipSpace t))"
proof (induction aborted c rule: skipWhitespace.induct)
  case (1 aborted c)
  note p = peek_text [OF 1(3)]
  have "agreesU (skipWhitespace never c) (textOf c) (\<lambda>t. Option.bind (Some (if t = [] then None else Some (hd t), t))
     (\<lambda>(u, t). if u \<noteq> Some 32 \<and> u \<noteq> Some 10 \<and> u \<noteq> Some 13 \<and> u \<noteq> Some 9 then Some t else Some (skipSpace (tl t))))"
    unfolding skipWhitespace.simps [of never c]
  proof (rule agrees_bindU [OF p], goal_cases)
    case (1 u c1)
    show ?case
    proof (cases "u = Some 32 \<or> u = Some 10 \<or> u = Some 13 \<or> u = Some 9")
      case True
      then have ne: "rest c1 \<noteq> []"
        using peek_Inr [OF 1(1)] by (auto simp: rest_def)
      have "agreesU (skipWhitespace never (advance 1 c1)) (textOf (advance 1 c1)) (\<lambda>t. Some (skipSpace t))"
        using "1.IH" [of "(u, c1)" u c1] 1 True "1.prems"(1) advance_one(2) [OF ne] by auto
      then show ?thesis
        using True advance_one(1) [OF ne] by (cases "textOf c1") (auto simp: agreesU_def split: sum.splits)
    qed (use 1 in \<open>auto simp: agreesU_return\<close>)
  qed
  then show ?case
    unfolding 1(2)
    by (rule agreesU_eq) (auto simp: isJsonSpace_def skipSpace_Cons neq_Nil_conv skipSpace_def)
qed

lemma scanPiece_append:
  "scanPiece m mx st (xs @ ys) = (case scanPiece m mx st xs of
     Inl e \<Rightarrow> Inl e
   | Inr (n, st', complete) \<Rightarrow>
       if complete then Inr (n, st', True)
       else bindE (scanPiece m mx st' ys) (\<lambda>(k, r). Inr (n + k, r)))"
proof (induction xs arbitrary: st)
  case Nil
  show ?case by (cases "scanPiece m mx st ys") auto
next
  case (Cons u xs)
  have "bindE (scanPiece m mx st1 (xs @ ys)) (\<lambda>(n, r). Inr (Suc n, r)) =
    (case bindE (scanPiece m mx st1 xs) (\<lambda>(n, r). Inr (Suc n, r)) of
       Inl e \<Rightarrow> Inl e
     | Inr (n, st', complete) \<Rightarrow>
         if complete then Inr (n, st', True)
         else bindE (scanPiece m mx st' ys) (\<lambda>(k, r). Inr (n + k, r)))" for st1
  proof (cases "scanPiece m mx st1 xs")
    case (Inr p)
    obtain n st' complete where "p = (n, st', complete)" by (cases p)
    then show ?thesis
      unfolding Cons.IH Inr by (cases "scanPiece m mx st' ys") auto
  qed (simp add: Cons.IH)
  then show ?case
    by (simp add: Let_def)
qed

declare scanPiece.simps(2) [simp del]

text \<open>The loop of \<^verbatim>\<open>readRawValue\<close> on text, after \<open>parts\<close> have been read.\<close>

definition tLoop :: "mode \<Rightarrow> int \<Rightarrow> int \<Rightarrow> ustring \<Rightarrow> scan \<Rightarrow> ustring \<Rightarrow> (ustring \<times> ustring) option" where
  "tLoop m mc mn parts st t = (case scanPiece m mn st t of
     Inl e \<Rightarrow> None
   | Inr (n, st', complete) \<Rightarrow>
       if \<not> complete \<and> (m \<noteq> PrimitiveMode \<or> length parts + n = 0) \<or> 0 < n \<and> int (length parts + n) > mc then None
       else Some (parts @ take n t, drop n t))"

lemma tLoop_complete:
  assumes "scanPiece m mn st xs = Inr (n, st', True)"
  shows "tLoop m mc mn parts st (xs @ ys) =
    (if 0 < n \<and> int (length parts + n) > mc then None else Some (parts @ take n xs, drop n xs @ ys))"
  using scanPiece_length [OF assms] assms by (simp add: tLoop_def scanPiece_append)

lemma tLoop_more:
  assumes "scanPiece m mn st xs = Inr (n, st', False)" "xs \<noteq> []"
  shows "tLoop m mc mn parts st (xs @ ys) =
    (if int (length parts + n) > mc then None else tLoop m mc mn (parts @ xs) st' ys)"
proof -
  have n: "n = length xs" "0 < n" using scanPiece_length [OF assms(1)] assms(2) by auto
  show ?thesis
  proof (cases "scanPiece m mn st' ys")
    case (Inl e)
    then show ?thesis using assms(1) by (simp add: tLoop_def scanPiece_append)
  next
    case (Inr p)
    obtain k st2 c2 where "p = (k, st2, c2)" by (cases p)
    then show ?thesis
      using Inr assms(1) n by (auto simp: tLoop_def scanPiece_append)
  qed
qed

lemma recordPiece_text:
  assumes "recordPiece mc n c = Inr c'"
  shows "textOf c' = textOf c" "cursorOk c' = cursorOk c"
  using recordPiece_Inr [OF assms] by (simp_all add: textOf_def cursorOk_def rest_def)

lemma recordPiece_Inl: "recordPiece mc n c = Inl e \<Longrightarrow> int n > mc"
  by (auto simp: recordPiece_def Let_def split: if_splits)

lemma agrees_advance:
  assumes "agrees m (textOf c4) g" "textOf c4 = map_option (drop n) (textOf c2)" "n \<le> length (rest c2)"
    and "\<And>t2. f (rest c2 @ t2) = g (drop n (rest c2) @ t2)"
  shows "agrees m (textOf c2) f"
proof (cases "textOf c2")
  case None
  then show ?thesis using assms(1,2) by (auto simp: agrees_def split: sum.splits)
next
  case (Some t)
  then obtain t2 where "t = rest c2 @ t2" using text_rest by blast
  then show ?thesis using assms Some by (auto simp: agrees_def split: sum.splits)
qed

lemma readLoop_text:
  "aborted = never \<Longrightarrow> cursorOk c \<Longrightarrow>
   agrees (readLoop aborted m mc mn parts st c) (textOf c) (tLoop m mc mn parts st)"
proof (induction aborted m mc mn parts st c rule: readLoop.induct)
  case (1 aborted m mc mn parts st c)
  let ?c1 = "c\<lparr>asked := asked c + 1\<rparr>"
  have a: "ask aborted c = Inr ?c1" "cursorOk ?c1" "textOf ?c1 = textOf c" using 1(2,3) by simp_all
  note unf = readLoop.simps [of aborted m mc mn parts st c]
  show ?case
  proof (cases "fill aborted ?c1")
    case (Inl e)
    then have "textOf c = None" using fill_text [OF 1(2) a(2)] a(3) by simp
    then show ?thesis using Inl a(1) by (simp add: unf agrees_def)
  next
    case (Inr p)
    then obtain b c2 where f: "fill aborted ?c1 = Inr (b, c2)" by (cases p) simp
    then have c2: "cursorOk c2" "textOf c = textOf c2" "b \<longleftrightarrow> rest c2 \<noteq> []" "\<not> b \<longrightarrow> textOf c2 = Some []"
      using fill_text [OF 1(2) a(2)] a(3) by auto
    show ?thesis
    proof (cases b)
      case False
      then have "textOf c = Some []" "textOf c2 = Some []" using c2 by simp_all
      then show ?thesis using False f a(1) c2(1) by (simp add: unf agrees_def tLoop_def)
    next
      case True
      then have ne: "rest c2 \<noteq> []" using c2(3) by simp
      show ?thesis
      proof (cases "scanPiece m mn st (rest c2)")
        case (Inl e)
        then show ?thesis
          using True f a(1) c2(2) by (auto simp: unf agrees_def tLoop_def scanPiece_append dest!: text_rest)
      next
        case (Inr q)
        obtain n st' complete where q: "q = (n, st', complete)" by (cases q)
        note sp = Inr [unfolded q]
        have n: "n \<le> length (rest c2)" using scanPiece_length [OF sp] by simp
        define ps where "ps = parts @ take n (rest c2)"
        let ?rec = "if length (take n (rest c2)) > 0 then recordPiece mc (length ps) (advance n c2) else Inr (advance n c2)"
        have run: "readLoop aborted m mc mn parts st c =
            bindE ?rec (\<lambda>c. if complete then Inr (ps, c) else readLoop aborted m mc mn ps st' c)"
          using a(1) f True sp by (simp add: unf ps_def Let_def)
        have lps: "length ps = length parts + n" using n by (simp add: ps_def)
        have step: "tLoop m mc mn parts st (rest c2 @ t2) =
            (if 0 < n \<and> int (length ps) > mc then None
             else if complete then Some (ps, drop n (rest c2) @ t2) else tLoop m mc mn ps st' (drop n (rest c2) @ t2))" for t2
        proof (cases complete)
          case True
          then show ?thesis using sp lps by (simp add: tLoop_complete ps_def)
        next
          case False
          then have "n = length (rest c2)" "0 < n" using scanPiece_length [OF sp] ne by auto
          then show ?thesis using sp lps False ne tLoop_more [of m mn st "rest c2" n st'] by (simp add: ps_def)
        qed
        show ?thesis
        proof (cases ?rec)
          case (Inl e)
          then have "0 < n \<and> int (length ps) > mc" by (auto split: if_splits dest: recordPiece_Inl)
          then show ?thesis
            unfolding run c2(2) using Inl step by (auto simp: agrees_def dest!: text_rest)
        next
          case (Inr c4)
          have c4: "textOf c4 = map_option (drop n) (textOf c2)" "cursorOk c4" "\<not> (0 < n \<and> int (length ps) > mc)"
          proof (atomize (full), cases "n = 0")
            case True
            then show "textOf c4 = map_option (drop n) (textOf c2) \<and> cursorOk c4 \<and> \<not> (0 < n \<and> int (length ps) > mc)"
              using Inr advance_text(1,2) [OF n] c2(1) by auto
          next
            case False
            then have rp: "recordPiece mc (length ps) (advance n c2) = Inr c4" using Inr ne n by (auto split: if_splits)
            show "textOf c4 = map_option (drop n) (textOf c2) \<and> cursorOk c4 \<and> \<not> (0 < n \<and> int (length ps) > mc)"
              using recordPiece_text [OF rp] recordPiece_Inr [OF rp] advance_text(1,2) [OF n] c2(1) by simp
          qed
          have IH: "agrees (if complete then Inr (ps, c4) else readLoop aborted m mc mn ps st' c4) (textOf c4)
              (\<lambda>t. if complete then Some (ps, t) else tLoop m mc mn ps st' t)"
          proof (cases complete)
            case True
            then show ?thesis using agrees_return [OF c4(2)] by simp
          next
            case False
            then show ?thesis
              using 1(1) [of ?c1 "(b, c2)" b c2 "(n, st', complete)" n "(st', complete)" st' complete
                  "take n (rest c2)" "advance n c2" ps c4] a(1) f True sp Inr 1(2) c4(2)
              by (simp add: ps_def)
          qed
          have "f (rest c2 @ t2) = g (drop n (rest c2) @ t2)"
            if "f = tLoop m mc mn parts st" "g = (\<lambda>t. if complete then Some (ps, t) else tLoop m mc mn ps st' t)" for f g t2
            using step [of t2] c4(3) that by auto
          then show ?thesis
            unfolding run Inr bindE_Inr c2(2)
            using agrees_advance [OF IH c4(1) n] by blast
        qed
      qed
    qed
  qed
qed

lemma readRawValue_text:
  assumes "cursorOk c"
  shows "agrees (readRawValue never mc mn c) (textOf c) (tRaw mc mn)"
proof -
  have "agrees (readRawValue never mc mn c) (textOf c)
    (\<lambda>t. Option.bind (Some (skipSpace t)) (\<lambda>t. Option.bind (Some (if t = [] then None else Some (hd t), t)) (\<lambda>(first, t).
       Option.bind first (\<lambda>u. Option.bind (tLoop (modeOf u) mc mn [] newScan t) (\<lambda>(raw, t).
         if raw = [] then None else Some (raw, t))))))"
    unfolding readRawValue_def
  proof (rule agreesU_bind [OF skipWhitespace_text [OF refl assms]], rule agrees_bind [OF peek_text], assumption,
      unfold prod.case, rule agrees_required, rule agrees_bind [OF readLoop_text [OF refl]], assumption)
    fix raw c assume "cursorOk c"
    then show "agrees (case (raw, c) of (raw, c) \<Rightarrow> if raw = [] then Inl ''CHANGE_LOG_INVALID_JSON'' else Inr (raw, c))
        (textOf c) (\<lambda>t. if raw = [] then None else Some (raw, t))"
      by (auto intro: agrees_return agrees_Inl)
  qed
  then show ?thesis
  proof (rule agrees_eq, goal_cases)
    case (1 t)
    show ?case
    proof (cases "skipSpace t")
      case (Cons u us)
      show ?thesis
      proof (cases "scanPiece (modeOf u) mn newScan (u # us)")
        case (Inl e)
        then show ?thesis using Cons by (simp add: tRaw_def tLoop_def)
      next
        case (Inr p)
        then obtain n st complete where sp: "scanPiece (modeOf u) mn newScan (u # us) = Inr (n, st, complete)" by (cases p) auto
        then show ?thesis using Cons by (simp add: tRaw_def tLoop_def Let_def)
      qed
    qed (simp add: tRaw_def)
  qed
qed

lemma expect_text:
  assumes "cursorOk c"
  shows "agreesU (expect never e c) (textOf c) (tExpect e)"
proof -
  have "agreesU (expect never e c) (textOf c)
    (\<lambda>t. Option.bind (Some (skipSpace t)) (\<lambda>t. Option.bind (Some (if t = [] then None else Some (hd t), tl t)) (\<lambda>(u, t).
       if u \<noteq> Some e then None else Some t)))"
    unfolding expect_def
  proof (rule agreesU_bindU [OF skipWhitespace_text [OF refl assms]], rule agrees_bindU [OF take1_text], assumption)
    fix u c assume "cursorOk c"
    then show "agreesU (case (u, c) of (actual, c) \<Rightarrow> if actual \<noteq> Some e then Inl ''CHANGE_LOG_INVALID_JSON'' else Inr c)
        (textOf c) (\<lambda>t. if u \<noteq> Some e then None else Some t)"
      by (auto simp: agreesU_return) (simp add: agreesU_def)
  qed
  then show ?thesis
    by (rule agreesU_eq) (simp add: tExpect_def split: list.splits)
qed

lemma delimiter_text:
  assumes "cursorOk c"
  shows "agrees (delimiter never e c) (textOf c) (tDelimiter e)"
proof -
  have "agrees (delimiter never e c) (textOf c)
    (\<lambda>t. Option.bind (Some (skipSpace t)) (\<lambda>t. Option.bind (Some (if t = [] then None else Some (hd t), tl t)) (\<lambda>(u, t).
       if u = Some e then Some (True, t) else if u \<noteq> Some 44 then None
       else Option.bind (Some (skipSpace t)) (\<lambda>t. Option.bind (Some (if t = [] then None else Some (hd t), t)) (\<lambda>(u, t).
         if u = Some e then None else Some (False, t))))))"
    unfolding delimiter_def
  proof (rule agreesU_bind [OF skipWhitespace_text [OF refl assms]], rule agrees_bind [OF take1_text], assumption, unfold prod.case)
    fix u c assume ok: "cursorOk c"
    have "agrees (bindE (skipWhitespace never c) (\<lambda>c. bindE (peek never c) (\<lambda>(u, c).
        if u = Some e then Inl ''CHANGE_LOG_INVALID_JSON'' else Inr (False, c)))) (textOf c)
        (\<lambda>t. Option.bind (Some (skipSpace t)) (\<lambda>t. Option.bind (Some (if t = [] then None else Some (hd t), t)) (\<lambda>(u, t).
         if u = Some e then None else Some (False, t))))"
      by (rule agreesU_bind [OF skipWhitespace_text [OF refl ok]], rule agrees_bind [OF peek_text], assumption)
        (auto intro: agrees_return agrees_Inl)
    then show "agrees
        (if u = Some e then Inr (True, c)
         else if u \<noteq> Some 44 then Inl ''CHANGE_LOG_INVALID_JSON''
         else bindE (skipWhitespace never c) (\<lambda>c. bindE (peek never c) (\<lambda>(u, c).
           if u = Some e then Inl ''CHANGE_LOG_INVALID_JSON'' else Inr (False, c))))
        (textOf c)
        (\<lambda>t. if u = Some e then Some (True, t) else if u \<noteq> Some 44 then None
         else Option.bind (Some (skipSpace t)) (\<lambda>t. Option.bind (Some (if t = [] then None else Some (hd t), t)) (\<lambda>(u, t).
         if u = Some e then None else Some (False, t))))"
      using agrees_return [OF ok, of True] by (auto intro: agrees_Inl)
  qed
  then show ?thesis
    by (rule agrees_eq) (simp add: tDelimiter_def startsWith_def split: list.splits)
qed

lemma readPropertyName_text:
  assumes "cursorOk c"
  shows "agrees (readPropertyName fr never limits c) (textOf c) (tName fr limits)"
  unfolding readPropertyName_def tName_def
  by (rule agrees_bind [OF readRawValue_text [OF assms]], unfold prod.case, rule agrees_pure, rule agrees_required,
      rule agrees_return)

lemma readEntry_text:
  assumes "cursorOk c"
  shows "agrees (readEntry fr never limits i a c) (textOf c) (tEntry fr limits i a)"
  unfolding readEntry_def tEntry_def
  by (rule agrees_bind [OF readRawValue_text [OF assms]], unfold prod.case, (rule agrees_pure)+, rule agrees_return)

lemma headerValue_text:
  assumes "cursorOk c"
  shows "agrees (headerValue fr never limits c) (textOf c) (tHeader fr limits)"
  unfolding headerValue_def tHeader_def
  by (rule agrees_bind [OF readRawValue_text [OF assms]], unfold prod.case, (rule agrees_pure)+, rule agrees_return)

subsection \<open>The generator\<close>

definition flat :: "('a \<times> StreamingJsonCursor) gen \<Rightarrow> code + ((ChangeLogStreamEvent list \<times> 'a) \<times> StreamingJsonCursor)" where
  "flat g = (case snd g of Inl e \<Rightarrow> Inl e | Inr (a, c) \<Rightarrow> Inr ((fst g, a), c))"

lemma flat_simps [simp]: "flat (es, Inl e) = Inl e" "flat (es, Inr (a, c)) = Inr ((es, a), c)"
  by (simp_all add: flat_def)

lemma liftG_bind [simp]:
  "bindG (liftG (Inl e)) g = ([], Inl e)" "bindG (liftG (Inr a)) g = g a"
  by (simp_all add: bindG_def liftG_def apfst_def map_prod_def split: prod.splits)

lemma bindG_Pair: "bindG (es, Inr a) g = apfst ((@) es) (g a)"
  by (simp add: bindG_def)

lemma agrees_flat_return: "cursorOk c \<Longrightarrow> agrees (flat (liftG (Inr (a, c)))) (textOf c) (\<lambda>t. Some (([], a), t))"
  by (simp add: liftG_def agrees_return)

lemma agrees_flat_lift:
  assumes "agrees m ot f"
    and "\<And>a c. m = Inr (a, c) \<Longrightarrow> cursorOk c \<Longrightarrow> agrees (flat (g (a, c))) (textOf c) (h a)"
  shows "agrees (flat (bindG (liftG m) g)) ot (\<lambda>t. Option.bind (f t) (\<lambda>(a, t). h a t))"
proof -
  have "flat (bindG (liftG m) g) = bindE m (\<lambda>x. flat (g x))" by (cases m) simp_all
  then show ?thesis using agrees_bind [OF assms(1), of "\<lambda>x. flat (g x)" h] assms(2) by simp
qed

lemma agrees_flat_liftU:
  assumes "agreesU m ot f" and "\<And>c. m = Inr c \<Longrightarrow> cursorOk c \<Longrightarrow> agrees (flat (g c)) (textOf c) h"
  shows "agrees (flat (bindG (liftG m) g)) ot (\<lambda>t. Option.bind (f t) h)"
proof -
  have "flat (bindG (liftG m) g) = bindE m (\<lambda>x. flat (g x))" by (cases m) simp_all
  then show ?thesis using agreesU_bind [OF assms(1), of "\<lambda>x. flat (g x)" h] assms(2) by simp
qed

lemma agrees_flat_bind:
  assumes "agrees (flat m) ot f"
    and "\<And>a c. snd m = Inr (a, c) \<Longrightarrow> cursorOk c \<Longrightarrow> agrees (flat (g (a, c))) (textOf c) (h a)"
  shows "agrees (flat (bindG m g)) ot
    (\<lambda>t. Option.bind (f t) (\<lambda>(r, t). case r of (es, a) \<Rightarrow>
       Option.bind (h a t) (\<lambda>(r, t). case r of (es', b) \<Rightarrow> Some ((es @ es', b), t))))"
proof -
  obtain es r where m: "m = (es, r)" by (cases m)
  show ?thesis
  proof (cases r)
    case (Inl e)
    then show ?thesis using assms(1) m by (simp add: bindG_def agrees_def)
  next
    case (Inr p)
    then obtain a c where p: "r = Inr (a, c)" by (cases p) simp
    have "flat (bindG m g) = bindE (flat m) (\<lambda>((es, a), c). bindE (flat (g (a, c))) (\<lambda>((es', b), c). Inr ((es @ es', b), c)))"
      using m p by (auto simp: bindG_def flat_def apfst_def map_prod_def split: prod.splits sum.splits)
    moreover have "agrees \<dots> ot
      (\<lambda>t. Option.bind (f t) (\<lambda>(r, t). (\<lambda>(es, a) t. Option.bind (h a t) (\<lambda>(r, t). (\<lambda>(es', b) t. Some ((es @ es', b), t)) r t)) r t))"
      using m p assms(2)
      by (intro agrees_bind [OF assms(1)]) (auto intro!: agrees_bind agrees_return)
    ultimately show ?thesis by (simp add: case_prod_beta)
  qed
qed

lemma agrees_flat_yield:
  assumes "agrees (flat (g ())) ot h"
  shows "agrees (flat (bindG (yield e) g)) ot (\<lambda>t. Option.bind (h t) (\<lambda>(r, t). Some ((e # fst r, snd r), t)))"
proof -
  have "flat (bindG (yield e) g) = bindE (flat (g ())) (\<lambda>(r, c). Inr ((e # fst r, snd r), c))"
    by (auto simp: bindG_def yield_def flat_def apfst_def map_prod_def split: prod.splits sum.splits)
  then show ?thesis
    using agrees_bind [OF assms, of "\<lambda>(r, c). Inr ((e # fst r, snd r), c)" "\<lambda>r t. Some ((e # fst r, snd r), t)"]
    by (simp add: agrees_return)
qed

lemma entryLoop_text:
  "aborted = never \<Longrightarrow> cursorOk c \<Longrightarrow>
   agrees (flat (entryLoop fr aborted limits i a c)) (textOf c) (tEntries fr limits i a)"
proof (induction fr aborted limits i a c rule: entryLoop.induct)
  case (1 fr aborted limits i a c)
  define more where "more = (\<lambda>a t. Option.bind (tDelimiter 93 t) (\<lambda>(closed, t).
    if closed then Some (([], a), t) else tEntries fr limits (i + 1) a t))"
  have "agrees (flat (entryLoop fr never limits i a c)) (textOf c)
    (\<lambda>t. Option.bind (tEntry fr limits i a t) (\<lambda>(r, t).
       Option.bind (more (snd r) t) (\<lambda>(r', t). Some ((EntryEvent (fst r) i # fst r', snd r'), t))))"
    unfolding entryLoop.simps [of fr never limits i a c]
  proof (rule agrees_flat_lift [OF readEntry_text [OF 1(3)]], goal_cases)
    case (1 r c1)
    obtain e a1 where r: "r = (e, a1)" by (cases r)
    have "agrees (flat (bindG (liftG (delimiter never 93 c1)) (\<lambda>(closed, c).
          if closed then liftG (Inr (a1, c)) else entryLoop fr never limits (i + 1) a1 c))) (textOf c1) (more a1)"
      unfolding more_def
    proof (rule agrees_flat_lift [OF delimiter_text [OF 1(2)]], goal_cases)
      case (1 closed c2)
      then show ?case
        using "1.IH" [of "((e, a1), c1)" "(e, a1)" c1 e a1 "()" "(closed, c2)" closed c2] \<open>readEntry _ _ _ _ _ _ = _\<close> r
          "1.prems"(1) agrees_flat_return [of c2 a1]
        by auto
    qed
    then show ?case
      unfolding r by (simp add: agrees_flat_yield)
  qed
  then show ?case
    unfolding 1(2)
  proof (rule agrees_eq, goal_cases)
    case (1 t)
    show ?case
    proof (cases "tEntry fr limits i a t")
      case (Some p)
      obtain e a1 t1 where p: "p = ((e, a1), t1)" by (cases p) auto
      show ?thesis
      proof (cases "tDelimiter 93 t1")
        case (Some q)
        then show ?thesis
          using \<open>tEntry fr limits i a t = Some p\<close>
          by (cases q) (simp add: p tEntries.simps [of fr limits i a t] more_def case_prod_beta)
      qed (use Some in \<open>simp add: p tEntries.simps [of fr limits i a t] more_def\<close>)
    qed (simp add: tEntries.simps [of fr limits i a t])
  qed
qed

lemma changesArray_text:
  assumes "cursorOk c"
  shows "agrees (flat (changesArray fr never limits a c)) (textOf c) (tChanges fr limits a)"
proof -
  have "agrees (flat (changesArray fr never limits a c)) (textOf c)
    (\<lambda>t. Option.bind (tExpect 91 t) (\<lambda>t. Option.bind (Some (skipSpace t)) (\<lambda>t.
       Option.bind (Some (if t = [] then None else Some (hd t), t)) (\<lambda>(u, t).
         if u = Some 93 then Option.bind (Some (if t = [] then None else Some (hd t), tl t)) (\<lambda>(u, t). Some (([], a), t))
         else tEntries fr limits 0 a t))))"
    unfolding changesArray_def
  proof (rule agrees_flat_liftU [OF expect_text [OF assms]], rule agrees_flat_liftU [OF skipWhitespace_text [OF refl]],
      assumption, rule agrees_flat_lift [OF peek_text], assumption, unfold prod.case)
    fix u c assume ok: "cursorOk c"
    show "agrees (flat (if u = Some 93 then bindG (liftG (take1 never c)) (\<lambda>(_, c). liftG (Inr (a, c)))
          else entryLoop fr never limits 0 a c)) (textOf c)
        (\<lambda>t. if u = Some 93 then Option.bind (Some (if t = [] then None else Some (hd t), tl t)) (\<lambda>(u, t). Some (([], a), t))
         else tEntries fr limits 0 a t)"
    proof (cases "u = Some 93")
      case True
      have "agrees (flat (bindG (liftG (take1 never c)) (\<lambda>(_, c). liftG (Inr (a, c))))) (textOf c)
        (\<lambda>t. Option.bind (Some (if t = [] then None else Some (hd t), tl t)) (\<lambda>(u, t). Some (([], a), t)))"
        by (rule agrees_flat_lift [OF take1_text [OF ok]]) (simp add: agrees_flat_return)
      then show ?thesis using True by simp
    qed (simp add: entryLoop_text [OF refl ok])
  qed
  then show ?thesis
    by (rule agrees_eq, unfold tChanges_def, intro option_bind_cong refl) (auto simp: startsWith_def)
qed

lemma propertyValue_text:
  assumes "cursorOk c"
  shows "agrees (flat (propertyValue fr never limits k saw doc a c)) (textOf c) (tValue fr limits k saw doc a)"
proof (cases "k = lit ''changes''")
  case True
  have "agrees (flat (bindG (changesArray fr never limits a c) (\<lambda>(a, c). liftG (Inr ((True, doc, a), c))))) (textOf c)
    (\<lambda>t. Option.bind (tChanges fr limits a t) (\<lambda>(r, t). case r of (es, a) \<Rightarrow>
       Option.bind (Some (([], True, doc, a), t)) (\<lambda>(r, t). case r of (es', b) \<Rightarrow> Some ((es @ es', b), t))))"
    by (rule agrees_flat_bind [OF changesArray_text [OF assms]]) (simp add: agrees_flat_return)
  then show ?thesis
    using True unfolding propertyValue_def tValue_def by (simp add: case_prod_beta)
next
  case False
  have "agrees (flat (bindG (liftG (headerValue fr never limits c)) (\<lambda>(v, c). liftG (Inr ((saw, assign k v doc, a), c))))) (textOf c)
    (\<lambda>t. Option.bind (tHeader fr limits t) (\<lambda>(v, t). Some (([], saw, assign k v doc, a), t)))"
    by (rule agrees_flat_lift [OF headerValue_text [OF assms]]) (simp add: agrees_flat_return)
  then show ?thesis
    using False unfolding propertyValue_def tValue_def by simp
qed

lemma agrees_flat_orFail:
  assumes "b \<Longrightarrow> agrees (flat (g ())) ot h"
  shows "agrees (flat (bindG (liftG (orFail b e)) g)) ot (\<lambda>t. if b then h t else None)"
  using assms by (cases b) (auto simp: agrees_Inl)

lemma propertyLoop_text:
  "aborted = never \<Longrightarrow> cursorOk c \<Longrightarrow>
   agrees (flat (propertyLoop fr aborted limits seen saw doc a c)) (textOf c) (tProps fr limits seen saw doc a)"
proof (induction fr aborted limits seen saw doc a c rule: propertyLoop.induct)
  case (1 fr aborted limits seen saw doc a c)
  define more where "more = (\<lambda>k (saw, doc, a) t. Option.bind (tDelimiter 125 t) (\<lambda>(closed, t).
    if closed then Some (([], saw, doc, a), t) else tProps fr limits (k # seen) saw doc a t))"
  let ?c0 = "c\<lparr>asked := asked c + 1\<rparr>"
  have "agrees (flat (propertyLoop fr never limits seen saw doc a c)) (textOf ?c0)
    (\<lambda>t. Option.bind (tName fr limits t) (\<lambda>(k, t).
       if k \<notin> set seen then
         Option.bind (tExpect 58 t) (\<lambda>t.
         Option.bind (tValue fr limits k saw doc a t) (\<lambda>(r, t). case r of (es, r) \<Rightarrow>
           Option.bind (more k r t) (\<lambda>(r, t). case r of (es', b) \<Rightarrow> Some ((es @ es', b), t))))
       else None))"
    unfolding propertyLoop.simps [of fr never limits seen saw doc a c] ask_never liftG_bind
  proof (rule agrees_flat_lift [OF readPropertyName_text], simp add: 1(3), unfold prod.case, rule agrees_flat_orFail,
      rule agrees_flat_liftU [OF expect_text], assumption, rule agrees_flat_bind [OF propertyValue_text], assumption, goal_cases)
    case (1 k c1 c2 r c3)
    obtain saw' doc' a' where r: "r = (saw', doc', a')" by (cases r)
    note fresh = 1
    have "agrees (flat (bindG (liftG (delimiter never 125 c3)) (\<lambda>(closed, c).
          if closed then liftG (Inr ((saw', doc', a'), c)) else propertyLoop fr never limits (k # seen) saw' doc' a' c)))
        (textOf c3) (more k r)"
      unfolding more_def r prod.case
    proof (rule agrees_flat_lift [OF delimiter_text [OF 1(7)]], goal_cases)
      case (1 closed c4)
      then show ?case
        using "1.IH" [of ?c0 "(k, c1)" k c1 "()" c2 "((saw', doc', a'), c3)" "(saw', doc', a')" c3 saw' "(doc', a')" doc' a'
            "(closed, c4)" closed c4] fresh r "1.prems"(1) agrees_flat_return [of c4 "(saw', doc', a')"]
        by auto
    qed
    then show ?case by (simp add: r)
  qed
  then have "agrees (flat (propertyLoop fr never limits seen saw doc a c)) (textOf c) (tProps fr limits seen saw doc a)"
    unfolding asked_update
  proof (rule agrees_eq, subst tProps.simps, intro option_bind_cong refl, goal_cases)
    case (1 t p)
    show ?case
      by (cases p) (auto simp: more_def case_prod_beta bind_assoc intro!: option_bind_cong split: option.split)
  qed
  then show ?case unfolding 1(2) .
qed

lemma scanProperties_text:
  assumes "cursorOk c"
  shows "agrees (flat (scanProperties fr never limits c)) (textOf c) (tDocument fr limits)"
proof -
  let ?empty = "(False, newDocument, newAccumulator)"
  have "agrees (flat (scanProperties fr never limits c)) (textOf c)
    (\<lambda>t. Option.bind (tExpect 123 t) (\<lambda>t. Option.bind (Some (skipSpace t)) (\<lambda>t.
       Option.bind (Some (if t = [] then None else Some (hd t), t)) (\<lambda>(u, t).
         if u = Some 125 then Option.bind (Some (if t = [] then None else Some (hd t), tl t)) (\<lambda>(u, t). Some (([], ?empty), t))
         else tProps fr limits [] False newDocument newAccumulator t))))"
    unfolding scanProperties_def
  proof (rule agrees_flat_liftU [OF expect_text [OF assms]], rule agrees_flat_liftU [OF skipWhitespace_text [OF refl]],
      assumption, rule agrees_flat_lift [OF peek_text], assumption, unfold prod.case)
    fix u c assume ok: "cursorOk c"
    have "agrees (flat (bindG (liftG (take1 never c)) (\<lambda>(_, c). liftG (Inr (?empty, c))))) (textOf c)
        (\<lambda>t. Option.bind (Some (if t = [] then None else Some (hd t), tl t)) (\<lambda>(u, t). Some (([], ?empty), t)))"
      by (rule agrees_flat_lift [OF take1_text [OF ok]]) (simp add: agrees_flat_return)
    then show "agrees (flat (if u = Some 125 then bindG (liftG (take1 never c)) (\<lambda>(_, c). liftG (Inr (?empty, c)))
          else propertyLoop fr never limits [] False newDocument newAccumulator c)) (textOf c)
        (\<lambda>t. if u = Some 125 then Option.bind (Some (if t = [] then None else Some (hd t), tl t)) (\<lambda>(u, t). Some (([], ?empty), t))
         else tProps fr limits [] False newDocument newAccumulator t)"
      using propertyLoop_text [OF refl ok] by (cases "u = Some 125") simp_all
  qed
  then show ?thesis
    by (rule agrees_eq, unfold tDocument_def, intro option_bind_cong refl) (auto simp: startsWith_def)
qed

text \<open>After the document only white space may follow; the whole source has then been decoded.\<close>

lemma end_of_text:
  assumes "cursorOk c"
  shows "case bindE (skipWhitespace never c) (peek never) of
      Inl e \<Rightarrow> textOf c = None
    | Inr (u, c') \<Rightarrow> (u = None \<longleftrightarrow> (\<exists>t. textOf c = Some t \<and> skipSpace t = []))"
proof (cases "skipWhitespace never c")
  case (Inl e)
  then show ?thesis using skipWhitespace_text [OF refl assms] by (auto simp: agreesU_def)
next
  case (Inr c1)
  then have c1: "cursorOk c1" "textOf c1 = map_option skipSpace (textOf c)"
    using skipWhitespace_text [OF refl assms] by (auto simp: agreesU_def split: option.splits)
  show ?thesis
  proof (cases "fill never c1")
    case (Inl e)
    then show ?thesis using Inr c1 fill_text [OF refl c1(1)] by (simp add: peek_def)
  next
    case (Inr p)
    then obtain b c2 where f: "fill never c1 = Inr (b, c2)" by (cases p) simp
    then have "b \<longleftrightarrow> rest c2 \<noteq> []" "textOf c2 = textOf c1" "\<not> b \<longrightarrow> textOf c2 = Some []"
      using fill_text [OF refl c1(1)] by auto
    then show ?thesis
      using f c1(2) \<open>skipWhitespace never c = Inr c1\<close> by (auto simp: peek_def dest: text_hd)
  qed
qed

lemma scan_text:
  assumes "resolveChangeLogCodecLimits ov = Inr limits"
  shows "case Option.bind (sourceText src) (tScan fr limits) of
      None \<Rightarrow> \<exists>es e. scanChangeLogJson fr never ov src = (es, Inl e)
    | Some (es, doc, a) \<Rightarrow> \<exists>d. scanChangeLogJson fr never ov src =
        (case accumulatorFinish limits (documentFields doc) d a of
           Inl e \<Rightarrow> (es, Inl e) | Inr r \<Rightarrow> (es @ [CompleteEvent r], Inr ()))"
proof (cases "scanProperties fr never limits (newCursor src)")
  case (Pair es m)
  note ag = scanProperties_text [OF cursor_new(1), of fr limits src, unfolded cursor_new(2) Pair]
  have scan: "scanChangeLogJson fr never ov src = bindG (es, m) (\<lambda>(r, c). case r of (saw, doc, a) \<Rightarrow>
     bindG (liftG (orFail saw ''CHANGE_LOG_INVALID_DOCUMENT'')) (\<lambda>_.
     bindG (liftG (skipWhitespace never c)) (\<lambda>c.
     bindG (liftG (peek never c)) (\<lambda>(u, c).
     bindG (liftG (orFail (u = None) ''CHANGE_LOG_TRAILING_DATA'')) (\<lambda>_.
     bindG (liftG (accumulatorFinish limits (documentFields doc) (diagnostics c) a)) (\<lambda>result.
       yield (CompleteEvent result)))))))"
    using assms Pair by (simp add: scanChangeLogJson_def)
  show ?thesis
  proof (cases m)
    case (Inl e)
    then show ?thesis
      using ag by (cases "sourceText src") (auto simp: scan bindG_def agrees_def tScan_def)
  next
    case (Inr p)
    obtain saw doc a c where p: "p = ((saw, doc, a), c)" by (cases p) auto
    have ok: "cursorOk c" using ag by (simp add: Inr p agrees_def)
    have tx: "Option.bind (sourceText src) (tScan fr limits) =
        (if saw \<and> (\<exists>t. textOf c = Some t \<and> skipSpace t = []) then Some (es, doc, a) else None)"
      using ag by (cases "sourceText src") (auto simp: Inr p agrees_def tScan_def)
    show ?thesis
    proof (cases saw)
      case False
      then show ?thesis using tx by (simp add: scan Inr p bindG_def liftG_def)
    next
      case True
      note eot = end_of_text [OF ok]
      show ?thesis
      proof (cases "skipWhitespace never c")
        case (Inl e)
        then show ?thesis using tx eot True by (simp add: scan \<open>m = Inr p\<close> p bindG_def liftG_def)
      next
        case (Inr c1)
        note sk = Inr
        show ?thesis
        proof (cases "peek never c1")
          case (Inl e)
          then show ?thesis using tx eot True sk by (simp add: scan \<open>m = Inr p\<close> p bindG_def liftG_def)
        next
          case (Inr q)
          then obtain u c2 where pk: "peek never c1 = Inr (u, c2)" by (cases q) simp
          let ?fin = "accumulatorFinish limits (documentFields doc) (diagnostics c2) a"
          have run: "scanChangeLogJson fr never ov src =
              (if u = None then (case ?fin of Inl e \<Rightarrow> (es, Inl e) | Inr r \<Rightarrow> (es @ [CompleteEvent r], Inr ()))
               else (es, Inl ''CHANGE_LOG_TRAILING_DATA''))"
            using True sk pk by (cases ?fin; cases u) (simp_all add: scan \<open>m = Inr p\<close> p bindG_Pair yield_def)
          have "u = None \<longleftrightarrow> (\<exists>t. textOf c = Some t \<and> skipSpace t = [])" using eot sk pk by simp
          then show ?thesis
            unfolding run using tx True by (cases "u = None") auto
        qed
      qed
    qed
  qed
qed

end
