(* ===== verification/JS_Json_Text.thy ===== *)
theory JS_Json_Text
  imports JS_Json
begin

text \<open>
  Texts and values of the language's library. A JSON value parses in the same way whatever text follows
  it, and with any larger recursion bound; printing a value, with or without indentation, and parsing the text
  gives the value; encoding a well-formed text as UTF-8 and decoding the bytes gives the text.
\<close>

section \<open>Parsing a value inside a longer text\<close>

definition numberUnit :: "nat \<Rightarrow> bool" where
  "numberUnit u \<longleftrightarrow> isDigit u \<or> u = 46 \<or> u = 101 \<or> u = 69 \<or> u = 43 \<or> u = 45"

text \<open>What follows a number must not continue it.\<close>

definition stops :: "ustring \<Rightarrow> bool" where
  "stops t \<longleftrightarrow> t = [] \<or> \<not> numberUnit (hd t)"

lemma spanDigits_append:
  "spanDigits s = (ds, r) \<Longrightarrow> r \<noteq> [] \<or> stops t \<Longrightarrow> spanDigits (s @ t) = (ds, r @ t)"
proof (induction s arbitrary: ds r)
  case Nil
  then show ?case by (cases t) (auto simp: stops_def numberUnit_def)
next
  case (Cons u s)
  then show ?case by (auto split: if_splits prod.splits)
qed

lemma spanDigits_suffix: "spanDigits s = (ds, r) \<Longrightarrow> s = ds @ r"
  by (induction s arbitrary: ds r) (auto split: if_splits prod.splits)

lemma fractionPart_append:
  "fractionPart s = Some (f, r) \<Longrightarrow> r \<noteq> [] \<or> stops t \<Longrightarrow> fractionPart (s @ t) = Some (f, r @ t)"
  by (cases s; cases t) (auto simp: fractionPart_def stops_def numberUnit_def spanDigits_append split: if_splits prod.splits)

lemma exponentSign_append: "s \<noteq> [] \<Longrightarrow> exponentSign s = (n, r) \<Longrightarrow> exponentSign (s @ t) = (n, r @ t)"
  by (cases s) (auto simp: exponentSign_def split: if_splits)

lemma exponentPart_append:
  assumes "exponentPart s = Some (e, r)" "r \<noteq> [] \<or> stops t"
  shows "exponentPart (s @ t) = Some (e, r @ t)"
proof (cases s)
  case Nil
  then show ?thesis using assms by (cases t) (auto simp: exponentPart_def stops_def numberUnit_def)
next
  case (Cons u us)
  show ?thesis
  proof (cases "u = 101 \<or> u = 69")
    case True
    obtain neg r1 ed where x: "exponentSign us = (neg, r1)" "spanDigits r1 = (ed, r)" "ed \<noteq> []"
      "e = (if neg then - int (digitsValue ed) else int (digitsValue ed))"
      using assms(1) Cons True by (auto simp: exponentPart_def split: prod.splits if_splits)
    have "us \<noteq> []" using x by (auto simp: exponentSign_def)
    then show ?thesis
      using Cons True x exponentSign_append [OF _ x(1)] spanDigits_append [OF x(2) assms(2)]
      by (simp add: exponentPart_def)
  next
    case False
    then show ?thesis using assms Cons by (auto simp: exponentPart_def)
  qed
qed

lemma fractionPart_length: "fractionPart s = Some (f, r) \<Longrightarrow> length r \<le> length s"
  by (auto simp: fractionPart_def split: list.splits if_splits prod.splits dest!: spanDigits_suffix)

lemma exponentPart_length: "exponentPart s = Some (e, r) \<Longrightarrow> length r \<le> length s"
  by (auto simp: exponentPart_def exponentSign_def split: list.splits if_splits prod.splits dest!: spanDigits_suffix)

lemma parseNumber_append:
  assumes "parseNumber fr s = Some (k, r)" "r \<noteq> [] \<or> stops t"
  shows "parseNumber fr (s @ t) = Some (k, r @ t)"
proof -
  obtain neg s1 ds s2 fd s3 ex where
    x: "readSign s = (neg, s1)" "spanDigits s1 = (ds, s2)" "\<not> (ds = [] \<or> hd ds = 48 \<and> length ds > 1)"
      "fractionPart s2 = Some (fd, s3)" "exponentPart s3 = Some (ex, r)"
    and k: "k = (case integerValue (digitsValue (ds @ fd)) (ex - int (length fd)) of
        Some n \<Rightarrow> numberOfInt neg n | None \<Rightarrow> fr (take (length s - length r) s))"
    using assms(1) by (auto simp: parseNumber_def split: prod.splits option.splits if_splits)
  have ne: "s \<noteq> []" using x(1-3) by (auto simp: readSign_def)
  have s3: "s3 \<noteq> [] \<or> stops t" and s2: "s2 \<noteq> [] \<or> stops t"
    using assms(2) exponentPart_length [OF x(5)] fractionPart_length [OF x(4)] by auto
  have "readSign (s @ t) = (neg, s1 @ t)" using ne x(1) by (cases s) (auto simp: readSign_def split: if_splits)
  moreover note spanDigits_append [OF x(2) s2] fractionPart_append [OF x(4) s3] exponentPart_append [OF x(5) assms(2)]
  moreover have "take (length (s @ t) - length (r @ t)) (s @ t) = take (length s - length r) s" by simp
  ultimately show ?thesis using x(3) unfolding parseNumber_def k by (simp split: option.split)
qed

lemma parseString_append: "parseString s = Some (x, r) \<Longrightarrow> parseString (s @ t) = Some (x, r @ t)"
proof (induction s arbitrary: x rule: parseString.induct)
  case (2 u us)
  consider "u = 34" | "u < 32" | "u \<noteq> 34" "\<not> u < 32" "u \<noteq> 92" | "u = 92" by fastforce
  then show ?case
  proof cases
    case 3
    then show ?thesis using 2 by auto
  next
    case 4
    obtain e vs where us: "us = e # vs" using 2 4 by (cases us) auto
    show ?thesis
    proof (cases "e = 117")
      case False
      then obtain k where "simpleEscape e = Some k" using 2 4 us by (cases "simpleEscape e") auto
      then show ?thesis using 2 4 us False by auto
    next
      case True
      then obtain a b c d ws where "vs = a # b # c # d # ws"
        using 2 4 us by (auto split: list.splits)
      then show ?thesis using 2 4 us True by (auto split: option.splits prod.splits)
    qed
  qed (use 2 in auto)
qed simp

lemma expectWord_append: "expectWord w v s = Some (x, r) \<Longrightarrow> expectWord w v (s @ t) = Some (x, r @ t)"
proof -
  assume e: "expectWord w v s = Some (x, r)"
  then have "take (length w) s = lit w" by (auto simp: expectWord_def split: if_splits)
  then have "length (take (length w) s) = length w" by (simp add: lit_def)
  then show ?thesis using e by (auto simp: expectWord_def split: if_splits)
qed

lemma skipSpace_append: "skipSpace s \<noteq> [] \<Longrightarrow> skipSpace (s @ t) = skipSpace s @ t"
  by (induction s) (auto simp: skipSpace_def)

lemma skipSpace_append_blank: "skipSpace s = [] \<Longrightarrow> skipSpace (s @ t) = skipSpace t"
  by (induction s) (auto simp: skipSpace_def split: if_splits)

lemma skipSpace_idem [simp]: "skipSpace (skipSpace s) = skipSpace s"
  by (induction s) (auto simp: skipSpace_def)

lemma parse_append:
  "parseValue fr n s = Some (v, r) \<Longrightarrow> r \<noteq> [] \<or> stops t \<Longrightarrow> parseValue fr n (s @ t) = Some (v, r @ t)"
  "parseItems fr n s = Some (vs, r) \<Longrightarrow> parseItems fr n (s @ t) = Some (vs, r @ t)"
  "parseProps fr n ps s = Some (qs, r) \<Longrightarrow> parseProps fr n ps (s @ t) = Some (qs, r @ t)"
proof (induction fr n s and fr n s and fr n ps s arbitrary: v r and vs r and qs r
    rule: parseValue_parseItems_parseProps.induct)
  case (2 fr n s)
  obtain u us where u: "skipSpace s = u # us" using 2(3) by (cases "skipSpace s") auto
  then have ut: "skipSpace (s @ t) = u # us @ t" by (simp add: skipSpace_append)
  consider "u = 34" | "u = 91" | "u = 123" | "u = 116" | "u = 102" | "u = 110"
    | "u \<noteq> 34" "u \<noteq> 91" "u \<noteq> 123" "u \<noteq> 116" "u \<noteq> 102" "u \<noteq> 110" by blast
  then show ?case
  proof cases
    case 1
    then show ?thesis using 2(3) u ut by (auto simp: parseString_append)
  next
    case A: 2
    obtain w ws where w: "skipSpace us = w # ws" using 2(3) u A by (cases "skipSpace us") auto
    then have "skipSpace (us @ t) = w # ws @ t" by (simp add: skipSpace_append)
    then show ?thesis using 2(1) [OF u _ A w] 2(3) u ut w A by (auto split: if_splits)
  next
    case B: 3
    obtain w ws where w: "skipSpace us = w # ws" using 2(3) u B by (cases "skipSpace us") auto
    then have "skipSpace (us @ t) = w # ws @ t" by (simp add: skipSpace_append)
    then show ?thesis using 2(2) [OF u _ _ B w] 2(3) u ut w B by (auto split: if_splits)
  next
    case 7
    then show ?thesis using 2(3,4) u ut parseNumber_append [of fr "u # us"] by auto
  qed (use 2(3) u ut expectWord_append [of _ _ "u # us"] in auto)
next
  case (4 fr n s)
  then obtain x q where x: "parseValue fr n s = Some (x, q)" by (cases "parseValue fr n s") auto
  obtain u us where u: "skipSpace q = u # us" using 4(3) x by (cases "skipSpace q") auto
  then have "q \<noteq> []" by (auto simp: skipSpace_def)
  then have "parseValue fr n (s @ t) = Some (x, q @ t)" using 4(1) [OF x] by simp
  moreover have "skipSpace (q @ t) = u # us @ t" using u by (simp add: skipSpace_append)
  ultimately show ?case using 4(2) [OF x refl u] 4(3) x u by (auto split: if_splits)
next
  case (6 fr n ps s)
  obtain us where u: "skipSpace s = 34 # us" using 6(3) by (auto split: list.splits if_splits)
  obtain k q where k: "parseString us = Some (k, q)" using 6(3) u by (cases "parseString us") auto
  obtain cs where c: "skipSpace q = 58 # cs" using 6(3) u k by (auto split: list.splits if_splits)
  obtain x p where x: "parseValue fr n cs = Some (x, p)" using 6(3) u k c by (cases "parseValue fr n cs") auto
  obtain e es where e: "skipSpace p = e # es" using 6(3) u k c x by (cases "skipSpace p") auto
  then have "p \<noteq> []" by (auto simp: skipSpace_def)
  then have "parseValue fr n (cs @ t) = Some (x, p @ t)" using 6(1) [OF u _ k refl c _ x] by simp
  moreover have "skipSpace (s @ t) = 34 # us @ t" "skipSpace (q @ t) = 58 # cs @ t" "skipSpace (p @ t) = e # es @ t"
    using u c e by (simp_all add: skipSpace_append)
  ultimately show ?case
    using parseString_append [OF k] 6(2) [OF u _ k refl c _ x refl e] 6(3) u k c x e by (auto split: if_splits)
qed auto

declare parseValue.simps(2) [simp del] parseItems.simps(2) [simp del] parseProps.simps(2) [simp del]

lemma parse_Suc:
  "parseValue fr n s = Some x \<Longrightarrow> parseValue fr (Suc n) s = Some x"
  "parseItems fr n s = Some y \<Longrightarrow> parseItems fr (Suc n) s = Some y"
  "parseProps fr n ps s = Some z \<Longrightarrow> parseProps fr (Suc n) ps s = Some z"
proof (induction fr n s and fr n s and fr n ps s arbitrary: x and y and z rule: parseValue_parseItems_parseProps.induct)
  case (2 fr n s)
  obtain u us where u: "skipSpace s = u # us" using 2(3) by (cases "skipSpace s") (auto simp: parseValue.simps(2))
  show ?case
  proof (cases "u = 91 \<or> u = 123")
    case False
    then have "parseValue fr (Suc (Suc n)) s = parseValue fr (Suc n) s" using u by (simp add: parseValue.simps(2))
    then show ?thesis using 2(3) by simp
  next
    case True
    obtain w ws where w: "skipSpace us = w # ws"
      using 2(3) u True by (cases "skipSpace us") (auto simp: parseValue.simps(2))
    show ?thesis
      using 2(1) [OF u _ _ w] 2(2) [OF u _ _ _ w] 2(3) u w True
      by (auto simp: parseValue.simps(2) [of fr _ s] split: if_splits)
  qed
next
  case (4 fr n s)
  then obtain v q where x: "parseValue fr n s = Some (v, q)"
    by (cases "parseValue fr n s") (auto simp: parseItems.simps(2))
  obtain u us where u: "skipSpace q = u # us" using 4(3) x by (cases "skipSpace q") (auto simp: parseItems.simps(2))
  show ?case
    using 4(1) [OF x] 4(2) [OF x refl u] 4(3) x u by (auto simp: parseItems.simps(2) [of fr _ s] split: if_splits)
next
  case (6 fr n ps s)
  note eq = parseProps.simps(2) [of fr _ ps s]
  obtain us where u: "skipSpace s = 34 # us" using 6(3) by (auto simp: eq split: list.splits if_splits)
  obtain k q where k: "parseString us = Some (k, q)" using 6(3) u by (cases "parseString us") (auto simp: eq)
  obtain cs where c: "skipSpace q = 58 # cs" using 6(3) u k by (auto simp: eq split: list.splits if_splits)
  obtain v p where x: "parseValue fr n cs = Some (v, p)" using 6(3) u k c by (cases "parseValue fr n cs") (auto simp: eq)
  obtain e es where e: "skipSpace p = e # es" using 6(3) u k c x by (cases "skipSpace p") (auto simp: eq)
  show ?case
    using 6(1) [OF u _ k refl c _ x] 6(2) [OF u _ k refl c _ x refl e] 6(3) u k c x e by (auto simp: eq split: if_splits)
qed auto

lemma parseValue_mono: "n \<le> m \<Longrightarrow> parseValue fr n s = Some x \<Longrightarrow> parseValue fr m s = Some x"
  by (induction rule: dec_induct) (auto intro: parse_Suc)

lemma parse_skip:
  "parseValue fr n (skipSpace s) = parseValue fr n s"
  "parseItems fr n (skipSpace s) = parseItems fr n s"
  "parseProps fr n ps (skipSpace s) = parseProps fr n ps s"
proof -
  show v: "parseValue fr n (skipSpace s) = parseValue fr n s" for n
    by (cases n) (simp_all add: parseValue.simps(2))
  show "parseItems fr n (skipSpace s) = parseItems fr n s"
    by (cases n) (simp_all add: parseItems.simps(2) v)
  show "parseProps fr n ps (skipSpace s) = parseProps fr n ps s"
    by (cases n) (simp_all add: parseProps.simps(2))
qed

text \<open>A text that is a JSON value, in front of other text.\<close>

lemma jsonParse_prefix:
  assumes "jsonParse fr raw = Some v" "stops t" "2 * length raw + 2 \<le> n"
  obtains q where "parseValue fr n (raw @ t) = Some (v, q)" "skipSpace q = skipSpace t"
proof -
  obtain r where r: "parseValue fr (2 * length raw + 2) raw = Some (v, r)" "skipSpace r = []"
    using assms(1) by (auto simp: jsonParse_def split: option.splits if_splits)
  show thesis
    using that [of "r @ t"] parse_append(1) [OF parseValue_mono [OF assms(3) r(1)]] assms(2) skipSpace_append_blank [OF r(2)]
    by simp
qed

section \<open>Printing\<close>

text \<open>
  \<^verbatim>\<open>JSON.stringify(v, null, 2)\<close>. The line break and the indentation in front of an element are
  \<open>gap\<close> of its depth, and \<open>after\<close> is the space behind a colon; both are empty for \<^verbatim>\<open>JSON.stringify(v)\<close>.
\<close>

fun jsonPrint :: "(nat \<Rightarrow> ustring) \<Rightarrow> ustring \<Rightarrow> nat \<Rightarrow> jsval \<Rightarrow> ustring" where
  "jsonPrint gap after d (JArr xs) =
     (if xs = [] then [91, 93]
      else [91] @ commaSep (map (\<lambda>v. gap (Suc d) @ jsonPrint gap after (Suc d) v) xs) @ gap d @ [93])"
| "jsonPrint gap after d (JObj ps) =
     (let qs = filter (\<lambda>(k, v). v \<noteq> JUndefined) ps in
      if qs = [] then [123, 125]
      else [123] @ commaSep (map (\<lambda>(k, v). gap (Suc d) @ quote k @ [58] @ after @ jsonPrint gap after (Suc d) v) qs) @ gap d @ [125])"
| "jsonPrint gap after d v = jsonStringify v"

definition newline :: "nat \<Rightarrow> ustring" where
  "newline d = 10 # replicate (2 * d) 32"

definition jsonIndented :: "jsval \<Rightarrow> ustring" where
  "jsonIndented v = jsonPrint newline [32] 0 v"

text \<open>Values that the text determines.\<close>

fun plainValue :: "jsval \<Rightarrow> bool" where
  "plainValue JUndefined = False"
| "plainValue JNull = True"
| "plainValue (JBool b) = True"
| "plainValue (JNum n) = (case n of NInt i \<Rightarrow> isSafeInt i | NOther _ \<Rightarrow> False)"
| "plainValue (JBigInt i) = False"
| "plainValue (JStr s) = list_all (\<lambda>u. u < 65536) s"
| "plainValue (JArr xs) = list_all plainValue xs"
| "plainValue (JObj ps) = (list_all (\<lambda>(k, v). list_all (\<lambda>u. u < 65536) k \<and> plainValue v) ps \<and> distinct (map fst ps) \<and> propOrder ps = ps)"

subsection \<open>Strings\<close>

lemma hexDigitValue_hexUnit: "d < 16 \<Longrightarrow> hexDigitValue (hexUnit d) = Some d"
  by (simp add: hexDigitValue_def hexUnit_def)

lemma hex_sum: "(u::nat) < 65536 \<Longrightarrow> 4096 * (u div 4096 mod 16) + 256 * (u div 256 mod 16) + 16 * (u div 16 mod 16) + u mod 16 = u"
proof -
  assume u: "u < 65536"
  have d: "u div 256 = u div 16 div 16" "u div 4096 = u div 16 div 16 div 16"
    by (simp_all add: div_mult2_eq [symmetric])
  have "u div 4096 mod 16 = u div 4096" using u by simp
  then show ?thesis
    using div_mult_mod_eq [of u 16] div_mult_mod_eq [of "u div 16" 16] div_mult_mod_eq [of "u div 16 div 16" 16]
    unfolding d by linarith
qed

lemma parseString_unicodeEscape:
  assumes "u < 65536" "parseString us = Some (s, t)"
  shows "parseString (unicodeEscape u @ us) = Some (u # s, t)"
  using assms hex_sum [OF assms(1)] by (simp add: unicodeEscape_def lit_def hexDigitValue_hexUnit)

lemma parseString_escapeUnit:
  assumes "u < 65536" "parseString us = Some (s, t)"
  shows "parseString (escapeUnit u @ us) = Some (u # s, t)"
  using assms parseString_unicodeEscape [OF assms] by (auto simp: escapeUnit_def simpleEscape_def)

lemma parseString_plain_unit: "32 \<le> u \<Longrightarrow> u \<noteq> 34 \<Longrightarrow> u \<noteq> 92 \<Longrightarrow> parseString us = Some (s, t) \<Longrightarrow> parseString (u # us) = Some (u # s, t)"
  by simp

lemma parseString_escape: "list_all (\<lambda>u. u < 65536) s \<Longrightarrow> parseString (escapeString s @ 34 # t) = Some (s, t)"
proof (induction s rule: escapeString.induct)
  case (2 u)
  then show ?case by (auto intro!: parseString_unicodeEscape parseString_escapeUnit)
next
  case (3 u v us)
  then show ?case
    by (auto intro!: parseString_unicodeEscape parseString_escapeUnit parseString_plain_unit
        simp: isHighSurrogate_def isLowSurrogate_def simp del: parseString.simps(2))
qed simp

subsection \<open>Numbers\<close>

lemma spanDigits_digits: "list_all isDigit ds \<Longrightarrow> stops t \<Longrightarrow> spanDigits (ds @ t) = (ds, t)"
proof (induction ds)
  case Nil
  then show ?case by (cases t) (auto simp: stops_def numberUnit_def)
qed simp

lemma parseNumber_safe:
  assumes "isSafeInt i" "stops t"
  shows "parseNumber fr (bigintToString i @ t) = Some (NInt i, t)"
proof -
  define n where "n = nat \<bar>i\<bar>"
  have sign: "readSign (bigintToString i @ t) = (i < 0, natDigits n @ t)"
    using natDigits_digits [of n] natDigits_not_Nil [of n]
    by (cases "natDigits n") (auto simp: readSign_def bigintToString_def n_def isDigit_def)
  have sp: "spanDigits (natDigits n @ t) = (natDigits n, t)"
    using natDigits_digits assms(2) by (rule spanDigits_digits)
  have lead: "\<not> (natDigits n = [] \<or> (hd (natDigits n) = 48 \<and> length (natDigits n) > 1))"
    using natDigits_hd [of n] by (cases "n = 0") (auto simp: natDigits.simps)
  have "fractionPart t = Some ([], t)" "exponentPart t = Some (0, t)"
    using assms(2) by (cases t; auto simp: fractionPart_def exponentPart_def stops_def numberUnit_def)+
  moreover have "n < 2 ^ 53" using assms(1) by (auto simp: n_def isSafeInt_def MAX_SAFE_INTEGER_def nat_less_iff)
  then have "numberOfInt (i < 0) n = NInt i"
    by (simp add: numberOfInt_def doubleOfNat_def n_def Let_def)
  ultimately show ?thesis
    using lead by (simp add: parseNumber_def sign sp integerValue_def)
qed

subsection \<open>Values\<close>

definition blank :: "ustring \<Rightarrow> bool" where
  "blank w \<longleftrightarrow> list_all isJsonSpace w"

lemma skipSpace_blank: "blank w \<Longrightarrow> skipSpace (w @ s) = skipSpace s"
  by (induction w) (auto simp: blank_def skipSpace_def)

lemma blank_stops: "blank w \<Longrightarrow> \<not> numberUnit u \<Longrightarrow> stops (w @ u # t)"
  by (cases w) (auto simp: blank_def stops_def numberUnit_def isJsonSpace_def isDigit_def)

lemma parse_blank:
  assumes "blank w"
  shows "parseValue fr n (w @ s) = parseValue fr n s" "parseItems fr n (w @ s) = parseItems fr n s"
    "parseProps fr n ps (w @ s) = parseProps fr n ps s"
  by (metis parse_skip skipSpace_blank [OF assms])+

lemma commaSep_Cons: "xs \<noteq> [] \<Longrightarrow> commaSep (x # xs) = x @ 44 # commaSep xs"
  by (cases xs) simp_all

definition parses :: "(ustring \<Rightarrow> jsnum) \<Rightarrow> ustring \<Rightarrow> jsval \<Rightarrow> bool" where
  "parses fr s v \<longleftrightarrow> (\<forall>n t. stops t \<longrightarrow> 2 * length s \<le> n \<longrightarrow> parseValue fr n (s @ t) = Some (v, t))"

lemma not_numberUnit [simp]: "\<not> numberUnit 44" "\<not> numberUnit 93" "\<not> numberUnit 125" "\<not> numberUnit 32" "\<not> numberUnit 10"
  by (simp_all add: numberUnit_def isDigit_def)

lemma skipSpace_unit: "\<not> isJsonSpace u \<Longrightarrow> skipSpace (u # us) = u # us"
  by (simp add: skipSpace_def)

lemma not_space [simp]: "\<not> isJsonSpace 34" "\<not> isJsonSpace 44" "\<not> isJsonSpace 58" "\<not> isJsonSpace 91" "\<not> isJsonSpace 93"
  "\<not> isJsonSpace 123" "\<not> isJsonSpace 125"
  by (simp_all add: isJsonSpace_def)

lemma parseItems_print:
  assumes "\<forall>(s, v)\<in>set items. parses fr s v" "items \<noteq> []" "blank g" "blank w"
    "2 * length (commaSep (map (\<lambda>(s, v). g @ s) items)) + 1 \<le> n"
  shows "parseItems fr n (commaSep (map (\<lambda>(s, v). g @ s) items) @ w @ 93 # t) = Some (map snd items, t)"
  using assms
proof (induction items arbitrary: n)
  case (Cons i items)
  obtain s v where i: "i = (s, v)" by (cases i)
  obtain m where m: "n = Suc m" using Cons.prems(5) by (cases n) auto
  show ?case
  proof (cases "items = []")
    case True
    have "parseValue fr m (s @ w @ 93 # t) = Some (v, w @ 93 # t)"
      using Cons.prems(1,4,5) i True m by (auto simp: parses_def blank_stops)
    then show ?thesis
      using True i m Cons.prems(3,4) by (simp add: parseItems.simps(2) parse_blank skipSpace_blank skipSpace_unit)
  next
    case False
    let ?rest = "commaSep (map (\<lambda>(s, v). g @ s) items) @ w @ 93 # t"
    have len: "length s + 1 + length (commaSep (map (\<lambda>(s, v). g @ s) items)) \<le> length (commaSep (map (\<lambda>(s, v). g @ s) (i # items)))"
      using False i by (simp add: commaSep_Cons)
    have "parseValue fr m (s @ 44 # ?rest) = Some (v, 44 # ?rest)"
      using Cons.prems(1,5) i m len by (auto simp: parses_def stops_def)
    moreover have "parseItems fr m ?rest = Some (map snd items, t)"
      using Cons.prems m False len by (intro Cons.IH) auto
    ultimately show ?thesis
      using i m False Cons.prems(3) by (simp add: commaSep_Cons parseItems.simps(2) parse_blank skipSpace_unit)
  qed
qed simp

lemma parseProps_print:
  assumes "\<forall>(k, s, v)\<in>set items. list_all (\<lambda>u. u < 65536) k \<and> parses fr s v" "items \<noteq> []" "blank g" "blank a" "blank w"
    "2 * length (commaSep (map (\<lambda>(k, s, v). g @ quote k @ [58] @ a @ s) items)) + 1 \<le> n"
  shows "parseProps fr n ps (commaSep (map (\<lambda>(k, s, v). g @ quote k @ [58] @ a @ s) items) @ w @ 125 # t) =
    Some (foldl (\<lambda>ps (k, s, v). setProp k v ps) ps items, t)"
  using assms
proof (induction items arbitrary: n ps)
  case (Cons i items)
  obtain k s v where i: "i = (k, s, v)" by (cases i)
  obtain m where m: "n = Suc m" using Cons.prems(6) by (cases n) auto
  have k: "parseString (escapeString k @ 34 # x) = Some (k, x)" for x
    using Cons.prems(1) i by (intro parseString_escape) auto
  have q: "skipSpace (g @ quote k @ x) = 34 # escapeString k @ 34 # x" for x
    using Cons.prems(3) by (simp add: skipSpace_blank quote_def skipSpace_unit)
  show ?case
  proof (cases "items = []")
    case True
    have "parseValue fr m (s @ w @ 125 # t) = Some (v, w @ 125 # t)"
      using Cons.prems(1,5,6) i True m by (auto simp: parses_def blank_stops)
    then show ?thesis
      using True i m k q Cons.prems(4,5)
      by (simp add: parseProps.simps(2) skipSpace_unit parse_blank skipSpace_blank)
  next
    case False
    let ?texts = "commaSep (map (\<lambda>(k, s, v). g @ quote k @ [58] @ a @ s) items)"
    let ?rest = "?texts @ w @ 125 # t"
    have len: "length s + 1 + length ?texts \<le> length (commaSep (map (\<lambda>(k, s, v). g @ quote k @ [58] @ a @ s) (i # items)))"
      using False i by (simp add: commaSep_Cons)
    have "parseValue fr m (s @ 44 # ?rest) = Some (v, 44 # ?rest)"
      using Cons.prems(1,6) i m len by (auto simp: parses_def stops_def)
    moreover have "parseProps fr m (setProp k v ps) ?rest = Some (foldl (\<lambda>ps (k, s, v). setProp k v ps) (setProp k v ps) items, t)"
      using Cons.prems m False len by (intro Cons.IH) auto
    ultimately show ?thesis
      using i m False k q Cons.prems(4)
      by (simp add: commaSep_Cons parseProps.simps(2) parse_blank skipSpace_unit)
  qed
qed simp

lemma foldl_setProp:
  assumes "distinct (map fst qs @ map fst ps)"
  shows "foldl (\<lambda>ps (k, v). setProp k v ps) ps qs = ps @ qs"
  using assms
proof (induction qs arbitrary: ps)
  case (Cons q qs)
  have "k \<notin> fst ` set ps \<Longrightarrow> setProp k v ps = ps @ [(k, v)]" for k v
    by (induction ps) auto
  then show ?case using Cons by (cases q) auto
qed simp

lemma isSafeInt_text: "isSafeInt i \<Longrightarrow> numberText i = bigintToString i"
  by (auto simp: numberText_def isSafeInt_def)

lemma bigintToString_Cons: "\<exists>u us. bigintToString i = u # us \<and> (u = 45 \<or> isDigit u)"
  using natDigits_not_Nil [of "nat \<bar>i\<bar>"] natDigits_digits [of "nat \<bar>i\<bar>"]
  by (cases "natDigits (nat \<bar>i\<bar>)") (auto simp: bigintToString_def)

lemma parses_number:
  assumes "isSafeInt i"
  shows "parses fr (numberText i) (JNum (NInt i))"
  unfolding parses_def
proof (intro allI impI)
  fix n t assume t: "stops t" and n: "2 * length (numberText i) \<le> n"
  obtain u us where u: "bigintToString i = u # us" "u = 45 \<or> isDigit u" using bigintToString_Cons by blast
  then obtain m where "n = Suc m" using n assms by (cases n) (auto simp: isSafeInt_text)
  moreover have "skipSpace (bigintToString i @ t) = bigintToString i @ t" "u \<notin> {34, 91, 123, 116, 102, 110}"
    using u by (auto simp: skipSpace_def isJsonSpace_def isDigit_def)
  ultimately show "parseValue fr n (numberText i @ t) = Some (JNum (NInt i), t)"
    using u parseNumber_safe [OF assms t, of fr] by (simp add: isSafeInt_text [OF assms] parseValue.simps(2))
qed

lemma parses_string: "list_all (\<lambda>u. u < 65536) s \<Longrightarrow> parses fr (quote s) (JStr s)"
  unfolding parses_def
proof (intro allI impI)
  fix n t assume s: "list_all (\<lambda>u. u < 65536) s" and n: "2 * length (quote s) \<le> n"
  then obtain m where "n = Suc m" by (cases n) (auto simp: quote_def)
  then show "parseValue fr n (quote s @ t) = Some (JStr s, t)"
    using parseString_escape [OF s, of t] by (simp add: quote_def parseValue.simps(2) skipSpace_unit)
qed

lemma parses_word:
  "parses fr (lit ''null'') JNull" "parses fr (lit ''true'') (JBool True)" "parses fr (lit ''false'') (JBool False)"
proof -
  have "parseValue fr n (lit ''null'' @ t) = Some (JNull, t)" "parseValue fr n (lit ''true'' @ t) = Some (JBool True, t)"
    "parseValue fr n (lit ''false'' @ t) = Some (JBool False, t)" if "0 < n" for n t
    using that by (cases n; simp add: lit_def parseValue.simps(2) skipSpace_def isJsonSpace_def expectWord_def)+
  then show "parses fr (lit ''null'') JNull" "parses fr (lit ''true'') (JBool True)" "parses fr (lit ''false'') (JBool False)"
    by (simp_all add: parses_def lit_def)
qed

lemma commaSep_head:
  assumes "xs \<noteq> []" "blank g"
  shows "\<exists>us. skipSpace (commaSep (map (\<lambda>x. g @ f x) xs) @ t) = skipSpace (f (hd xs) @ us)"
proof (cases xs)
  case (Cons x ys)
  then show ?thesis using assms(2) by (cases ys) (auto simp: skipSpace_blank)
qed (use assms in simp)

lemma bigintToString_first: "\<exists>u us. bigintToString i = u # us \<and> \<not> isJsonSpace u \<and> u \<noteq> 93 \<and> u \<noteq> 125"
  using bigintToString_Cons [of i] by (auto simp: isJsonSpace_def isDigit_def)

lemma print_first:
  assumes "plainValue v"
  shows "\<exists>u us. jsonPrint gap a d v = u # us \<and> \<not> isJsonSpace u \<and> u \<noteq> 93 \<and> u \<noteq> 125"
  using assms bigintToString_first
  by (cases "(gap, a, d, v)" rule: jsonPrint.cases)
    (auto simp: Let_def quote_def lit_def isJsonSpace_def [of "_ :: nat"] isSafeInt_text split: jsnum.splits)+

lemma parse_empty:
  assumes "4 \<le> n"
  shows "parseValue fr n (91 # 93 # t) = Some (JArr [], t)" "parseValue fr n (123 # 125 # t) = Some (JObj [], t)"
  using assms by (cases n; simp add: parseValue.simps(2) skipSpace_unit)+

lemma parses_array:
  assumes "\<forall>x\<in>set xs. parses fr (jsonPrint gap a (Suc d) x) x" "\<forall>x\<in>set xs. plainValue x" "\<And>d. blank (gap d)"
  shows "parses fr (jsonPrint gap a d (JArr xs)) (JArr xs)"
proof (cases "xs = []")
  case True
  then show ?thesis by (simp add: parses_def parse_empty)
next
  case False
  let ?items = "map (\<lambda>x. (jsonPrint gap a (Suc d) x, x)) xs"
  let ?body = "commaSep (map (\<lambda>(s, v). gap (Suc d) @ s) ?items)"
  have shape: "jsonPrint gap a d (JArr xs) = 91 # ?body @ gap d @ [93]"
    using False by (simp add: comp_def)
  show ?thesis
    unfolding parses_def shape
  proof (intro allI impI)
    fix n t assume n: "2 * length (91 # ?body @ gap d @ [93]) \<le> n"
    then obtain m where m: "n = Suc m" by (cases n) auto
    have items: "parseItems fr m (?body @ gap d @ 93 # t) = Some (xs, t)"
      using parseItems_print [of ?items fr "gap (Suc d)" "gap d" m t] assms False n m by (auto simp: comp_def)
    obtain us where us: "skipSpace (?body @ gap d @ 93 # t) = skipSpace (jsonPrint gap a (Suc d) (hd xs) @ us)"
      using commaSep_head [OF False assms(3), where f = "jsonPrint gap a (Suc d)"] by (auto simp: comp_def)
    obtain u vs where "jsonPrint gap a (Suc d) (hd xs) = u # vs" "\<not> isJsonSpace u" "u \<noteq> 93"
      using print_first [of "hd xs" gap a "Suc d"] assms(2) False by auto
    then have "skipSpace (?body @ gap d @ 93 # t) = u # vs @ us" "u \<noteq> 93" using us by (simp_all add: skipSpace_unit)
    then show "parseValue fr n ((91 # ?body @ gap d @ [93]) @ t) = Some (JArr xs, t)"
      using items m by (simp add: parseValue.simps(2) skipSpace_unit)
  qed
qed

lemma parses_object:
  assumes "\<forall>(k, v)\<in>set ps. list_all (\<lambda>u. u < 65536) k \<and> plainValue v \<and> parses fr (jsonPrint gap a (Suc d) v) v"
    "distinct (map fst ps)" "propOrder ps = ps" "\<And>d. blank (gap d)" "blank a"
  shows "parses fr (jsonPrint gap a d (JObj ps)) (JObj ps)"
proof -
  have all: "filter (\<lambda>(k, v). v \<noteq> JUndefined) ps = ps"
    using assms(1) by (intro filter_True) auto
  show ?thesis
  proof (cases "ps = []")
    case True
    then show ?thesis by (simp add: parses_def parse_empty)
  next
    case False
    let ?items = "map (\<lambda>(k, v). (k, jsonPrint gap a (Suc d) v, v)) ps"
    let ?body = "commaSep (map (\<lambda>(k, s, v). gap (Suc d) @ quote k @ [58] @ a @ s) ?items)"
    have shape: "jsonPrint gap a d (JObj ps) = 123 # ?body @ gap d @ [125]"
      using False unfolding jsonPrint.simps Let_def all by (simp add: comp_def split_def)
    show ?thesis
      unfolding parses_def shape
    proof (intro allI impI)
      fix n t assume n: "2 * length (123 # ?body @ gap d @ [125]) \<le> n"
      then obtain m where m: "n = Suc m" by (cases n) auto
      have "parseProps fr m [] (?body @ gap d @ 125 # t) = Some (foldl (\<lambda>ps (k, s, v). setProp k v ps) [] ?items, t)"
        using assms(1,4,5) False n m by (intro parseProps_print) auto
      moreover have "foldl (\<lambda>ps (k, s, v). setProp k v ps) [] ?items = ps"
        using foldl_setProp [of ps "[]"] assms(2) by (simp add: foldl_map split_def)
      ultimately have props: "parseProps fr m [] (?body @ gap d @ 125 # t) = Some (ps, t)" by simp
      obtain us where "skipSpace (?body @ gap d @ 125 # t) = skipSpace ((quote (fst (hd ps)) @ [58] @ a @ jsonPrint gap a (Suc d) (snd (hd ps))) @ us)"
        using commaSep_head [OF False assms(4), where f = "\<lambda>(k, v). quote k @ [58] @ a @ jsonPrint gap a (Suc d) v"]
        by (auto simp: comp_def case_prod_beta)
      then obtain vs where "skipSpace (?body @ gap d @ 125 # t) = 34 # vs"
        by (simp add: quote_def skipSpace_unit)
      then show "parseValue fr n ((123 # ?body @ gap d @ [125]) @ t) = Some (JObj ps, t)"
        using props m assms(3) by (simp add: parseValue.simps(2) skipSpace_unit)
    qed
  qed
qed

lemma parses_print:
  "plainValue v \<Longrightarrow> (\<And>d. blank (gap d)) \<Longrightarrow> blank a \<Longrightarrow> parses fr (jsonPrint gap a d v) v"
proof (induction gap a d v rule: jsonPrint.induct)
  case (1 gap a d xs)
  then have "\<forall>x\<in>set xs. parses fr (jsonPrint gap a (Suc d) x) x" by (cases "xs = []") (auto simp: list_all_iff)
  then show ?case using 1(2-4) by (intro parses_array) (auto simp: list_all_iff)
next
  case (2 gap a d ps)
  let ?qs = "filter (\<lambda>(k, v). v \<noteq> JUndefined) ps"
  have p: "list_all (\<lambda>u. u < 65536) k" "plainValue v" if "(k, v) \<in> set ps" for k v
    using that 2(2) by (auto simp: list_all_iff)
  have "parses fr (jsonPrint gap a (Suc d) v) v" if "(k, v) \<in> set ps" for k v
  proof -
    have "(k, v) \<in> set ?qs" using that p(2) [OF that] by auto
    moreover from this have "?qs \<noteq> []" by (metis list.distinct(1) list.set_cases)
    ultimately show ?thesis using 2(3,4) p(2) [OF that] by (intro 2(1) [of ?qs "(k, v)" k v]) simp_all
  qed
  then show ?case using 2(2-4) p by (intro parses_object) auto
qed (auto intro: parses_string parses_word parses_number split: jsnum.splits)

lemma jsonParse_print:
  assumes "plainValue v" "\<And>d. blank (gap d)" "blank a" "blank w"
  shows "jsonParse fr (jsonPrint gap a 0 v @ w) = Some v"
proof -
  have "stops w" using assms(4) by (cases w) (auto simp: stops_def blank_def isJsonSpace_def numberUnit_def isDigit_def)
  then have "parseValue fr (2 * length (jsonPrint gap a 0 v @ w) + 2) (jsonPrint gap a 0 v @ w) = Some (v, w)"
    using parses_print [OF assms(1-3)] by (simp add: parses_def)
  moreover have "skipSpace w = []" using skipSpace_blank [OF assms(4), of "[]"] by (simp add: skipSpace_def)
  ultimately show ?thesis by (simp add: jsonParse_def)
qed

section \<open>UTF-8\<close>

definition validCodePoint :: "nat \<Rightarrow> bool" where
  "validCodePoint c \<longleftrightarrow> c < 1114112 \<and> \<not> (55296 \<le> c \<and> c \<le> 57343)"

definition utf8Units :: "nat \<Rightarrow> nat list" where
  "utf8Units c =
     (if c < 128 then [c]
      else if c < 2048 then [192 + c div 64, 128 + c mod 64]
      else if c < 65536 then [224 + c div 4096, 128 + c div 64 mod 64, 128 + c mod 64]
      else [240 + c div 262144, 128 + c div 4096 mod 64, 128 + c div 64 mod 64, 128 + c mod 64])"

lemma unat_encode:
  assumes "c < 1114112"
  shows "map unat (encodeCodePoint c) = utf8Units c"
proof -
  have u: "unat (of_nat n :: 8 word) = n" if "n < 256" for n
    using that by (simp add: unat_of_nat)
  have "128 + x mod 64 < 256" for x :: nat
    using mod_less_divisor [of 64 x] by linarith
  moreover have "c < 2048 \<Longrightarrow> 192 + c div 64 < 256" "c < 65536 \<Longrightarrow> 224 + c div 4096 < 256" "240 + c div 262144 < 256"
    using assms by linarith+
  ultimately show ?thesis
    unfolding encodeCodePoint_def utf8Units_def using assms by (simp del: of_nat_add of_nat_numeral add: u)
qed

lemma utf8Loop_tail:
  assumes "lower \<le> b" "b \<le> upper"
  shows "utf8Loop (Suc 0) lower upper cp (b # bs) = Some (cp * 64 + (b - 128)) # utf8Loop 0 0 0 0 bs"
    "utf8Loop 2 lower upper cp (b # bs) = utf8Loop (Suc 0) 128 191 (cp * 64 + (b - 128)) bs"
    "utf8Loop 3 lower upper cp (b # bs) = utf8Loop 2 128 191 (cp * 64 + (b - 128)) bs"
  using assms by (simp_all add: numeral_2_eq_2 numeral_3_eq_3 Let_def)

lemma utf8Loop_lead:
  "194 \<le> b \<Longrightarrow> b \<le> 223 \<Longrightarrow> utf8Loop 0 l u p (b # bs) = utf8Loop (Suc 0) 128 191 (b - 192) bs"
  "224 \<le> b \<Longrightarrow> b \<le> 239 \<Longrightarrow> utf8Loop 0 l u p (b # bs) =
     utf8Loop 2 (if b = 224 then 160 else 128) (if b = 237 then 159 else 191) (b - 224) bs"
  "240 \<le> b \<Longrightarrow> b \<le> 244 \<Longrightarrow> utf8Loop 0 l u p (b # bs) =
     utf8Loop 3 (if b = 240 then 144 else 128) (if b = 244 then 143 else 191) (b - 240) bs"
  by simp_all

declare utf8Loop.simps(3,4) [simp del]

lemma utf8Loop_units:
  assumes "validCodePoint c"
  shows "utf8Loop 0 l u p (utf8Units c @ bs) = Some c # utf8Loop 0 0 0 0 bs"
proof -
  consider "c < 128" | "128 \<le> c" "c < 2048" | "2048 \<le> c" "c < 65536" | "65536 \<le> c" by linarith
  then show ?thesis
  proof cases
    case 1
    then show ?thesis by (simp add: utf8Units_def utf8Loop.simps(3))
  next
    case 2
    define q r where "q = c div 64" and "r = c mod 64"
    have c: "c = q * 64 + r" "r < 64" by (auto simp: q_def r_def)
    then have "2 \<le> q" "q < 32" using 2 by linarith+
    moreover have "utf8Units c = [192 + q, 128 + r]" using 2 by (simp add: utf8Units_def q_def r_def)
    ultimately show ?thesis using c by (simp add: utf8Loop_lead utf8Loop_tail)
  next
    case 3
    define q1 q2 r where "q1 = c div 4096" and "q2 = c div 64 mod 64" and "r = c mod 64"
    have c: "c = (q1 * 64 + q2) * 64 + r"
      using div_mult_mod_eq [of c 64] div_mult_mod_eq [of "c div 64" 64] div_mult2_eq [of c 64 64] by (simp add: q1_def q2_def r_def)
    have b: "r < 64" "q2 < 64" by (auto simp: q2_def r_def)
    have q1: "q1 < 16" using 3 by (simp add: q1_def less_mult_imp_div_less)
    have "32 \<le> q2" if "q1 = 0" using c b(1) 3(1) that by simp
    moreover have "q2 < 32" if "q1 = 13" using c b assms that unfolding validCodePoint_def by simp
    moreover have "utf8Units c = [224 + q1, 128 + q2, 128 + r]" using 3 by (simp add: utf8Units_def q1_def q2_def r_def)
    ultimately show ?thesis
      using c b q1 by (cases "q1 = 0"; cases "q1 = 13") (simp_all add: utf8Loop_lead utf8Loop_tail)
  next
    case 4
    define q1 q2 q3 r where "q1 = c div 262144" and "q2 = c div 4096 mod 64" and "q3 = c div 64 mod 64" and "r = c mod 64"
    have c: "c = ((q1 * 64 + q2) * 64 + q3) * 64 + r"
      using div_mult_mod_eq [of c 64] div_mult_mod_eq [of "c div 64" 64] div_mult_mod_eq [of "c div 4096" 64]
        div_mult2_eq [of c 64 64] div_mult2_eq [of c 4096 64] by (simp add: q1_def q2_def q3_def r_def)
    have b: "r < 64" "q3 < 64" "q2 < 64" by (auto simp: q2_def q3_def r_def)
    have q1: "q1 < 5" using assms by (simp add: q1_def validCodePoint_def less_mult_imp_div_less)
    have "16 \<le> q2" if "q1 = 0" using c b(1,2) 4(1) that by simp
    moreover have "q2 < 16" if "q1 = 4" using c assms that unfolding validCodePoint_def by simp
    moreover have "utf8Units c = [240 + q1, 128 + q2, 128 + q3, 128 + r]" using 4 by (simp add: utf8Units_def q1_def q2_def q3_def r_def)
    ultimately show ?thesis
      using c b q1 by (cases "q1 = 0"; cases "q1 = 4") (simp_all add: utf8Loop_lead utf8Loop_tail)
  qed
qed

text \<open>Texts without lone surrogates.\<close>

fun wfText :: "ustring \<Rightarrow> bool" where
  "wfText [] = True"
| "wfText [u] = (u < 65536 \<and> \<not> isHighSurrogate u \<and> \<not> isLowSurrogate u)"
| "wfText (u # v # us) =
     (if isHighSurrogate u \<and> isLowSurrogate v then wfText us
      else u < 65536 \<and> \<not> isHighSurrogate u \<and> \<not> isLowSurrogate u \<and> wfText (v # us))"

definition bufferText :: "bytes \<Rightarrow> ustring" where
  "bufferText bs = concat (map (\<lambda>c. toUtf16 (case c of None \<Rightarrow> 65533 | Some k \<Rightarrow> k)) (utf8Loop 0 0 0 0 (map unat bs)))"

lemma codePoints_valid: "wfText s \<Longrightarrow> list_all validCodePoint (codePoints s)"
  by (induction s rule: wfText.induct) (auto simp: validCodePoint_def isHighSurrogate_def isLowSurrogate_def)

lemma toUtf16_pair:
  assumes "isHighSurrogate u" "isLowSurrogate v"
  shows "toUtf16 (65536 + (u - 55296) * 1024 + (v - 56320)) = [u, v]"
proof -
  have v: "v - 56320 < 1024" using assms(2) unfolding isLowSurrogate_def by linarith
  have "65536 + (u - 55296) * 1024 + (v - 56320) - 65536 = (v - 56320) + (u - 55296) * 1024" by simp
  then show ?thesis
    using assms v div_mult_self1 [of 1024 "v - 56320" "u - 55296"] mod_mult_self1 [of "v - 56320" "u - 55296" 1024]
    unfolding toUtf16_def isHighSurrogate_def isLowSurrogate_def by simp
qed

lemma codePoints_text: "wfText s \<Longrightarrow> concat (map toUtf16 (codePoints s)) = s"
proof (induction s rule: wfText.induct)
  case (3 u v us)
  then show ?case by (cases "isHighSurrogate u \<and> isLowSurrogate v") (auto simp: toUtf16_pair toUtf16_def [of u])
qed (auto simp: toUtf16_def)

lemma utf8Loop_encoded:
  "list_all validCodePoint cs \<Longrightarrow> utf8Loop 0 0 0 0 (map unat (concat (map encodeCodePoint cs))) = map Some cs"
proof (induction cs)
  case (Cons c cs)
  then show ?case
    using utf8Loop_units [of c 0 0 0] unat_encode [of c] by (simp add: validCodePoint_def)
qed simp

lemma bufferText_encode: "wfText s \<Longrightarrow> bufferText (utf8Encode s) = s"
  by (simp add: bufferText_def utf8Encode_def utf8Loop_encoded codePoints_valid comp_def codePoints_text)

subsection \<open>Printed text is well formed\<close>

definition asciiUnit :: "nat \<Rightarrow> bool" where
  "asciiUnit u \<longleftrightarrow> u < 128"

lemma wfText_ascii: "asciiUnit u \<Longrightarrow> wfText (u # us) = wfText us"
  by (cases us) (auto simp: asciiUnit_def isHighSurrogate_def isLowSurrogate_def)

lemma wfText_ascii_append: "list_all asciiUnit a \<Longrightarrow> wfText (a @ us) = wfText us"
  by (induction a) (auto simp: wfText_ascii)

lemma wfText_append: "wfText a \<Longrightarrow> wfText b \<Longrightarrow> wfText (a @ b)"
proof (induction a rule: wfText.induct)
  case (2 u)
  then show ?case by (cases b) auto
qed auto

lemma ascii_unicodeEscape: "list_all asciiUnit (unicodeEscape u)"
proof -
  have "asciiUnit (hexUnit d)" if "d < 16" for d
    using that by (simp add: asciiUnit_def hexUnit_def)
  then show ?thesis by (simp add: unicodeEscape_def lit_def asciiUnit_def)
qed

lemma wfText_escapeUnit:
  "u < 65536 \<Longrightarrow> \<not> isHighSurrogate u \<Longrightarrow> \<not> isLowSurrogate u \<Longrightarrow> wfText (escapeUnit u)"
  using wfText_ascii_append [OF ascii_unicodeEscape [of u], of "[]"]
  by (auto simp: escapeUnit_def isHighSurrogate_def isLowSurrogate_def)

lemma wfText_unicodeEscape: "wfText (unicodeEscape u)"
  using wfText_ascii_append [OF ascii_unicodeEscape [of u], of "[]"] by simp

lemma wfText_escape: "list_all (\<lambda>u. u < 65536) s \<Longrightarrow> wfText (escapeString s)"
  by (induction s rule: escapeString.induct) (auto intro: wfText_append wfText_unicodeEscape wfText_escapeUnit)

lemma wfText_quote: "list_all (\<lambda>u. u < 65536) s \<Longrightarrow> wfText (quote s)"
  using wfText_append [OF wfText_escape, of s "[34]"]
  by (simp add: quote_def wfText_ascii asciiUnit_def isHighSurrogate_def isLowSurrogate_def)

lemma wfText_commaSep: "\<forall>x\<in>set xs. wfText x \<Longrightarrow> wfText (commaSep xs)"
  by (induction xs rule: commaSep.induct) (auto intro!: wfText_append simp: wfText_ascii asciiUnit_def)

lemma ascii_digits: "list_all isDigit ds \<Longrightarrow> list_all asciiUnit ds"
  by (induction ds) (auto simp: isDigit_def asciiUnit_def)

lemma wfText_number: "wfText (bigintToString i)"
  using wfText_ascii_append [OF ascii_digits [OF natDigits_digits], of _ "[]"]
  by (simp add: bigintToString_def wfText_ascii asciiUnit_def)

lemma wfText_blank: "blank w \<Longrightarrow> wfText (w @ s) = wfText s"
  by (induction w) (auto simp: blank_def wfText_ascii asciiUnit_def isJsonSpace_def)

lemma wfText_print:
  "plainValue v \<Longrightarrow> (\<And>d. blank (gap d)) \<Longrightarrow> blank a \<Longrightarrow> wfText (jsonPrint gap a d v)"
proof (induction gap a d v rule: jsonPrint.induct)
  case (1 gap a d xs)
  have "wfText (commaSep (map (\<lambda>v. gap (Suc d) @ jsonPrint gap a (Suc d) v) xs))"
    using 1 by (cases "xs = []") (auto intro!: wfText_commaSep simp: wfText_blank list_all_iff)
  then show ?case
    using wfText_append [of _ "gap d @ [93]"] 1(3) by (simp add: wfText_ascii asciiUnit_def wfText_blank isHighSurrogate_def isLowSurrogate_def)
next
  case (2 gap a d ps)
  let ?qs = "filter (\<lambda>(k, v). v \<noteq> JUndefined) ps"
  have "wfText (gap (Suc d) @ quote k @ [58] @ a @ jsonPrint gap a (Suc d) v)" if "(k, v) \<in> set ?qs" for k v
  proof -
    have "?qs \<noteq> []" using that by (metis list.distinct(1) list.set_cases)
    moreover have kv: "list_all (\<lambda>u. u < 65536) k" "plainValue v" using that 2(2) by (auto simp: list_all_iff)
    ultimately have "wfText (jsonPrint gap a (Suc d) v)" using 2(3,4) that by (intro 2(1) [of ?qs "(k, v)" k v]) simp_all
    then show ?thesis
      using wfText_append [OF wfText_quote [OF kv(1)]] 2(3,4) by (simp add: wfText_ascii asciiUnit_def wfText_blank)
  qed
  then have "wfText (commaSep (map (\<lambda>(k, v). gap (Suc d) @ quote k @ [58] @ a @ jsonPrint gap a (Suc d) v) ?qs))"
    by (intro wfText_commaSep) auto
  then show ?case
    using wfText_append [of _ "gap d @ [125]"] 2(3)
    by (simp add: wfText_ascii asciiUnit_def wfText_blank isHighSurrogate_def isLowSurrogate_def Let_def)
qed (auto simp: wfText_quote wfText_number isSafeInt_text lit_def isHighSurrogate_def isLowSurrogate_def split: jsnum.splits)

end
