(* ===== verification/Change_Log_Agreement.thy ===== *)
theory Change_Log_Agreement
  imports Change_Log_Scan JS_Json_Text
begin

text \<open>
  The streaming scanner and the codec read the same documents: what the scanner accepts,
  \<^verbatim>\<open>JSON.parse\<close> parses, and normalising the parsed document gives the same entries and result.
\<close>

section \<open>The text scanner and the parser\<close>




lemma succeed_Some [simp]: "succeed m = Some a \<longleftrightarrow> m = Inr a"
  by (cases m) (auto simp: succeed_def)





fun entriesOf :: "ChangeLogStreamEvent list \<Rightarrow> NormalizedChangeLogEntry list" where
  "entriesOf [] = []"
| "entriesOf (EntryEvent e i # es) = e # entriesOf es"
| "entriesOf (CompleteEvent r # es) = entriesOf es"

lemma entriesOf_append [simp]: "entriesOf (es @ fs) = entriesOf es @ entriesOf fs"
  by (induction es rule: entriesOf.induct) simp_all




















section \<open>The scanner and the codec\<close>



lemma header_cong:
  assumes "\<And>k. k \<in> {''format'', ''version'', ''complete'', ''changeCount'', ''sourceChangeCount'', ''unavailableChangeCount'',
     ''unavailableChangeSerials'', ''before'', ''after''} \<Longrightarrow> getProp d k = getProp d' k"
  shows "normalizeChangeLogHeader limits d n = normalizeChangeLogHeader limits d' n"
  by (simp add: normalizeChangeLogHeader_def assms)





section \<open>A sample text\<close>

lemmas scanPiece_Cons = scanPiece.simps(2) [unfolded Let_def]
lemmas duplicate_Cons = duplicateLoop.simps(2) [unfolded Let_def]
declare duplicateLoop.simps(2) [simp del]

lemmas raw_eval = tRaw_def scanPiece_Cons modeOf_def newScan_def isDelimiter_def skipSpace_def isJsonSpace_def
lemmas value_eval = parseRawJson_def assertNoDuplicateJsonProperties_def duplicate_Cons literalKey_def

definition member :: "string \<Rightarrow> string \<Rightarrow> ustring" where
  "member k v = 34 # lit k @ [34, 58] @ lit v"

text \<open>A member name of plain characters.\<close>

definition plainUnit :: "nat \<Rightarrow> bool" where
  "plainUnit u \<longleftrightarrow> 32 \<le> u \<and> u \<noteq> 34 \<and> u \<noteq> 92"

lemma scanPiece_plain:
  "list_all plainUnit k \<Longrightarrow> scanPiece StringMode mx \<lparr>inString = True, escaped = False, nesting = 0\<rparr> (k @ 34 # t) =
     Inr (length k + 1, \<lparr>inString = False, escaped = False, nesting = 0\<rparr>, True)"
  by (induction k) (simp_all add: scanPiece_Cons plainUnit_def)

lemma parseString_plain: "list_all plainUnit k \<Longrightarrow> parseString (k @ 34 # t) = Some (k, t)"
  by (induction k) (simp_all add: plainUnit_def)

lemma spanString_plain: "list_all plainUnit k \<Longrightarrow> spanString False (k @ 34 # t) = (k @ [34], t)"
  by (induction k) (simp_all add: plainUnit_def)

lemma tName_plain:
  assumes "list_all plainUnit k" "int (length k) + 2 \<le> min (maxHeaderValueChars limits) 65536"
  shows "tName fr limits (34 # k @ 34 # 58 # t) = Some (k, 58 # t)"
proof -
  have sp: "scanPiece StringMode mx newScan (34 # k @ 34 # 58 # t) =
      Inr (Suc (length k + 1), \<lparr>inString = False, escaped = False, nesting = 0\<rparr>, True)" for mx
    using scanPiece_plain [OF assms(1), of mx "58 # t"] by (simp add: scanPiece_Cons newScan_def)
  have "tRaw (min (maxHeaderValueChars limits) 65536) (maxNesting limits) (34 # k @ 34 # 58 # t) = Some (34 # k @ [34], 58 # t)"
    using assms(2) sp by (auto simp: tRaw_def skipSpace_def isJsonSpace_def modeOf_def Let_def min_def)
  moreover have "parseRawJson fr (34 # k @ [34]) = Inr (JStr k)"
    using parseString_plain [OF assms(1), of "[]"] spanString_plain [OF assms(1), of "[]"]
    by (simp add: value_eval jsonParse_def parse_numeral parseValue.simps(2) skipSpace_def isJsonSpace_def required_simps)
  ultimately show ?thesis by (simp add: tName_def asString_def succeed_def)
qed

lemma tProps_header_step:
  assumes "list_all plainUnit (lit k)" "int (length k) + 2 \<le> min (maxHeaderValueChars limits) 65536"
    "lit k \<notin> set seen" "lit k \<noteq> lit ''changes''" "tHeader fr limits (lit raw @ 44 # 34 # t) = Some (v, 44 # 34 # t)"
  shows "tProps fr limits seen saw doc a (member k raw @ 44 # 34 # t) =
    tProps fr limits (lit k # seen) saw (assign (lit k) v doc) a (34 # t)"
proof -
  have "member k raw @ 44 # 34 # t = 34 # lit k @ 34 # 58 # lit raw @ 44 # 34 # t" by (simp add: member_def)
  moreover have "tName fr limits (34 # lit k @ 34 # 58 # lit raw @ 44 # 34 # t) = Some (lit k, 58 # lit raw @ 44 # 34 # t)"
    using assms(1,2) by (intro tName_plain) (simp_all add: lit_def)
  moreover have "tExpect 58 (58 # x) = Some x" for x by (simp add: tExpect_def skipSpace_def isJsonSpace_def)
  moreover have "tDelimiter 125 (44 # 34 # t) = Some (False, 34 # t)"
    by (simp add: tDelimiter_def skipSpace_def isJsonSpace_def startsWith_def)
  ultimately show ?thesis
    using assms(3-5) by (cases "tProps fr limits (lit k # seen) saw (assign (lit k) v doc) a (34 # t)")
      (auto simp: tProps.simps [of fr limits seen] tValue_def)
qed

text \<open>The text of the sample document: its header members and one entry.\<close>

definition fingerprintText :: "string \<Rightarrow> string" where
  "fingerprintText n = ''{\"byteLength\":'' @ n @
     '',\"digest\":{\"algorithm\":\"SHA256\",\"value\":\"aB\",\"pluginId\":\"p.d\"}}''"

definition sampleMembers :: "(string \<times> string \<times> jsval) list" where
  "sampleMembers = [(''format'', ''\"omega-edit.change-log\"'', JStr (lit CHANGE_LOG_FORMAT)), (''version'', ''2'', JNum (NInt 2)),
     (''complete'', ''false'', JBool False), (''before'', fingerprintText ''4'', sampleFingerprint 4),
     (''after'', fingerprintText ''5'', sampleFingerprint 5), (''changeCount'', ''1'', JNum (NInt 1)),
     (''sourceChangeCount'', ''\"2\"'', JStr (lit ''2'')), (''unavailableChangeCount'', ''1'', JNum (NInt 1)),
     (''unavailableChangeSerials'', ''[2]'', JArr [JNum (NInt 2)])]"

definition changeText :: string where
  "changeText = ''{\"kind\":\"INSERT\",\"offset\":2,\"length\":1,\"data\":\"Ff\"}''"

fun membersText :: "(string \<times> string \<times> jsval) list \<Rightarrow> ustring \<Rightarrow> ustring" where
  "membersText [] t = t"
| "membersText ((k, raw, v) # ms) t = member k raw @ 44 # membersText ms t"

definition sampleText :: ustring where
  "sampleText = 123 # membersText sampleMembers (34 # lit ''changes'' @ 34 # 58 # 91 # lit changeText @ [93, 125])"

lemma membersText_quote: "\<exists>t'. membersText ms (34 # t) = 34 # t'"
  by (cases ms) (auto simp: member_def)

definition goodMember :: "(ustring \<Rightarrow> jsnum) \<Rightarrow> ChangeLogCodecLimits \<Rightarrow> string \<times> string \<times> jsval \<Rightarrow> bool" where
  "goodMember fr limits m \<longleftrightarrow> (case m of (k, raw, v) \<Rightarrow>
     list_all plainUnit (lit k) \<and> int (length k) + 2 \<le> min (maxHeaderValueChars limits) 65536 \<and> k \<noteq> ''changes'' \<and>
     (\<forall>t. tHeader fr limits (lit raw @ 44 # 34 # t) = Some (v, 44 # 34 # t)))"

lemma tProps_members:
  assumes "list_all (goodMember fr limits) ms" "distinct (map fst ms)" "set (map (\<lambda>m. lit (fst m)) ms) \<inter> set seen = {}"
  shows "tProps fr limits seen saw doc a (membersText ms (34 # t)) =
    tProps fr limits (rev (map (\<lambda>m. lit (fst m)) ms) @ seen) saw (foldl (\<lambda>d (k, raw, v). assign (lit k) v d) doc ms) a (34 # t)"
  using assms
proof (induction ms arbitrary: seen doc)
  case (Cons m ms)
  obtain k raw v where m: "m = (k, raw, v)" by (cases m)
  obtain t' where t': "membersText ms (34 # t) = 34 # t'" using membersText_quote by blast
  have "tProps fr limits seen saw doc a (member k raw @ 44 # 34 # t') =
      tProps fr limits (lit k # seen) saw (assign (lit k) v doc) a (34 # t')"
    using Cons.prems by (intro tProps_header_step) (auto simp: m goodMember_def)
  moreover have "tProps fr limits (lit k # seen) saw (assign (lit k) v doc) a (membersText ms (34 # t)) =
    tProps fr limits (rev (map (\<lambda>m. lit (fst m)) ms) @ lit k # seen) saw
      (foldl (\<lambda>d (k, raw, v). assign (lit k) v d) (assign (lit k) v doc) ms) a (34 # t)"
    using Cons.prems by (intro Cons.IH) (auto simp: m image_iff)
  ultimately show ?case
    by (simp add: m t')
qed simp

lemma defaultLimits_sel:
  "maxHeaderValueChars defaultLimits = 16777216" "maxNesting defaultLimits = 256" "maxStringChars defaultLimits = 134217728"
  "maxEntryChars defaultLimits = 134221824"
  by (simp_all add: defaultLimits_def)

lemmas text_eval = expectWord_def defaultLimits_sel raw_eval value_eval json_eval
lemmas check_eval = validateChangeLogJsonValue.simps defaultLimits_sel isHighSurrogate_def isLowSurrogate_def lit_def

lemma tHeader_fingerprint:
  assumes "n = ''4'' \<and> i = 4 \<or> n = ''5'' \<and> i = 5"
  shows "tHeader fr defaultLimits (lit (fingerprintText n) @ 44 # 34 # t) = Some (sampleFingerprint i, 44 # 34 # t)"
proof -
  have raw: "tRaw 16777216 256 (lit (fingerprintText n) @ 44 # 34 # t) = Some (lit (fingerprintText n), 44 # 34 # t)"
    using assms by (elim disjE) (simp_all add: fingerprintText_def raw_eval lit_def)
  have "duplicateLoop fr [] (lit (fingerprintText n)) = Inr ()"
    using assms by (elim disjE) (simp_all add: fingerprintText_def duplicate_Cons literalKey_def json_eval)
  moreover have "jsonParse fr (lit (fingerprintText n)) = Some (sampleFingerprint i)"
    using assms by (elim disjE) (simp_all add: fingerprintText_def sampleFingerprint_def json_eval)
  moreover have "validateChangeLogJsonValue defaultLimits 0 (sampleFingerprint i) = Inr ()"
    by (simp add: sampleFingerprint_def check_eval)
  ultimately show ?thesis
    using raw by (simp add: tHeader_def succeed_def defaultLimits_sel parseRawJson_def assertNoDuplicateJsonProperties_def)
qed

lemma tHeader_format:
  "tHeader fr defaultLimits (lit ''\"omega-edit.change-log\"'' @ 44 # 34 # t) = Some (JStr (lit CHANGE_LOG_FORMAT), 44 # 34 # t)"
  by (simp add: tHeader_def succeed_def text_eval check_eval CHANGE_LOG_FORMAT_def)

lemma tHeader_small:
  "tHeader fr defaultLimits (lit ''1'' @ 44 # 34 # t) = Some (JNum (NInt 1), 44 # 34 # t)"
  "tHeader fr defaultLimits (lit ''2'' @ 44 # 34 # t) = Some (JNum (NInt 2), 44 # 34 # t)"
  "tHeader fr defaultLimits (lit ''false'' @ 44 # 34 # t) = Some (JBool False, 44 # 34 # t)"
  "tHeader fr defaultLimits (lit ''\"2\"'' @ 44 # 34 # t) = Some (JStr (lit ''2''), 44 # 34 # t)"
  "tHeader fr defaultLimits (lit ''[2]'' @ 44 # 34 # t) = Some (JArr [JNum (NInt 2)], 44 # 34 # t)"
  by (simp_all add: tHeader_def succeed_def text_eval check_eval)

lemma sampleMembers_good: "list_all (goodMember fr defaultLimits) sampleMembers"
  by (simp add: sampleMembers_def goodMember_def tHeader_fingerprint tHeader_format tHeader_small defaultLimits_sel)
    (simp add: plainUnit_def lit_def)

lemma tEntry_sample:
  assumes "accumulatorAccept defaultLimits sampleNormalized 0 newAccumulator = Inr a"
  shows "tEntry fr defaultLimits 0 newAccumulator (lit changeText @ [93, 125]) = Some ((sampleNormalized, a), [93, 125])"
proof -
  have raw: "tRaw 134221824 256 (lit changeText @ [93, 125]) = Some (lit changeText, [93, 125])"
    by (simp add: changeText_def raw_eval lit_def)
  have "duplicateLoop fr [] (lit changeText) = Inr ()"
    by (simp add: changeText_def duplicate_Cons literalKey_def json_eval)
  moreover have "jsonParse fr (lit changeText) = Some sampleChange"
    by (simp add: changeText_def sampleChange_def json_eval)
  moreover have "validateChangeLogJsonValue defaultLimits 0 sampleChange = Inr ()"
    by (simp add: sampleChange_def check_eval)
  ultimately show ?thesis
    using raw assms sample_change [of fr]
    by (simp add: tEntry_def succeed_def defaultLimits_sel parseRawJson_def assertNoDuplicateJsonProperties_def)
qed

definition sampleAccumulator :: ChangeLogScanAccumulator where
  "sampleAccumulator = (case accumulatorAccept defaultLimits sampleNormalized 0 newAccumulator of Inr a \<Rightarrow> a | Inl _ \<Rightarrow> newAccumulator)"

lemma sampleAccumulator_eq: "accumulatorAccept defaultLimits sampleNormalized 0 newAccumulator = Inr sampleAccumulator"
  "primitiveCounts sampleAccumulator = countKind INSERT emptyPrimitiveCounts"
  "transformDescriptors sampleAccumulator = []" "requiredPluginIds sampleAccumulator = []"
  by (simp_all add: sampleAccumulator_def accumulatorAccept_def acceptDescriptor_def acceptEntry_def
      acceptSerial_def acceptGroup_def newAccumulator_def newSequence_def sampleNormalized_def closeActiveGroup_def
      default_entryCount emptyPrimitiveCounts_def)

abbreviation changesMember :: ustring where
  "changesMember \<equiv> lit ''changes'' @ 34 # 58 # 91 # lit changeText @ [93, 125]"

lemma tChanges_sample:
  "tChanges fr defaultLimits newAccumulator (91 # lit changeText @ [93, 125]) =
    Some (([EntryEvent sampleNormalized 0], sampleAccumulator), [125])"
proof -
  have "tExpect 91 (91 # x) = Some x" for x by (simp add: tExpect_def skipSpace_def isJsonSpace_def)
  moreover have "skipSpace (lit changeText @ [93, 125]) = lit changeText @ [93, 125]" "\<not> startsWith 93 (lit changeText @ [93, 125])"
    by (simp_all add: changeText_def lit_def skipSpace_def isJsonSpace_def startsWith_def)
  ultimately show ?thesis
    by (simp add: tChanges_def tEntries.simps [of fr] tEntry_sample [OF sampleAccumulator_eq(1)]
        tDelimiter_def skipSpace_def isJsonSpace_def startsWith_def)
qed

lemma tProps_changes:
  assumes "lit ''changes'' \<notin> set seen"
  shows "tProps fr defaultLimits seen saw d newAccumulator (34 # changesMember) =
    Some (([EntryEvent sampleNormalized 0], True, d, sampleAccumulator), [])"
proof -
  have "tName fr defaultLimits (34 # changesMember) = Some (lit ''changes'', 58 # 91 # lit changeText @ [93, 125])"
    by (rule tName_plain) (simp_all add: lit_def plainUnit_def defaultLimits_sel)
  moreover have "tExpect 58 (58 # x) = Some x" for x by (simp add: tExpect_def skipSpace_def isJsonSpace_def)
  ultimately show ?thesis
    using assms by (simp add: tProps.simps [of fr] tValue_def tChanges_sample tDelimiter_def skipSpace_def isJsonSpace_def startsWith_def)
qed

lemma tScan_members:
  assumes "list_all (goodMember fr defaultLimits) ms" "distinct (map fst ms)"
  shows "tScan fr defaultLimits (123 # membersText ms (34 # changesMember)) =
    Some ([EntryEvent sampleNormalized 0], foldl (\<lambda>d (k, raw, v). assign (lit k) v d) newDocument ms, sampleAccumulator)"
proof -
  obtain t' where t': "membersText ms (34 # changesMember) = 34 # t'" using membersText_quote by blast
  have "lit ''changes'' \<notin> set (rev (map (\<lambda>m. lit (fst m)) ms) @ [])"
    using assms(1) by (auto simp: list_all_iff goodMember_def)
  then have "tProps fr defaultLimits [] False newDocument newAccumulator (membersText ms (34 # changesMember)) =
      Some (([EntryEvent sampleNormalized 0], True, foldl (\<lambda>d (k, raw, v). assign (lit k) v d) newDocument ms, sampleAccumulator), [])"
    using tProps_members [OF assms, of "[]" False newDocument newAccumulator changesMember] by (simp add: tProps_changes)
  then show ?thesis
    by (simp add: tScan_def tDocument_def t' tExpect_def skipSpace_def isJsonSpace_def startsWith_def)
qed

lemma sample_scan:
  "tScan fr defaultLimits sampleText =
    Some ([EntryEvent sampleNormalized 0], \<lparr>own = butlast sampleFields, proto = []\<rparr>, sampleAccumulator)"
proof -
  have "foldl (\<lambda>d (k, raw, v). assign (lit k) v d) newDocument sampleMembers = \<lparr>own = butlast sampleFields, proto = []\<rparr>"
    by (simp add: sampleMembers_def sampleFields_def newDocument_def assign_def)
  then show ?thesis
    using tScan_members [OF sampleMembers_good [of fr]] by (simp add: sampleText_def) (simp add: sampleMembers_def)
qed

definition sampleSource :: "chunk list" where
  "sampleSource = [Text (take 30 sampleText), Text (drop 30 sampleText)]"

definition sampleResult :: "ChangeLogScanDiagnostics \<Rightarrow> ChangeLogScanResult" where
  "sampleResult d = (p_result samplePrepared)\<lparr>sr_diagnostics := d\<rparr>"

lemma sample_source: "sourceText sampleSource = Some sampleText"
  by (simp add: sampleSource_def sourceText_def decodeFlush_def newDecoder_def)

lemma sample_finish:
  "accumulatorFinish defaultLimits (documentFields \<lparr>own = butlast sampleFields, proto = []\<rparr>) d sampleAccumulator = Inr (sampleResult d)"
proof -
  have "normalizeChangeLogHeader defaultLimits (butlast sampleFields) 1 = normalizeChangeLogHeader defaultLimits sampleFields 1"
    by (rule header_cong) (auto simp: sampleFields_def getProp_Cons)
  then show ?thesis
    using sample_header
    by (simp add: accumulatorFinish_def documentFields_def sampleAccumulator_eq sampleResult_def samplePrepared_def
        emptyPrimitiveCounts_def)
qed

section \<open>The scanner and the codec\<close>

text \<open>C17: the streaming scanner is a refinement of the scanner on the whole text, without cancellation: however
  the source is cut into chunks, it fails when the chunks do not decode or the text scanner
  fails, and otherwise it yields the entries of the text scanner and then the result for
  its document and accumulator, with diagnostics of its own.\<close>

theorem scan_refines_text:
  assumes "resolveChangeLogCodecLimits ov = Inr limits"
  shows "case Option.bind (sourceText src) (tScan fr limits) of
      None \<Rightarrow> \<exists>es e. scanChangeLogJson fr never ov src = (es, Inl e)
    | Some (es, doc, a) \<Rightarrow> \<exists>d. scanChangeLogJson fr never ov src =
        (case accumulatorFinish limits (documentFields doc) d a of
           Inl e \<Rightarrow> (es, Inl e) | Inr r \<Rightarrow> (es @ [CompleteEvent r], Inr ()))"
  by (rule scan_text [OF assms])

lemma scan_refines_text_witness:
  "resolveChangeLogCodecLimits [] = Inr defaultLimits \<and>
   (\<exists>d. scanChangeLogJson NOther never [] sampleSource =
      ([EntryEvent sampleNormalized 0, CompleteEvent (sampleResult d)], Inr ()))"
  using scan_refines_text [OF resolve_default, where src = sampleSource and fr = NOther]
  by (simp add: sample_source sample_scan sample_finish)




section \<open>A prototype as a header\<close>

text \<open>The same document with its header members inside \<^verbatim>\<open>__proto__\<close>.\<close>

definition protoHeaderText :: string where
  "protoHeaderText = ''{\"format\":\"omega-edit.change-log\",\"version\":2,\"complete\":false,\"before\":'' @ fingerprintText ''4'' @
     '',\"after\":'' @ fingerprintText ''5'' @ '',\"changeCount\":1,\"sourceChangeCount\":\"2\",\"unavailableChangeCount\":1'' @
     '',\"unavailableChangeSerials\":[2]}''"

definition protoText :: ustring where
  "protoText = 123 # membersText [(''__proto__'', protoHeaderText, JObj (butlast sampleFields))]
     (34 # lit ''changes'' @ 34 # 58 # 91 # lit changeText @ [93, 125])"

lemma protoHeader_raw: "tRaw 16777216 256 (lit protoHeaderText @ 44 # 34 # t) = Some (lit protoHeaderText, 44 # 34 # t)"
  by (simp add: protoHeaderText_def fingerprintText_def raw_eval lit_def)

lemma protoHeader_unique: "duplicateLoop fr [] (lit protoHeaderText) = Inr ()"
  by (simp add: protoHeaderText_def fingerprintText_def duplicate_Cons literalKey_def json_eval)

lemma protoHeader_parse: "jsonParse fr (lit protoHeaderText) = Some (JObj (butlast sampleFields))"
  by (simp add: protoHeaderText_def fingerprintText_def sampleFields_def sampleFingerprint_def CHANGE_LOG_FORMAT_def
      expectWord_def json_eval)

lemma protoHeader_good: "goodMember fr defaultLimits (''__proto__'', protoHeaderText, JObj (butlast sampleFields))"
proof -
  have "validateChangeLogJsonValue defaultLimits 0 (JObj (butlast sampleFields)) = Inr ()"
    by (simp add: sampleFields_def sampleFingerprint_def check_eval CHANGE_LOG_FORMAT_def)
  then have "tHeader fr defaultLimits (lit protoHeaderText @ 44 # 34 # t) = Some (JObj (butlast sampleFields), 44 # 34 # t)" for t
    by (simp add: tHeader_def succeed_def defaultLimits_sel protoHeader_raw protoHeader_unique protoHeader_parse
        parseRawJson_def assertNoDuplicateJsonProperties_def)
  then show ?thesis
    by (simp add: goodMember_def defaultLimits_sel lit_def plainUnit_def)
qed

lemma proto_parse:
  "jsonParse fr protoText = Some (JObj [(lit ''__proto__'', JObj (butlast sampleFields)), (lit ''changes'', JArr [sampleChange])])"
  by (simp add: protoText_def member_def protoHeaderText_def fingerprintText_def changeText_def sampleFields_def
      sampleFingerprint_def sampleChange_def CHANGE_LOG_FORMAT_def expectWord_def json_eval)

text \<open>The scanner accepts the text, with the header of the prototype; the codec refuses the value that
  \<^verbatim>\<open>JSON.parse\<close> gives for the same text.\<close>

theorem proto_supplies_header:
  "\<exists>d v. scanChangeLogJsonToResult NOther never [] [Text protoText] = Inr (sampleResult d) \<and>
     jsonParse NOther protoText = Some v \<and> (\<exists>e. normalizeChangeLogDocument NOther never [] v = Inl e)"
proof -
  let ?v = "JObj [(lit ''__proto__'', JObj (butlast sampleFields)), (lit ''changes'', JArr [sampleChange])]"
  have "tScan NOther defaultLimits protoText =
      Some ([EntryEvent sampleNormalized 0], \<lparr>own = [], proto = butlast sampleFields\<rparr>, sampleAccumulator)"
    using tScan_members [of NOther "[(''__proto__'', protoHeaderText, JObj (butlast sampleFields))]"]
    by (simp add: protoText_def protoHeader_good newDocument_def assign_def)
  moreover have "sourceText [Text protoText] = Some protoText"
    by (simp add: sourceText_def decodeFlush_def newDecoder_def)
  ultimately obtain d where "scanChangeLogJson NOther never [] [Text protoText] =
      ([EntryEvent sampleNormalized 0, CompleteEvent (sampleResult d)], Inr ())"
    using scan_text [OF resolve_default, where src = "[Text protoText]" and fr = NOther] sample_finish
    by (auto simp: documentFields_def)
  then have "scanChangeLogJsonToResult NOther never [] [Text protoText] = Inr (sampleResult d)"
    by (simp add: scanChangeLogJsonToResult_def)
  moreover have "\<exists>e. normalizeChangeLogDocument NOther never [] ?v = Inl e"
  proof (cases "normalizeChangeLogDocument NOther never [] ?v")
    case (Inr p)
    have "normalizeChangeLogHeader limits [(lit ''__proto__'', x), (lit ''changes'', y)] n \<noteq> Inr h" for limits x y n h
      by (simp add: normalizeChangeLogHeader_def getProp_Cons getProp_Nil)
    then show ?thesis
      using Inr by (auto simp: normalizeChangeLogDocument_def accumulatorFinish_def bindE_eq_Inr isChangeLogRecord_def)
  qed simp
  ultimately show ?thesis using proto_parse [of NOther] by blast
qed

end
