(* ===== verification/Timeline_Manifest.thy ===== *)
theory Timeline_Manifest
  imports Change_Log_Codec JS_Json_Text
begin

text \<open>
  The metadata of the checkpoint history,
  \<^verbatim>\<open>vscode-extension/src/checkpointTimelineStorage.ts\<close>: the validation of limits, fingerprints, the index
  and the manifest, on values of unknown shape as \<^verbatim>\<open>JSON.parse\<close> yields them; and the manifest of an open
  session with the changes that its operations make to it. An error is the code of the
  \<^verbatim>\<open>TimelineStorageError\<close>, or \<^verbatim>\<open>TypeError\<close>. The lemmas show which manifests the validation accepts and that
  every operation keeps the manifest well formed.
\<close>

section \<open>Values\<close>

text \<open>\<^verbatim>\<open>String(v)\<close>, for objects without a method of their own.\<close>

fun jsToString :: "jsval \<Rightarrow> ustring" where
  "jsToString JUndefined = lit ''undefined''"
| "jsToString JNull = lit ''null''"
| "jsToString (JBool b) = (if b then lit ''true'' else lit ''false'')"
| "jsToString (JNum (NInt i)) = numberText i"
| "jsToString (JNum (NOther t)) = t"
| "jsToString (JBigInt i) = bigintToString i"
| "jsToString (JStr s) = s"
| "jsToString (JArr xs) = commaSep (map (\<lambda>v. if v = JUndefined \<or> v = JNull then [] else jsToString v) xs)"
| "jsToString (JObj ps) = lit ''[object Object]''"

definition objectFields :: "jsval \<Rightarrow> (ustring \<times> jsval) list" where
  "objectFields v = (case v of JObj ps \<Rightarrow> ps | _ \<Rightarrow> [])"

text \<open>\<^verbatim>\<open>v.k\<close> for a value that may be \<^verbatim>\<open>null\<close> or \<^verbatim>\<open>undefined\<close>.\<close>

definition getField :: "jsval \<Rightarrow> string \<Rightarrow> code + jsval" where
  "getField v k = (case v of JUndefined \<Rightarrow> Inl ''TypeError'' | JNull \<Rightarrow> Inl ''TypeError'' | _ \<Rightarrow> Inr (getProp (objectFields v) k))"

definition truthy :: "jsval \<Rightarrow> bool" where
  "truthy v = (case v of JUndefined \<Rightarrow> False | JNull \<Rightarrow> False | JBool b \<Rightarrow> b | JNum n \<Rightarrow> n \<noteq> NInt 0 \<and> n \<noteq> NOther (lit ''NaN'')
     | JBigInt i \<Rightarrow> i \<noteq> 0 | JStr s \<Rightarrow> s \<noteq> [] | JArr _ \<Rightarrow> True | JObj _ \<Rightarrow> True)"

text \<open>\<^verbatim>\<open>===\<close>; two arrays or objects are different ones.\<close>

definition strictEq :: "jsval \<Rightarrow> jsval \<Rightarrow> bool" where
  "strictEq v w = (case v of JArr _ \<Rightarrow> False | JObj _ \<Rightarrow> False | JNum n \<Rightarrow> v = w \<and> n \<noteq> NOther (lit ''NaN'') | _ \<Rightarrow> v = w)"

definition isObjectType :: "jsval \<Rightarrow> bool" where
  "isObjectType v = (case v of JArr _ \<Rightarrow> True | JObj _ \<Rightarrow> True | _ \<Rightarrow> False)"


definition indexed :: "jsval list \<Rightarrow> (ustring \<times> jsval) list" where
  "indexed xs = map (\<lambda>(i, v). (natDigits i, v)) (enumerate 0 xs)"

text \<open>The own properties that \<^verbatim>\<open>{ ...v }\<close> copies.\<close>

definition spread :: "jsval \<Rightarrow> (ustring \<times> jsval) list" where
  "spread v = (case v of JObj ps \<Rightarrow> ps | JArr xs \<Rightarrow> indexed xs | JStr s \<Rightarrow> indexed (map (\<lambda>u. JStr [u]) s) | _ \<Rightarrow> [])"



definition arrayOf :: "jsval \<Rightarrow> jsval list option" where
  "arrayOf v = (case v of JArr xs \<Rightarrow> Some xs | _ \<Rightarrow> None)"

section \<open>Texts\<close>


section \<open>Fingerprints\<close>

definition DIGEST_PLUGIN_ID_MAX_LENGTH :: nat where "DIGEST_PLUGIN_ID_MAX_LENGTH = 4096"
definition DIGEST_ALGORITHM_MAX_LENGTH :: nat where "DIGEST_ALGORITHM_MAX_LENGTH = 128"
definition DIGEST_VALUE_MAX_LENGTH :: nat where "DIGEST_VALUE_MAX_LENGTH = 4096"

definition decimal :: "jsval \<Rightarrow> code + ustring" where
  "decimal v =
     (let text = jsToString v in
      if \<not> isCanonicalDecimal text then Inl ''TIMELINE_INVALID_METADATA''
      else if int (digitsValue text) > 9223372036854775807 then Inl ''TIMELINE_INVALID_METADATA''
      else Inr text)"

record NormalizedTimelineFingerprint =
  tf_byteLength :: ustring
  tf_pluginId :: jsval
  tf_algorithm :: jsval
  tf_value :: jsval

text \<open>\<^verbatim>\<open>/^[...]+$/.test(v) && !(v.length > limit)\<close>, with the error of reading \<^verbatim>\<open>length\<close>.\<close>

definition matchesUnits :: "(nat \<Rightarrow> bool) \<Rightarrow> nat \<Rightarrow> jsval \<Rightarrow> code + unit" where
  "matchesUnits P limit v =
     (let text = jsToString v in
      bindE (orFail (text \<noteq> [] \<and> list_all P text) ''TIMELINE_INVALID_FINGERPRINT'') (\<lambda>_.
        case v of
          JUndefined \<Rightarrow> Inl ''TypeError''
        | JNull \<Rightarrow> Inl ''TypeError''
        | JStr s \<Rightarrow> orFail (\<not> length s > limit) ''TIMELINE_INVALID_FINGERPRINT''
        | JArr xs \<Rightarrow> orFail (\<not> length xs > limit) ''TIMELINE_INVALID_FINGERPRINT''
        | _ \<Rightarrow> Inr ()))"

definition orDefaultPlugin :: "jsval \<Rightarrow> jsval" where
  "orDefaultPlugin v = (if v = JUndefined \<or> v = JNull then JStr (lit CHANGE_LOG_DEFAULT_DIGEST_PLUGIN_ID) else v)"

definition normalizeFingerprint :: "jsval \<Rightarrow> code + NormalizedTimelineFingerprint" where
  "normalizeFingerprint value =
     bindE (getField value ''byteLength'') (\<lambda>len.
     bindE (decimal len) (\<lambda>byteLength.
     bindE (getField value ''digest'') (\<lambda>digest.
     bindE (getField digest ''pluginId'') (\<lambda>given.
     let pluginId = orDefaultPlugin given; algorithm = getProp (objectFields digest) ''algorithm'';
         digestValue = getProp (objectFields digest) ''value'' in
     bindE (matchesUnits isPluginIdUnit DIGEST_PLUGIN_ID_MAX_LENGTH pluginId) (\<lambda>_.
     bindE (matchesUnits isAlgorithmUnit DIGEST_ALGORITHM_MAX_LENGTH algorithm) (\<lambda>_.
     bindE (matchesUnits isLowerHexUnit DIGEST_VALUE_MAX_LENGTH digestValue) (\<lambda>_.
       Inr \<lparr>tf_byteLength = byteLength, tf_pluginId = pluginId, tf_algorithm = algorithm, tf_value = digestValue\<rparr>)))))))"

definition fingerprintsEqual :: "NormalizedTimelineFingerprint \<Rightarrow> NormalizedTimelineFingerprint \<Rightarrow> bool" where
  "fingerprintsEqual left right \<longleftrightarrow>
     tf_byteLength left = tf_byteLength right \<and>
     strictEq (orDefaultPlugin (tf_pluginId left)) (orDefaultPlugin (tf_pluginId right)) \<and>
     strictEq (tf_algorithm left) (tf_algorithm right) \<and> strictEq (tf_value left) (tf_value right)"

section \<open>Limits\<close>

record CheckpointHistoryLimits =
  maxBytesPerSession :: int
  maxBytesTotal :: int
  maxCheckpoints :: int
  staleRetentionDays :: int

definition CHECKPOINT_HISTORY_DEFAULTS :: "(ustring \<times> jsval) list" where
  "CHECKPOINT_HISTORY_DEFAULTS = [(lit ''maxBytesPerSession'', JNum (NInt 1073741824)),
     (lit ''maxBytesTotal'', JNum (NInt 5368709120)), (lit ''maxCheckpoints'', JNum (NInt 1000)),
     (lit ''staleRetentionDays'', JNum (NInt 7))]"

definition validBytes :: "jsval \<Rightarrow> int option" where
  "validBytes v = (case v of JNum (NInt i) \<Rightarrow> if isSafeInt i \<and> i \<ge> 1024 * 1024 then Some i else None | _ \<Rightarrow> None)"

definition integerIn :: "int \<Rightarrow> int \<Rightarrow> jsval \<Rightarrow> int option" where
  "integerIn low high v = (case v of JNum (NInt i) \<Rightarrow> if low \<le> i \<and> i \<le> high then Some i else None | _ \<Rightarrow> None)"

definition validateLimits :: "(ustring \<times> jsval) list \<Rightarrow> code + CheckpointHistoryLimits" where
  "validateLimits input =
     (let limits = foldl (\<lambda>ps (k, v). setProp k v ps) CHECKPOINT_HISTORY_DEFAULTS input in
      bindE (required ''TIMELINE_INVALID_SETTINGS'' (validBytes (getProp limits ''maxBytesPerSession''))) (\<lambda>session.
      bindE (required ''TIMELINE_INVALID_SETTINGS'' (validBytes (getProp limits ''maxBytesTotal''))) (\<lambda>all.
      bindE (orFail (\<not> all < session) ''TIMELINE_INVALID_SETTINGS'') (\<lambda>_.
      bindE (required ''TIMELINE_INVALID_SETTINGS'' (integerIn 1 1000000 (getProp limits ''maxCheckpoints''))) (\<lambda>checkpoints.
      bindE (required ''TIMELINE_INVALID_SETTINGS'' (integerIn 1 365 (getProp limits ''staleRetentionDays''))) (\<lambda>days.
        Inr \<lparr>maxBytesPerSession = session, maxBytesTotal = all, maxCheckpoints = checkpoints,
             staleRetentionDays = days\<rparr>))))))"

section \<open>The index\<close>

definition INDEX_FORMAT :: string where "INDEX_FORMAT = ''omega-edit.checkpoint-timeline-index''"
definition INDEX_VERSION :: int where "INDEX_VERSION = 1"

definition isSessionKey :: "ustring \<Rightarrow> bool" where
  "isSessionKey k \<longleftrightarrow> length k = 22 \<and>
     list_all (\<lambda>u. (65 \<le> u \<and> u \<le> 90) \<or> (97 \<le> u \<and> u \<le> 122) \<or> isDigit u \<or> u = 95 \<or> u = 45) k"

datatype sessionState = Active | PendingDelete

record indexEntry =
  ix_instanceId :: ustring
  ix_lastHeartbeatAt :: ustring
  ix_state :: sessionState
  ix_byteLength :: ustring
  ix_reservedBytes :: ustring

record CheckpointTimelineIndex =
  ix_updatedAt :: ustring
  ix_sessions :: "(ustring \<times> indexEntry) list"

definition emptyIndex :: "ustring \<Rightarrow> CheckpointTimelineIndex" where
  "emptyIndex now = \<lparr>ix_updatedAt = now, ix_sessions = []\<rparr>"

definition stringOf :: "jsval \<Rightarrow> ustring option" where
  "stringOf v = (case v of JStr s \<Rightarrow> Some s | _ \<Rightarrow> None)"

definition stateOf :: "jsval \<Rightarrow> sessionState option" where
  "stateOf v = (if v = JStr (lit ''active'') then Some Active
     else if v = JStr (lit ''pendingDelete'') then Some PendingDelete else None)"

definition parseIndexEntry :: "ustring \<Rightarrow> jsval \<Rightarrow> code + indexEntry" where
  "parseIndexEntry key record =
     bindE (orFail (isSessionKey key \<and> isObjectType record) ''TIMELINE_INVALID_INDEX'') (\<lambda>_.
     let item = objectFields record in
     bindE (required ''TIMELINE_INVALID_INDEX'' (stringOf (getProp item ''instanceId''))) (\<lambda>instance.
     bindE (required ''TIMELINE_INVALID_INDEX'' (stringOf (getProp item ''lastHeartbeatAt''))) (\<lambda>heartbeat.
     bindE (required ''TIMELINE_INVALID_INDEX'' (stateOf (getProp item ''state''))) (\<lambda>state.
     bindE (decimal (getProp item ''byteLength'')) (\<lambda>len.
     bindE (decimal (getProp item ''reservedBytes'')) (\<lambda>reserved.
       Inr \<lparr>ix_instanceId = instance, ix_lastHeartbeatAt = heartbeat, ix_state = state, ix_byteLength = len,
            ix_reservedBytes = reserved\<rparr>))))))"

definition parseIndex :: "jsval \<Rightarrow> code + CheckpointTimelineIndex" where
  "parseIndex value =
     bindE (orFail (isObjectType value) ''TIMELINE_INVALID_INDEX'') (\<lambda>_.
     let input = objectFields value in
     bindE (orFail (getProp input ''format'' = JStr (lit INDEX_FORMAT) \<and>
         getProp input ''version'' = JNum (NInt INDEX_VERSION)) ''TIMELINE_INVALID_INDEX'') (\<lambda>_.
     bindE (required ''TIMELINE_INVALID_INDEX'' (stringOf (getProp input ''updatedAt''))) (\<lambda>updatedAt.
     bindE (required ''TIMELINE_INVALID_INDEX'' (isChangeLogRecord (getProp input ''sessions''))) (\<lambda>sessions.
     bindE (mapE (\<lambda>(key, record). bindE (parseIndexEntry key record) (\<lambda>item. Inr (key, item))) sessions) (\<lambda>items.
       Inr \<lparr>ix_updatedAt = updatedAt, ix_sessions = items\<rparr>)))))"

text \<open>The object that is written.\<close>

definition stateName :: "sessionState \<Rightarrow> string" where
  "stateName s = (case s of Active \<Rightarrow> ''active'' | PendingDelete \<Rightarrow> ''pendingDelete'')"

definition indexEntryObject :: "indexEntry \<Rightarrow> jsval" where
  "indexEntryObject e = JObj [(lit ''instanceId'', JStr (ix_instanceId e)),
     (lit ''lastHeartbeatAt'', JStr (ix_lastHeartbeatAt e)), (lit ''state'', JStr (lit (stateName (ix_state e)))),
     (lit ''byteLength'', JStr (ix_byteLength e)), (lit ''reservedBytes'', JStr (ix_reservedBytes e))]"

definition indexObject :: "CheckpointTimelineIndex \<Rightarrow> jsval" where
  "indexObject ix = JObj [(lit ''format'', JStr (lit INDEX_FORMAT)), (lit ''version'', JNum (NInt INDEX_VERSION)),
     (lit ''updatedAt'', JStr (ix_updatedAt ix)),
     (lit ''sessions'', JObj (map (\<lambda>(k, e). (k, indexEntryObject e)) (ix_sessions ix)))]"

section \<open>History snapshots\<close>

text \<open>\<^verbatim>\<open>EditorHistoryController.fromSnapshot(v).snapshot()\<close> on a value of unknown shape: the checks of
  \<^verbatim>\<open>validateHistorySnapshot\<close> and the copy.\<close>

definition safeFrom :: "int \<Rightarrow> jsval \<Rightarrow> int option" where
  "safeFrom low v = (case v of JNum (NInt i) \<Rightarrow> if isSafeInt i \<and> low \<le> i then Some i else None | _ \<Rightarrow> None)"

definition copies :: "jsval list \<Rightarrow> jsval" where
  "copies xs = JArr (map (\<lambda>v. JObj (spread v)) xs)"

definition snapshotObject ::
    "int \<Rightarrow> int \<Rightarrow> jsval list \<Rightarrow> jsval list \<Rightarrow> jsval list \<Rightarrow> jsval list \<Rightarrow> jsval list \<Rightarrow> jsval" where
  "snapshotObject saved next changes undone transactions undoneTransactions depths =
     JObj [(lit ''version'', JNum (NInt 1)), (lit ''savedChangeDepth'', JNum (NInt saved)),
       (lit ''changeLog'', copies changes), (lit ''undoneChangeLog'', copies undone),
       (lit ''transactionLog'', copies transactions), (lit ''undoneTransactionLog'', copies undoneTransactions),
       (lit ''nextSyntheticGroupId'', JNum (NInt next)), (lit ''milestoneDepths'', JArr depths)]"

definition depthsWithin :: "int \<Rightarrow> jsval list \<Rightarrow> jsval list" where
  "depthsWithin totalDepth depths = filter (\<lambda>d. case safeFrom 0 d of None \<Rightarrow> False | Some i \<Rightarrow> i \<le> totalDepth) depths"

definition snapshotCopy :: "jsval \<Rightarrow> code + jsval" where
  "snapshotCopy v =
     (let ps = objectFields v in
      bindE (orFail (getProp ps ''version'' = JNum (NInt 1)) ''TypeError'') (\<lambda>_.
      bindE (required ''TypeError'' (safeFrom 0 (getProp ps ''savedChangeDepth''))) (\<lambda>saved.
      bindE (required ''TypeError'' (safeFrom 1 (getProp ps ''nextSyntheticGroupId''))) (\<lambda>next.
      bindE (required ''TypeError'' (arrayOf (getProp ps ''changeLog''))) (\<lambda>changes.
      bindE (required ''TypeError'' (arrayOf (getProp ps ''undoneChangeLog''))) (\<lambda>undone.
      bindE (required ''TypeError'' (arrayOf (getProp ps ''transactionLog''))) (\<lambda>transactions.
      bindE (required ''TypeError'' (arrayOf (getProp ps ''undoneTransactionLog''))) (\<lambda>undoneTransactions.
      bindE (required ''TypeError'' (arrayOf (getProp ps ''milestoneDepths''))) (\<lambda>depths.
      let totalDepth = int (length transactions + length undoneTransactions) in
      bindE (orFail (\<not> saved > totalDepth) ''TypeError'') (\<lambda>_.
        Inr (snapshotObject saved next changes undone transactions undoneTransactions (depthsWithin totalDepth depths))))))))))))"

section \<open>The manifest on disk\<close>


definition isIntervalFile :: "ustring \<Rightarrow> bool" where
  "isIntervalFile s \<longleftrightarrow> length s = 13 \<and> list_all isDigit (take 8 s) \<and> drop 8 s = lit ''.json''"

definition isSha256 :: "ustring \<Rightarrow> bool" where
  "isSha256 s \<longleftrightarrow> length s = 64 \<and> list_all isLowerHexUnit s"

definition fingerprintFields :: "NormalizedTimelineFingerprint \<Rightarrow> jsval" where
  "fingerprintFields f = JObj [(lit ''byteLength'', JStr (tf_byteLength f)),
     (lit ''digest'', JObj [(lit ''pluginId'', tf_pluginId f), (lit ''algorithm'', tf_algorithm f), (lit ''value'', tf_value f)])]"









section \<open>The manifest of a session\<close>

datatype CheckpointBoundaryKind = Plain | Transform | Tip


record archive =
  ar_file :: ustring
  ar_byteLength :: ustring
  ar_sha256 :: ustring
  ar_emittedChangeCount :: ustring
  ar_optimized :: bool

text \<open>The fields \<^verbatim>\<open>state\<close>, \<^verbatim>\<open>archive\<close> and \<^verbatim>\<open>error\<close>: a ready entry has an archive, an unavailable one an error.\<close>

datatype intervalState = Ready archive | Unavailable ustring ustring

record CheckpointIntervalManifestEntry =
  iv_checkpoint :: nat
  iv_generation :: nat
  iv_before :: NormalizedTimelineFingerprint
  iv_after :: NormalizedTimelineFingerprint
  iv_sourceChangeCount :: ustring
  iv_createdAt :: ustring
  iv_boundaryKind :: CheckpointBoundaryKind
  iv_transformPluginIds :: "ustring list"
  iv_history :: "jsval option"
  iv_state :: intervalState

record savedState =
  sv_fingerprint :: NormalizedTimelineFingerprint
  sv_checkpoint :: "nat option"
  sv_offBranch :: bool

record CheckpointTimelineManifest =
  m_sessionKey :: ustring
  m_document :: jsval
  m_openedAt :: ustring
  m_updatedAt :: ustring
  m_original :: NormalizedTimelineFingerprint
  m_saved :: savedState
  m_cursor :: nat
  m_tip :: nat
  m_nextGeneration :: nat
  m_intervals :: "CheckpointIntervalManifestEntry list"

subsection \<open>Objects\<close>






subsection \<open>What the operations make of it\<close>

definition newManifest :: "ustring \<Rightarrow> jsval \<Rightarrow> ustring \<Rightarrow> NormalizedTimelineFingerprint \<Rightarrow> CheckpointTimelineManifest" where
  "newManifest key doc timestamp fingerprint =
     \<lparr>m_sessionKey = key, m_document = doc, m_openedAt = timestamp, m_updatedAt = timestamp, m_original = fingerprint,
      m_saved = \<lparr>sv_fingerprint = fingerprint, sv_checkpoint = Some 0, sv_offBranch = False\<rparr>,
      m_cursor = 0, m_tip = 0, m_nextGeneration = 1, m_intervals = []\<rparr>"

text \<open>\<^verbatim>\<open>intervals.at(-1)?.after ?? original.fingerprint\<close>.\<close>

definition expectedBefore :: "CheckpointTimelineManifest \<Rightarrow> NormalizedTimelineFingerprint" where
  "expectedBefore m = (if m_intervals m = [] then m_original m else iv_after (last (m_intervals m)))"

definition appendInterval ::
    "ustring \<Rightarrow> CheckpointIntervalManifestEntry \<Rightarrow> CheckpointTimelineManifest \<Rightarrow> CheckpointTimelineManifest" where
  "appendInterval now entry m =
     m\<lparr>m_updatedAt := now, m_cursor := iv_checkpoint entry, m_tip := iv_checkpoint entry,
       m_nextGeneration := m_nextGeneration m + 1, m_intervals := m_intervals m @ [entry],
       m_saved := (if fingerprintsEqual (iv_after entry) (sv_fingerprint (m_saved m))
         then (m_saved m)\<lparr>sv_checkpoint := Some (iv_checkpoint entry), sv_offBranch := False\<rparr>
         else m_saved m)\<rparr>"

definition truncateManifest :: "ustring \<Rightarrow> nat \<Rightarrow> CheckpointTimelineManifest \<Rightarrow> CheckpointTimelineManifest" where
  "truncateManifest now cursor m =
     m\<lparr>m_updatedAt := now, m_cursor := cursor, m_tip := cursor, m_nextGeneration := m_nextGeneration m + 1,
       m_intervals := take cursor (m_intervals m),
       m_saved := (m_saved m)\<lparr>
         sv_checkpoint := (case sv_checkpoint (m_saved m) of Some k \<Rightarrow> if k \<le> cursor then Some k else None | None \<Rightarrow> None),
         sv_offBranch := (case sv_checkpoint (m_saved m) of
           Some k \<Rightarrow> if k > cursor then True else sv_offBranch (m_saved m) | None \<Rightarrow> sv_offBranch (m_saved m))\<rparr>\<rparr>"

definition cursorManifest :: "ustring \<Rightarrow> nat \<Rightarrow> CheckpointTimelineManifest \<Rightarrow> CheckpointTimelineManifest" where
  "cursorManifest now cursor m = m\<lparr>m_updatedAt := now, m_cursor := cursor\<rparr>"

definition savedCheckpoint :: "NormalizedTimelineFingerprint \<Rightarrow> CheckpointTimelineManifest \<Rightarrow> nat option" where
  "savedCheckpoint f m =
     (if fingerprintsEqual f (m_original m) then Some 0
      else map_option iv_checkpoint (List.find (\<lambda>e. fingerprintsEqual f (iv_after e)) (m_intervals m)))"

definition savedManifest ::
    "ustring \<Rightarrow> NormalizedTimelineFingerprint \<Rightarrow> CheckpointTimelineManifest \<Rightarrow> CheckpointTimelineManifest" where
  "savedManifest now f m =
     m\<lparr>m_updatedAt := now,
       m_saved := \<lparr>sv_fingerprint = f, sv_checkpoint = savedCheckpoint f m, sv_offBranch = (savedCheckpoint f m = None)\<rparr>\<rparr>"

definition unavailableManifest ::
    "ustring \<Rightarrow> nat \<Rightarrow> ustring \<Rightarrow> ustring \<Rightarrow> CheckpointTimelineManifest \<Rightarrow> CheckpointTimelineManifest" where
  "unavailableManifest now checkpoint errorCode message m =
     m\<lparr>m_updatedAt := now,
       m_intervals := map (\<lambda>e. if iv_checkpoint e = checkpoint then e\<lparr>iv_state := Unavailable errorCode message\<rparr> else e)
         (m_intervals m)\<rparr>"

text \<open>\<^verbatim>\<open>`${String(checkpoint).padStart(8, '0')}.json`\<close>.\<close>

definition intervalFileName :: "nat \<Rightarrow> ustring" where
  "intervalFileName k = replicate (8 - length (natDigits k)) 48 @ natDigits k @ lit ''.json''"

section \<open>Fingerprints are normalised once\<close>

definition normalFingerprint :: "NormalizedTimelineFingerprint \<Rightarrow> bool" where
  "normalFingerprint f \<longleftrightarrow> normalizeFingerprint (fingerprintFields f) = Inr f"

lemma decimal_Inr: "decimal v = Inr t \<longleftrightarrow> t = jsToString v \<and> isCanonicalDecimal t \<and> int (digitsValue t) \<le> 9223372036854775807"
  by (auto simp: decimal_def Let_def)

lemma decimal_again: "decimal v = Inr t \<Longrightarrow> decimal (JStr t) = Inr t"
  by (auto simp: decimal_Inr)

lemma matchesUnits_defined: "matchesUnits P n v = Inr u \<Longrightarrow> v \<noteq> JUndefined \<and> v \<noteq> JNull"
  by (auto simp: matchesUnits_def Let_def bindE_eq_Inr)

lemma orDefaultPlugin_again: "orDefaultPlugin (orDefaultPlugin v) = orDefaultPlugin v"
  by (simp add: orDefaultPlugin_def)

lemma normalizeFingerprint_normal: "normalizeFingerprint v = Inr f \<Longrightarrow> normalFingerprint f"
  by (auto simp: normalizeFingerprint_def normalFingerprint_def fingerprintFields_def getField_def objectFields_def
      bindE_eq_Inr Let_def decimal_again orDefaultPlugin_again)

lemma strictEq_sym: "strictEq v w = strictEq w v"
  by (auto simp: strictEq_def split: jsval.splits)

lemma strictEq_trans: "strictEq u v \<Longrightarrow> strictEq v w \<Longrightarrow> strictEq u w"
  by (auto simp: strictEq_def split: jsval.splits)

lemma fingerprintsEqual_sym: "fingerprintsEqual f g = fingerprintsEqual g f"
  by (auto simp: fingerprintsEqual_def strictEq_sym)

lemma fingerprintsEqual_trans: "fingerprintsEqual f g \<Longrightarrow> fingerprintsEqual g h \<Longrightarrow> fingerprintsEqual f h"
  by (auto simp: fingerprintsEqual_def intro: strictEq_trans)

section \<open>Snapshots are copied once\<close>

lemma spread_object [simp]: "spread (JObj ps) = ps"
  by (simp add: spread_def)

lemma snapshotObject_copies:
  "snapshotObject saved next (map (\<lambda>v. JObj (spread v)) a) (map (\<lambda>v. JObj (spread v)) b) (map (\<lambda>v. JObj (spread v)) c)
     (map (\<lambda>v. JObj (spread v)) d) ds = snapshotObject saved next a b c d ds"
  by (simp add: snapshotObject_def copies_def comp_def)

lemma depthsWithin_again: "depthsWithin n (depthsWithin n ds) = depthsWithin n ds"
  by (simp add: depthsWithin_def)

lemma safeFrom_Some: "safeFrom low v = Some i \<longleftrightarrow> v = JNum (NInt i) \<and> isSafeInt i \<and> low \<le> i"
  by (auto simp: safeFrom_def split: jsval.splits jsnum.splits)

lemma snapshotCopy_object:
  assumes "isSafeInt saved" "0 \<le> saved" "isSafeInt next" "1 \<le> next" "saved \<le> int (length c + length d)"
  shows "snapshotCopy (snapshotObject saved next a b c d ds) =
    Inr (snapshotObject saved next a b c d (depthsWithin (int (length c + length d)) ds))"
proof -
  let ?ps = "objectFields (snapshotObject saved next a b c d ds)"
  have "getProp ?ps ''version'' = JNum (NInt 1)" "safeFrom 0 (getProp ?ps ''savedChangeDepth'') = Some saved"
    "safeFrom 1 (getProp ?ps ''nextSyntheticGroupId'') = Some next"
    "arrayOf (getProp ?ps ''changeLog'') = Some (map (\<lambda>v. JObj (spread v)) a)"
    "arrayOf (getProp ?ps ''undoneChangeLog'') = Some (map (\<lambda>v. JObj (spread v)) b)"
    "arrayOf (getProp ?ps ''transactionLog'') = Some (map (\<lambda>v. JObj (spread v)) c)"
    "arrayOf (getProp ?ps ''undoneTransactionLog'') = Some (map (\<lambda>v. JObj (spread v)) d)"
    "arrayOf (getProp ?ps ''milestoneDepths'') = Some ds"
    using assms by (simp_all add: snapshotObject_def objectFields_def copies_def arrayOf_def safeFrom_def)
  then show ?thesis
    using assms(5) unfolding snapshotCopy_def Let_def by (simp add: snapshotObject_copies)
qed

lemma snapshotCopy_again:
  assumes "snapshotCopy v = Inr w"
  shows "snapshotCopy w = Inr w \<and> truthy w"
proof -
  obtain saved nx a b c d ds where "isSafeInt saved" "0 \<le> saved" "isSafeInt nx" "1 \<le> nx" "saved \<le> int (length c + length d)"
    and w: "w = snapshotObject saved nx a b c d (depthsWithin (int (length c + length d)) ds)"
    using assms unfolding snapshotCopy_def Let_def bindE_eq_Inr required_eq_Inr safeFrom_Some orFail_eq_Inr not_less sum.inject
    by (elim exE conjE) (rule that, assumption+, rule sym)
  then show ?thesis
    by (simp add: snapshotCopy_object depthsWithin_again) (simp add: snapshotObject_def truthy_def)
qed

section \<open>Well-formed manifests\<close>

fun chained :: "NormalizedTimelineFingerprint \<Rightarrow> CheckpointIntervalManifestEntry list \<Rightarrow> bool" where
  "chained previous [] = True"
| "chained previous (e # es) \<longleftrightarrow> fingerprintsEqual previous (iv_before e) \<and> chained (iv_after e) es"

definition wfState :: "intervalState \<Rightarrow> bool" where
  "wfState s = (case s of
     Ready a \<Rightarrow> isIntervalFile (ar_file a) \<and> decimal (JStr (ar_byteLength a)) = Inr (ar_byteLength a) \<and>
       decimal (JStr (ar_emittedChangeCount a)) = Inr (ar_emittedChangeCount a) \<and> isSha256 (ar_sha256 a)
   | Unavailable _ _ \<Rightarrow> True)"

definition wfInterval :: "CheckpointIntervalManifestEntry \<Rightarrow> bool" where
  "wfInterval e \<longleftrightarrow> normalFingerprint (iv_before e) \<and> normalFingerprint (iv_after e) \<and>
     decimal (JStr (iv_sourceChangeCount e)) = Inr (iv_sourceChangeCount e) \<and>
     iv_transformPluginIds e = sort (remdups (iv_transformPluginIds e)) \<and>
     (\<forall>h. iv_history e = Some h \<longrightarrow> snapshotCopy h = Inr h \<and> truthy h) \<and> wfState (iv_state e)"

text \<open>The fingerprint of a boundary: the original, or the one after an interval.\<close>

definition boundary :: "CheckpointTimelineManifest \<Rightarrow> nat \<Rightarrow> NormalizedTimelineFingerprint" where
  "boundary m k = (if k = 0 then m_original m else iv_after (m_intervals m ! (k - 1)))"

definition wfSaved :: "CheckpointTimelineManifest \<Rightarrow> bool" where
  "wfSaved m \<longleftrightarrow> normalFingerprint (sv_fingerprint (m_saved m)) \<and>
     (sv_offBranch (m_saved m) \<longleftrightarrow> sv_checkpoint (m_saved m) = None) \<and>
     (\<forall>k. sv_checkpoint (m_saved m) = Some k \<longrightarrow>
        k \<le> m_tip m \<and> (sv_fingerprint (m_saved m) = boundary m k \<or> fingerprintsEqual (sv_fingerprint (m_saved m)) (boundary m k)))"

definition wfManifest :: "CheckpointTimelineManifest \<Rightarrow> bool" where
  "wfManifest m \<longleftrightarrow> m_cursor m \<le> m_tip m \<and> m_tip m = length (m_intervals m) \<and>
     normalFingerprint (m_original m) \<and> chained (m_original m) (m_intervals m) \<and>
     map iv_checkpoint (m_intervals m) = [1..<length (m_intervals m) + 1] \<and>
     sorted_wrt (<) (0 # map iv_generation (m_intervals m) @ [m_nextGeneration m]) \<and>
     list_all wfInterval (m_intervals m) \<and> wfSaved m"

text \<open>A well-formed index.\<close>

definition wfEntry :: "indexEntry \<Rightarrow> bool" where
  "wfEntry e \<longleftrightarrow> decimal (JStr (ix_byteLength e)) = Inr (ix_byteLength e) \<and> decimal (JStr (ix_reservedBytes e)) = Inr (ix_reservedBytes e)"

definition wfIndex :: "CheckpointTimelineIndex \<Rightarrow> bool" where
  "wfIndex ix \<longleftrightarrow> distinct (map fst (ix_sessions ix)) \<and> list_all (\<lambda>(k, e). isSessionKey k \<and> wfEntry e) (ix_sessions ix)"

section \<open>What is written is read back\<close>



lemma parseIndexEntry_same: "isSessionKey k \<Longrightarrow> wfEntry e \<Longrightarrow> parseIndexEntry k (indexEntryObject e) = Inr e"
  by (cases "ix_state e")
    (simp_all add: parseIndexEntry_def indexEntryObject_def isObjectType_def objectFields_def stringOf_def stateOf_def stateName_def wfEntry_def)

lemma parseEntries_same:
  "list_all (\<lambda>(k, e). isSessionKey k \<and> wfEntry e) es \<Longrightarrow>
   mapE (\<lambda>(key, record). bindE (parseIndexEntry key record) (\<lambda>item. Inr (key, item))) (map (\<lambda>(k, e). (k, indexEntryObject e)) es) = Inr es"
  by (induction es) (auto simp: parseIndexEntry_same)

lemma parseIndex_same: "wfIndex ix \<Longrightarrow> parseIndex (indexObject ix) = Inr ix"
  using parseEntries_same [of "ix_sessions ix"]
  by (simp add: wfIndex_def parseIndex_def indexObject_def isObjectType_def objectFields_def stringOf_def isChangeLogRecord_def Let_def)

section \<open>Well-formed manifests are accepted\<close>






lemma setProp_lit [simp]: "setProp (lit k) v ((lit k', v') # ps) = (if k' = k then (lit k, v) # ps else (lit k', v') # setProp (lit k) v ps)"
  by simp




section \<open>Every operation keeps the manifest well formed\<close>

lemma wf_newManifest: "normalFingerprint f \<Longrightarrow> wfManifest (newManifest key doc now f)"
  by (simp add: wfManifest_def newManifest_def wfSaved_def boundary_def)

lemma boundary_updates [simp]:
  "boundary (m\<lparr>m_updatedAt := now\<rparr>) = boundary m" "boundary (m\<lparr>m_cursor := c\<rparr>) = boundary m"
  "boundary (m\<lparr>m_tip := c\<rparr>) = boundary m" "boundary (m\<lparr>m_saved := sv\<rparr>) = boundary m"
  "boundary (m\<lparr>m_nextGeneration := c\<rparr>) = boundary m"
  by (simp_all add: boundary_def fun_eq_iff)

lemma wf_cursorManifest: "wfManifest m \<Longrightarrow> cursor \<le> m_tip m \<Longrightarrow> wfManifest (cursorManifest now cursor m)"
  by (auto simp: wfManifest_def wfSaved_def cursorManifest_def simp del: upt_Suc)

lemma chained_append: "chained p (es @ [e]) \<longleftrightarrow> chained p es \<and> fingerprintsEqual (if es = [] then p else iv_after (last es)) (iv_before e)"
  by (induction es arbitrary: p) auto

lemma chained_take: "chained p es \<Longrightarrow> chained p (take n es)"
proof (induction es arbitrary: p n)
  case (Cons e es)
  then show ?case by (cases n) auto
qed simp

lemma boundary_tip: "boundary m (length (m_intervals m)) = expectedBefore m"
  by (simp add: boundary_def expectedBefore_def last_conv_nth)

lemma wf_appendInterval:
  assumes "wfManifest m" "wfInterval e" "iv_checkpoint e = m_tip m + 1" "iv_generation e = m_nextGeneration m"
    "fingerprintsEqual (iv_before e) (expectedBefore m)"
  shows "wfManifest (appendInterval now e m)"
proof -
  let ?m = "appendInterval now e m"
  have fields: "m_intervals ?m = m_intervals m @ [e]" "m_tip ?m = m_tip m + 1" "m_cursor ?m = m_tip m + 1"
    "m_nextGeneration ?m = m_nextGeneration m + 1" "m_original ?m = m_original m"
    using assms(3) by (simp_all add: appendInterval_def)
  have "chained (m_original m) (m_intervals m @ [e])"
    using assms(1,5) by (auto simp: chained_append wfManifest_def expectedBefore_def fingerprintsEqual_sym)
  moreover have "sorted_wrt (<) (0 # map iv_generation (m_intervals m @ [e]) @ [m_nextGeneration m + 1])"
    using assms(1,4) by (auto simp: wfManifest_def sorted_wrt_append less_SucI)
  moreover have "wfSaved ?m"
  proof -
    have "boundary ?m k = boundary m k" if "k \<le> m_tip m" for k
      using that assms(1) by (auto simp: boundary_def fields nth_append wfManifest_def)
    moreover have "boundary ?m (m_tip m + 1) = iv_after e"
      using assms(1) by (simp add: boundary_def fields nth_append wfManifest_def)
    ultimately show ?thesis
      using assms(1,3) unfolding wfSaved_def wfManifest_def
      by (auto simp: appendInterval_def fingerprintsEqual_sym [of "iv_after e"])
  qed
  ultimately show ?thesis
    using assms(1-3) unfolding wfManifest_def fields by (simp add: wfManifest_def)
qed

lemma wf_truncateManifest:
  assumes "wfManifest m" "cursor \<le> m_tip m"
  shows "wfManifest (truncateManifest now cursor m)"
proof -
  let ?m = "truncateManifest now cursor m"
  have fields: "m_intervals ?m = take cursor (m_intervals m)" "m_tip ?m = cursor" "m_cursor ?m = cursor"
    "m_nextGeneration ?m = m_nextGeneration m + 1" "m_original ?m = m_original m"
    by (simp_all add: truncateManifest_def)
  have len: "length (take cursor (m_intervals m)) = cursor" using assms by (simp add: wfManifest_def)
  have "map iv_checkpoint (take cursor (m_intervals m)) = [1..<cursor + 1]"
    using assms by (simp add: wfManifest_def take_map [symmetric] del: upt_Suc)
  moreover have "sorted_wrt (<) (0 # map iv_generation (take cursor (m_intervals m)) @ [m_nextGeneration m + 1])"
    using assms(1) by (auto simp: wfManifest_def sorted_wrt_append take_map [symmetric] dest!: in_set_takeD intro!: sorted_wrt_take less_SucI)
  moreover have "wfSaved ?m"
  proof -
    have "boundary ?m k = boundary m k" if "k \<le> cursor" for k
      using that by (auto simp: boundary_def fields)
    then show ?thesis
      using assms(1) unfolding wfSaved_def wfManifest_def fields
      by (auto simp del: upt_Suc simp: truncateManifest_def split: option.splits if_splits)
  qed
  moreover have "list_all wfInterval (take cursor (m_intervals m))"
    using assms(1) by (auto simp: wfManifest_def list_all_iff dest: in_set_takeD)
  ultimately show ?thesis
    using assms(1) len unfolding wfManifest_def fields by (simp add: chained_take)
qed

lemma find_checkpoint:
  assumes "map iv_checkpoint es = [1..<length es + 1]" "List.find P es = Some e"
  shows "1 \<le> iv_checkpoint e \<and> iv_checkpoint e \<le> length es \<and> es ! (iv_checkpoint e - 1) = e \<and> P e"
proof -
  obtain i where i: "i < length es" "P (es ! i)" "e = es ! i" using assms(2) by (auto simp: find_Some_iff)
  have "iv_checkpoint (es ! i) = i + 1"
    using i(1) arg_cong [OF assms(1), of "\<lambda>xs. xs ! i"] by (simp del: upt_Suc)
  then show ?thesis using i by simp
qed

lemma wf_savedManifest:
  assumes "wfManifest m" "normalFingerprint f"
  shows "wfManifest (savedManifest now f m)"
proof -
  have "k \<le> m_tip m \<and> fingerprintsEqual f (boundary m k)" if "savedCheckpoint f m = Some k" for k
    using that assms(1) find_checkpoint [of "m_intervals m"]
    by (fastforce simp: savedCheckpoint_def wfManifest_def boundary_def split: if_splits)
  then show ?thesis
    using assms by (auto simp: wfManifest_def wfSaved_def savedManifest_def simp del: upt_Suc)
qed

lemma chained_map:
  fixes g :: "CheckpointIntervalManifestEntry \<Rightarrow> CheckpointIntervalManifestEntry"
  shows "(\<And>e. iv_before (g e) = iv_before e \<and> iv_after (g e) = iv_after e) \<Longrightarrow> chained p (map g es) = chained p es"
  by (induction es arbitrary: p) auto

lemma wf_unavailableManifest:
  assumes "wfManifest m"
  shows "wfManifest (unavailableManifest now k errorCode message m)"
proof -
  define g where "g = (\<lambda>e :: CheckpointIntervalManifestEntry. if iv_checkpoint e = k then e\<lparr>iv_state := Unavailable errorCode message\<rparr> else e)"
  have g: "iv_before (g e) = iv_before e \<and> iv_after (g e) = iv_after e" "iv_checkpoint (g e) = iv_checkpoint e"
    "iv_generation (g e) = iv_generation e" "wfInterval e \<Longrightarrow> wfInterval (g e)" for e
    by (simp_all add: g_def wfInterval_def wfState_def)
  have m: "unavailableManifest now k errorCode message m = m\<lparr>m_updatedAt := now, m_intervals := map g (m_intervals m)\<rparr>"
    by (simp add: unavailableManifest_def g_def)
  have "boundary (m\<lparr>m_updatedAt := now, m_intervals := map g (m_intervals m)\<rparr>) j = boundary m j" if "j \<le> m_tip m" for j
    using that assms g(1) by (auto simp: boundary_def wfManifest_def)
  then show ?thesis
    using assms unfolding m wfManifest_def wfSaved_def
    by (auto simp: chained_map [OF g(1)] comp_def g list_all_iff)
qed

section \<open>Reading a manifest back\<close>


text \<open>A timeline of two intervals, the second of which goes back to the content that is saved.\<close>

definition sampleFingerprint :: "string \<Rightarrow> NormalizedTimelineFingerprint" where
  "sampleFingerprint digest = \<lparr>tf_byteLength = lit ''12'', tf_pluginId = JStr (lit ''omega.example''),
     tf_algorithm = JStr (lit ''sha256''), tf_value = JStr (lit digest)\<rparr>"

definition sampleInterval :: "nat \<Rightarrow> string \<Rightarrow> string \<Rightarrow> CheckpointIntervalManifestEntry" where
  "sampleInterval k digest digest' = \<lparr>iv_checkpoint = k, iv_generation = k, iv_before = sampleFingerprint digest,
     iv_after = sampleFingerprint digest', iv_sourceChangeCount = lit ''1'', iv_createdAt = [], iv_boundaryKind = Plain,
     iv_transformPluginIds = [], iv_history = None, iv_state = Unavailable (lit ''QUOTA'') []\<rparr>"

definition sampleManifest :: CheckpointTimelineManifest where
  "sampleManifest = appendInterval [] (sampleInterval 2 ''bb'' ''aa'') (appendInterval [] (sampleInterval 1 ''aa'' ''bb'')
     (newManifest (replicate 22 65) (JObj []) [] (sampleFingerprint ''aa'')))"

lemma sampleFingerprint_normal: "normalFingerprint (sampleFingerprint ''aa'')" "normalFingerprint (sampleFingerprint ''bb'')"
  by (code_simp)+

lemma sampleInterval_wf: "wfInterval (sampleInterval k ''aa'' ''bb'')" "wfInterval (sampleInterval k ''bb'' ''aa'')"
proof -
  have "decimal (JStr (lit ''1'')) = Inr (lit ''1'')" by code_simp
  then show "wfInterval (sampleInterval k ''aa'' ''bb'')" "wfInterval (sampleInterval k ''bb'' ''aa'')"
    using sampleFingerprint_normal by (simp_all add: wfInterval_def sampleInterval_def wfState_def)
qed

lemma sampleManifest_wf: "wfManifest sampleManifest"
proof -
  have eq: "fingerprintsEqual (sampleFingerprint ''aa'') (sampleFingerprint ''aa'')" "fingerprintsEqual (sampleFingerprint ''bb'') (sampleFingerprint ''bb'')"
    by (code_simp)+
  show ?thesis
    unfolding sampleManifest_def
    by (intro wf_appendInterval wf_newManifest sampleFingerprint_normal sampleInterval_wf)
      (simp_all add: sampleInterval_def newManifest_def appendInterval_def expectedBefore_def eq)
qed



section \<open>A saved state that a branch forgets\<close>

text \<open>C40: when an interval returns to the saved content, the saved checkpoint moves to it; a truncation below it then
  reports the saved state as off the branch although an earlier checkpoint of the remaining timeline has the
  saved content, and recording the same saved fingerprint again finds that checkpoint.\<close>

theorem truncate_forgets_saved:
  assumes "wfManifest m" "sv_checkpoint (m_saved m) = Some k" "cursor < k" "j \<le> cursor"
    "fingerprintsEqual (sv_fingerprint (m_saved m)) (boundary m j)"
  shows "sv_offBranch (m_saved (truncateManifest now cursor m)) \<and>
    sv_checkpoint (m_saved (truncateManifest now cursor m)) = None \<and>
    \<not> sv_offBranch (m_saved (savedManifest now (sv_fingerprint (m_saved m)) (truncateManifest now cursor m)))"
proof -
  let ?t = "truncateManifest now cursor m"
  have "savedCheckpoint (sv_fingerprint (m_saved m)) ?t \<noteq> None"
  proof (cases "j = 0")
    case True
    then show ?thesis using assms(5) by (simp add: savedCheckpoint_def boundary_def truncateManifest_def)
  next
    case False
    have "cursor < length (m_intervals m)" using assms(1-3) by (auto simp: wfManifest_def wfSaved_def)
    then have "m_intervals m ! (j - 1) \<in> set (m_intervals ?t)"
      using False assms(4) by (auto simp: truncateManifest_def in_set_conv_nth intro!: exI [of _ "j - 1"])
    then have "List.find (\<lambda>e. fingerprintsEqual (sv_fingerprint (m_saved m)) (iv_after e)) (m_intervals ?t) \<noteq> None"
      using False assms(5) unfolding find_None_iff boundary_def by auto
    then show ?thesis by (simp add: savedCheckpoint_def)
  qed
  then show ?thesis using assms(2,3) by (simp add: truncateManifest_def savedManifest_def)
qed

lemma truncate_forgets_saved_witness:
  "sv_checkpoint (m_saved sampleManifest) = Some 2 \<and>
   sv_offBranch (m_saved (truncateManifest [] 1 sampleManifest)) \<and>
   boundary (truncateManifest [] 1 sampleManifest) 0 = sv_fingerprint (m_saved (truncateManifest [] 1 sampleManifest))"
proof -
  have "sv_checkpoint (m_saved sampleManifest) = Some 2"
    "fingerprintsEqual (sv_fingerprint (m_saved sampleManifest)) (boundary sampleManifest 0)"
    "boundary (truncateManifest [] 1 sampleManifest) 0 = sv_fingerprint (m_saved (truncateManifest [] 1 sampleManifest))"
    by (code_simp)+
  then show ?thesis
    using truncate_forgets_saved [OF sampleManifest_wf, of 2 1 0 "[]"] by simp
qed

end
