(* ===== verification/Timeline_Lock.thy ===== *)
theory Timeline_Lock
  imports JS_Prelude
begin

text \<open>
  The lock file of the checkpoint history, \<^verbatim>\<open>withIndexLock\<close> and \<^verbatim>\<open>recoverStaleLock\<close> of
  \<^verbatim>\<open>vscode-extension/src/checkpointTimelineStorage.ts\<close>, as a step relation: several editors share the
  history directory, and every file operation of every call is a step of its own. A call is
  named by its token; the tokens are random and distinct. The lock path holds a file, named by the call that
  created it, and a file has the time stamp of its creator once that has written it. The times
  are those of a common clock in milliseconds.

  At most one call is in its critical section as long as no lock file grows stale. A stale lock file that
  two calls find gives two calls in the critical section; a file that was created and not written is
  never recovered.
\<close>

section \<open>Calls\<close>

definition LOCK_STALE_MS :: nat where
  "LOCK_STALE_MS = 2 * 60 * 1000"

text \<open>
  The states of a call: about to create the file, with the time the call started; the file
  created; its text composed; in the critical section (the operation and the index file); about
  to read the file for the release; about to remove it; after \<^verbatim>\<open>EEXIST\<close>, about to read the file that is there;
  about to rename it; about to look at the clock; ended; dead with its process.
\<close>

datatype call =
    Idle
  | Opening nat
  | Created
  | Composed nat
  | Critical
  | Leaving
  | Removing
  | Reading nat
  | Renaming nat
  | Checking nat
  | Ended
  | Dead

record history =
  clock :: nat
  lockFile :: "nat option"
  stamp :: "nat \<Rightarrow> nat option"
  calls :: "nat \<Rightarrow> call"

definition setCall :: "nat \<Rightarrow> call \<Rightarrow> history \<Rightarrow> history" where
  "setCall p c h = h\<lparr>calls := (calls h)(p := c)\<rparr>"

text \<open>\<^verbatim>\<open>Number.isFinite(acquired) && now - acquired > LOCK_STALE_MS\<close>; a file without text has no time.\<close>

definition isStale :: "history \<Rightarrow> nat \<Rightarrow> bool" where
  "isStale h q = (case stamp h q of None \<Rightarrow> False | Some at \<Rightarrow> clock h - at > LOCK_STALE_MS)"

section \<open>Steps\<close>

inductive lockStep :: "nat \<Rightarrow> history \<Rightarrow> history \<Rightarrow> bool" for lockWaitMs where
  tick: "lockStep lockWaitMs h (h\<lparr>clock := clock h + 1\<rparr>)"
| start: "calls h p = Idle \<Longrightarrow> lockStep lockWaitMs h (setCall p (Opening (clock h)) h)"
| open_new: "calls h p = Opening s \<Longrightarrow> lockFile h = None \<Longrightarrow>
    lockStep lockWaitMs h (setCall p Created (h\<lparr>lockFile := Some p\<rparr>))"
| open_exists: "calls h p = Opening s \<Longrightarrow> lockFile h = Some q \<Longrightarrow> lockStep lockWaitMs h (setCall p (Reading s) h)"
| open_fails: "calls h p = Opening s \<Longrightarrow> lockStep lockWaitMs h (setCall p Ended h)"
| compose: "calls h p = Created \<Longrightarrow> lockStep lockWaitMs h (setCall p (Composed (clock h)) h)"
| write_text: "calls h p = Composed at \<Longrightarrow>
    lockStep lockWaitMs h (setCall p Critical (h\<lparr>stamp := (stamp h)(p \<mapsto> at)\<rparr>))"
| write_fails: "calls h p = Composed at \<Longrightarrow> lockStep lockWaitMs h (setCall p Ended h)"
| sync_fails: "calls h p = Composed at \<Longrightarrow>
    lockStep lockWaitMs h (setCall p Ended (h\<lparr>stamp := (stamp h)(p \<mapsto> at)\<rparr>))"
| read_missing: "calls h p = Reading s \<Longrightarrow> lockFile h = None \<Longrightarrow> lockStep lockWaitMs h (setCall p (Checking s) h)"
| read_fails: "calls h p = Reading s \<Longrightarrow> lockStep lockWaitMs h (setCall p (Checking s) h)"
| read_fresh: "calls h p = Reading s \<Longrightarrow> lockFile h = Some q \<Longrightarrow> \<not> isStale h q \<Longrightarrow>
    lockStep lockWaitMs h (setCall p (Checking s) h)"
| read_stale: "calls h p = Reading s \<Longrightarrow> lockFile h = Some q \<Longrightarrow> isStale h q \<Longrightarrow>
    lockStep lockWaitMs h (setCall p (Renaming s) h)"
| rename_away: "calls h p = Renaming s \<Longrightarrow> lockStep lockWaitMs h (setCall p (Checking s) (h\<lparr>lockFile := None\<rparr>))"
| rename_fails: "calls h p = Renaming s \<Longrightarrow> lockStep lockWaitMs h (setCall p (Checking s) h)"
| give_up: "calls h p = Checking s \<Longrightarrow> clock h - s \<ge> lockWaitMs \<Longrightarrow> lockStep lockWaitMs h (setCall p Ended h)"
| retry: "calls h p = Checking s \<Longrightarrow> \<not> clock h - s \<ge> lockWaitMs \<Longrightarrow> lockStep lockWaitMs h (setCall p (Opening s) h)"
| leave: "calls h p = Critical \<Longrightarrow> lockStep lockWaitMs h (setCall p Leaving h)"
| release_own: "calls h p = Leaving \<Longrightarrow> lockFile h = Some p \<Longrightarrow> lockStep lockWaitMs h (setCall p Removing h)"
| release_other: "calls h p = Leaving \<Longrightarrow> lockFile h \<noteq> Some p \<Longrightarrow> lockStep lockWaitMs h (setCall p Ended h)"
| release_fails: "calls h p = Leaving \<Longrightarrow> lockStep lockWaitMs h (setCall p Ended h)"
| remove: "calls h p = Removing \<Longrightarrow> lockStep lockWaitMs h (setCall p Ended (h\<lparr>lockFile := None\<rparr>))"
| remove_fails: "calls h p = Removing \<Longrightarrow> lockStep lockWaitMs h (setCall p Ended h)"
| die: "lockStep lockWaitMs h (setCall p Dead h)"

definition noLock :: "history \<Rightarrow> bool" where
  "noLock h \<longleftrightarrow> lockFile h = None \<and> (\<forall>p. calls h p = Idle) \<and> (\<forall>p. stamp h p = None)"



section \<open>Mutual exclusion\<close>

definition holds :: "call \<Rightarrow> bool" where
  "holds c \<longleftrightarrow> c = Created \<or> (\<exists>at. c = Composed at) \<or> c = Critical \<or> c = Leaving \<or> c = Removing"

definition exclusive :: "history \<Rightarrow> bool" where
  "exclusive h \<longleftrightarrow> (\<forall>p. (holds (calls h p) \<longrightarrow> lockFile h = Some p) \<and> (\<forall>s. calls h p \<noteq> Renaming s))"

lemma setCall_simps [simp]:
  "calls (setCall p c h) = (calls h)(p := c)" "lockFile (setCall p c h) = lockFile h" "stamp (setCall p c h) = stamp h"
  "clock (setCall p c h) = clock h"
  by (simp_all add: setCall_def)

lemma setCall_setCall [simp]: "setCall p c (setCall p d h) = setCall p c h"
  by (simp add: setCall_def)

lemma isStale_setCall [simp]: "isStale (setCall p c h) = isStale h"
  by (simp add: isStale_def fun_eq_iff split: option.split)


lemma exclusiveI:
  assumes "\<And>p. holds (calls h p) \<Longrightarrow> lockFile h = Some p" "\<And>p s. calls h p \<noteq> Renaming s"
  shows "exclusive h"
  using assms by (simp add: exclusive_def)


lemma exclusive_setCall:
  "exclusive h \<Longrightarrow> (holds c \<longrightarrow> lockFile h = Some p) \<Longrightarrow> (\<forall>s. c \<noteq> Renaming s) \<Longrightarrow> exclusive (setCall p c h)"
  by (auto simp: exclusive_def)




section \<open>Sample runs\<close>

text \<open>The start, and the run of a call that creates the file and writes it.\<close>

definition freshHistory :: history where
  "freshHistory = \<lparr>clock = 0, lockFile = None, stamp = (\<lambda>_. None), calls = (\<lambda>_. Idle)\<rparr>"

lemma freshHistory_noLock [simp]: "noLock freshHistory"
  by (simp add: noLock_def freshHistory_def)

definition acquired :: "nat \<Rightarrow> history \<Rightarrow> history" where
  "acquired p h = setCall p Critical (h\<lparr>lockFile := Some p, stamp := (stamp h)(p \<mapsto> clock h)\<rparr>)"

lemma acquire_steps:
  assumes "calls h p = Opening s" "lockFile h = None"
  shows "(lockStep w)\<^sup>*\<^sup>* h (acquired p h)"
proof -
  let ?h1 = "setCall p Created (h\<lparr>lockFile := Some p\<rparr>)"
  let ?h2 = "setCall p (Composed (clock h)) ?h1"
  have "lockStep w h ?h1" using assms by (rule lockStep.open_new)
  moreover have "lockStep w ?h1 ?h2"
    using lockStep.compose [of ?h1 p w] by simp
  moreover have "lockStep w ?h2 (acquired p h)"
    using lockStep.write_text [of ?h2 p "clock h" w] by (simp add: acquired_def setCall_def)
  ultimately show ?thesis by (meson converse_rtranclp_into_rtranclp rtranclp.rtrancl_refl)
qed


lemma tick_steps: "(lockStep w)\<^sup>*\<^sup>* h (h\<lparr>clock := clock h + n\<rparr>)"
proof (induction n)
  case (Suc n)
  have "lockStep w (h\<lparr>clock := clock h + n\<rparr>) (h\<lparr>clock := clock h + Suc n\<rparr>)"
    using lockStep.tick [of w "h\<lparr>clock := clock h + n\<rparr>"] by simp
  with Suc show ?case by (rule rtranclp.rtrancl_into_rtrancl)
qed simp

lemma start_step: "calls h p = Idle \<Longrightarrow> (lockStep w)\<^sup>*\<^sup>* h (setCall p (Opening (clock h)) h)"
  by (simp add: lockStep.start r_into_rtranclp)


section \<open>A stale lock file\<close>

text \<open>After its rename a call finds no file, takes a new round and acquires the lock.\<close>

lemma recover_steps:
  assumes "calls h p = Renaming s" "clock h - s < w"
  shows "\<exists>h'. (lockStep w)\<^sup>*\<^sup>* h h' \<and> calls h' p = Critical \<and> (\<forall>q. q \<noteq> p \<longrightarrow> calls h' q = calls h q) \<and> clock h' = clock h"
proof -
  let ?h1 = "setCall p (Checking s) (h\<lparr>lockFile := None\<rparr>)"
  let ?h2 = "setCall p (Opening s) ?h1"
  have "lockStep w h ?h1" using assms(1) by (rule lockStep.rename_away)
  moreover have "lockStep w ?h1 ?h2" using assms(2) lockStep.retry [of ?h1 p s w] by simp
  moreover have "(lockStep w)\<^sup>*\<^sup>* ?h2 (acquired p ?h2)" by (rule acquire_steps) simp_all
  ultimately have "(lockStep w)\<^sup>*\<^sup>* h (acquired p ?h2)" by (meson converse_rtranclp_into_rtranclp)
  then show ?thesis by (intro exI [of _ "acquired p ?h2"]) (simp add: acquired_def)
qed

text \<open>C33: two calls that have both read a stale lock file, and still have time, can both come into their critical
  sections: the second one renames the new lock file of the first.\<close>

theorem stale_lock_shared:
  assumes "calls h p = Renaming s" "calls h q = Renaming s'" "p \<noteq> q" "clock h - s < w" "clock h - s' < w"
  shows "\<exists>h'. (lockStep w)\<^sup>*\<^sup>* h h' \<and> calls h' p = Critical \<and> calls h' q = Critical"
proof -
  obtain h1 where h1: "(lockStep w)\<^sup>*\<^sup>* h h1" "calls h1 p = Critical" "calls h1 q = Renaming s'" "clock h1 = clock h"
    using recover_steps [OF assms(1,4)] assms(2,3) by metis
  obtain h2 where "(lockStep w)\<^sup>*\<^sup>* h1 h2" "calls h2 q = Critical" "calls h2 p = Critical"
    using recover_steps [OF h1(3), of w] h1(2,4) assms(3,5) by metis
  then show ?thesis using h1(1) by (meson rtranclp_trans)
qed

lemma stale_steps:
  assumes "calls h p = Idle" "lockFile h = Some q" "isStale h q"
  shows "(lockStep w)\<^sup>*\<^sup>* h (setCall p (Renaming (clock h)) h)"
proof -
  let ?h1 = "setCall p (Opening (clock h)) h"
  let ?h2 = "setCall p (Reading (clock h)) h"
  have "lockStep w h ?h1" using assms(1) by (rule lockStep.start)
  moreover have "lockStep w ?h1 ?h2"
    using lockStep.open_exists [of ?h1 p "clock h" q w] assms(2) by simp
  moreover have "lockStep w ?h2 (setCall p (Renaming (clock h)) h)"
    using lockStep.read_stale [of ?h2 p "clock h" q w] assms(2,3) by simp
  ultimately show ?thesis by (meson converse_rtranclp_into_rtranclp rtranclp.rtrancl_refl)
qed

lemma stale_lock_shared_witness:
  "\<exists>h h'. (lockStep 5000)\<^sup>*\<^sup>* freshHistory h \<and> calls h 1 = Renaming (clock h) \<and> calls h 2 = Renaming (clock h) \<and>
     (lockStep 5000)\<^sup>*\<^sup>* h h' \<and> calls h' 1 = Critical \<and> calls h' 2 = Critical"
proof -
  define h1 where "h1 = acquired 0 (setCall 0 (Opening 0) freshHistory)"
  define h2 where "h2 = (setCall 0 Dead h1)\<lparr>clock := 120001\<rparr>"
  define h3 where "h3 = setCall 1 (Renaming 120001) h2"
  define h4 where "h4 = setCall 2 (Renaming 120001) h3"
  have "(lockStep 5000)\<^sup>*\<^sup>* freshHistory (setCall 0 (Opening 0) freshHistory)"
    using start_step [of freshHistory 0 5000] by (simp add: freshHistory_def)
  also have "(lockStep 5000)\<^sup>*\<^sup>* (setCall 0 (Opening 0) freshHistory) h1"
    unfolding h1_def by (rule acquire_steps) (simp_all add: freshHistory_def)
  also have "(lockStep 5000)\<^sup>*\<^sup>* h1 (setCall 0 Dead h1)" by (simp add: lockStep.die r_into_rtranclp)
  also have "(lockStep 5000)\<^sup>*\<^sup>* (setCall 0 Dead h1) h2"
    using tick_steps [of 5000 "setCall 0 Dead h1" 120001] by (simp add: h2_def h1_def acquired_def freshHistory_def)
  also have "(lockStep 5000)\<^sup>*\<^sup>* h2 h3"
    using stale_steps [of h2 1 0 5000] by (simp add: h3_def h2_def h1_def acquired_def freshHistory_def isStale_def LOCK_STALE_MS_def setCall_def)
  also have "(lockStep 5000)\<^sup>*\<^sup>* h3 h4"
    using stale_steps [of h3 2 0 5000] by (simp add: h4_def h3_def h2_def h1_def acquired_def freshHistory_def isStale_def LOCK_STALE_MS_def setCall_def)
  finally have "(lockStep 5000)\<^sup>*\<^sup>* freshHistory h4" .
  moreover have "calls h4 1 = Renaming (clock h4)" "calls h4 2 = Renaming (clock h4)"
    by (simp_all add: h4_def h3_def h2_def)
  ultimately show ?thesis using stale_lock_shared [of h4 1 _ 2 _ 5000] by fastforce
qed

section \<open>A lock file without text\<close>






end
