(* ===== verification/Spec2Isabelle.thy ===== *)
theory Spec2Isabelle
  imports JS_Prelude Text_Encoding Edit_Script Native_Session Change_Client Editor_History
    Mutation_Queue Session_Model JS_Text Editor_Search JS_Json Webview_Protocol Range_Map
    Change_Log_Codec Change_Log_Stream Change_Log_Scan Change_Log_Agreement
    JS_Json_Text Timeline_Manifest Timeline_Lock
begin

text \<open>
  Verification of the omega-edit client library and of the pure parts of its VS Code extension.

  \<^bold>\<open>The program.\<close> A native service keeps editing sessions over files (\<^verbatim>\<open>core\<close>, \<^verbatim>\<open>server/cpp\<close>). The
  TypeScript client (\<^verbatim>\<open>packages/client\<close>) computes edits, submits them as single changes inside
  transactions, serialises the mutations of a session, keeps the undo history and the session
  model of an editor, drives searches, and exports and reads change logs. The extension
  (\<^verbatim>\<open>vscode-extension\<close>) shows a session in a webview: it validates every message that the
  webview sends, encodes text, and overlays range maps on the file.

  \<^bold>\<open>Theories.\<close>
  \<^item> \<open>JS_Prelude\<close>: JavaScript values and results, \<^verbatim>\<open>safe_int.ts\<close>, lists, decimal text, the locale
    \<open>transition_system\<close> for invariants of state machines.
  \<^item> \<open>JS_Text\<close>, \<open>JS_Json\<close>: the parts of the language's library that the sources use: UTF-8 and
    hexadecimal conversion, \<^verbatim>\<open>TextDecoder\<close>, \<^verbatim>\<open>JSON.parse\<close>, \<^verbatim>\<open>JSON.stringify\<close>. \<open>JS_Json_Text\<close> shows that printing and
    parsing, and encoding and decoding, are inverse.
  \<^item> \<open>Text_Encoding\<close>: \<^verbatim>\<open>vscode-extension/src/textEncoding.ts\<close>. The code tables are injective, and
    encoding and decoding are inverse; the locale \<open>single_byte_codec\<close> is interpreted for each table.
  \<^item> \<open>Edit_Script\<close>: \<^verbatim>\<open>editOptimizer\<close>, \<^verbatim>\<open>removeCommonSuffix\<close>, \<^verbatim>\<open>editOperations\<close> of
    \<^verbatim>\<open>packages/client/src/change.ts\<close>. The operations turn the original into the edited segment.
  \<^item> \<open>Native_Session\<close>: the change functions of \<^verbatim>\<open>core/src/lib/edit.cpp\<close>, the flags of
    \<^verbatim>\<open>session.cpp\<close> and the handlers of \<^verbatim>\<open>editor_service.cpp\<close>, on the bytes of a session.
  \<^item> \<open>Change_Client\<close>: \<^verbatim>\<open>protobuf_ts/change.ts\<close>, \<^verbatim>\<open>change.ts\<close> and the transaction helpers of
    \<^verbatim>\<open>session.ts\<close>. The locale \<open>edit_service\<close> is the contract of the service; the theorems on
    \<^verbatim>\<open>edit\<close> and \<^verbatim>\<open>editSimple\<close> rest on its interpretation for the native session.
  \<^item> \<open>Editor_History\<close>: \<^verbatim>\<open>EditorHistoryController\<close> of \<^verbatim>\<open>editor_history.ts\<close>. Undo and redo are
    inverse, snapshots restore, and the dirty flag is right up to the two cases proved wrong.
  \<^item> \<open>Mutation_Queue\<close>: \<^verbatim>\<open>enqueueSessionMutation\<close> of \<^verbatim>\<open>mutation_queue.ts\<close> as a step relation:
    mutual exclusion, order, progress, and the deadlock of calls nested across sessions.
  \<^item> \<open>Session_Model\<close>: \<^verbatim>\<open>editor_session_model.ts\<close> with promises and timers: no waiter is lost.
  \<^item> \<open>Editor_Search\<close>: \<^verbatim>\<open>editor_search.ts\<close>. The locale \<open>search_service\<close> is interpreted on the search
    handler; adjacent search, viewport windows and replacement offsets are characterised.
  \<^item> \<open>Webview_Protocol\<close>: \<^verbatim>\<open>webviewProtocol.ts\<close>. Accepted messages lie in the file and the limits,
    and normalisation is a fixed point on what it accepts.
  \<^item> \<open>Range_Map\<close>: \<^verbatim>\<open>rangeMap.ts\<close>. Accepted maps are well formed, their highlight ids are distinct,
    and it is characterised which of them the highlight protocol accepts.
  \<^item> \<open>Change_Log_Codec\<close>: \<^verbatim>\<open>changeLog/codec.ts\<close> and \<^verbatim>\<open>types.ts\<close>. The sequence validator accepts
    exactly the legal sequences, the summary and the header describe the entries, and a normalised
    document is accepted again unchanged.
  \<^item> \<open>Change_Log_Stream\<close>: \<^verbatim>\<open>changeLog/stream.ts\<close>, the scanner that reads a change log in chunks, with
    its cursor, streaming decoder and generator. \<open>Change_Log_Scan\<close> has the scanner of a whole text and
    shows, operation by operation, that the cursor refines it. \<open>Change_Log_Agreement\<close> shows that the scanner
    agrees with \<^verbatim>\<open>JSON.parse\<close> and the codec, and that a property \<^verbatim>\<open>__proto__\<close> is the exception.

  \<^item> \<open>Timeline_Manifest\<close>, \<open>Timeline_Lock\<close>: the checkpoint history of \<^verbatim>\<open>checkpointTimelineStorage.ts\<close>.
    The first has the index and the manifest with their validation and the manifests that the operations of a
    session make: all are well formed and read back. The second has the lock file of the index as a step relation
    over the calls of several processes: mutual exclusion as long as no lock file is stale, and the two
    situations in which the recovery of a stale one goes wrong.

  \<^bold>\<open>Conventions.\<close> A class is a record with one function per method. Code that throws answers
  \<open>Inl\<close> with the error; the wording of messages is left out. Asynchronous code that runs alone on
  its state is a function on that state; where calls interleave, the points of resumption are the
  steps of a relation. Numbers that the sources check with \<^verbatim>\<open>Number.isSafeInteger\<close> are integers
  with the check written out; \<^verbatim>\<open>bigint\<close> is \<open>int\<close>; bytes are \<open>8 word\<close>.

  \<^bold>\<open>Bounds.\<close> The JSON parser recurses at most \<open>2 * length s + 2\<close> times: every call consumes a code
  unit or passes from a container to its first element. Nesting checks recurse on the value. All other
  recursions have a termination proof; there is no other fuel.

  \<^bold>\<open>Parameters.\<close> The value of a JSON number literal that is not an integer is a parameter of the
  parser. The executor of the history, the session functions of the search controller and the RPC
  service of the change client are parameters; the last two are interpreted on the native model.

  \<^bold>\<open>Not modelled.\<close> Generated protocol code, process and socket handling (\<^verbatim>\<open>server.ts\<close>,
  \<^verbatim>\<open>packages/server\<close>), the VS Code panels (\<^verbatim>\<open>hexEditorProvider.ts\<close>, \<^verbatim>\<open>extension.ts\<close>), the Svelte user
  interface and the AI tool server call other code and compute little of their own. The native piece
  table, transforms and search algorithms are C++ below the client and are represented by what
  they do to the bytes. The change log export, the action
  journal, the subscriptions and the file operations of the checkpoint history have computations worth proving
  and are the next components.
\<close>

end
